(* ===== verification/Net_Types.thy ===== *)
theory Net_Types
  imports TT_Prelude
begin

section \<open>Addresses and identifiers (\<^verbatim>\<open>core/include/vpn/internal/utils.h\<close>)\<close>

text \<open>
  The value types several components exchange. \<^verbatim>\<open>SocketAddress\<close> wraps the platform's
  \<^verbatim>\<open>sockaddr\<close>: the raw address bytes (4 for IPv4, 16 for IPv6, none for
  \<^verbatim>\<open>AF_UNSPEC\<close>) and the port.
\<close>

datatype address_family = AF_UNSPEC | AF_INET | AF_INET6

datatype socket_address = SocketAddress (sa_addr: bytes) (sa_port: u16)

definition is_ipv4 :: "socket_address \<Rightarrow> bool" where
  "is_ipv4 a \<longleftrightarrow> length (sa_addr a) = 4"

definition is_ipv6 :: "socket_address \<Rightarrow> bool" where
  "is_ipv6 a \<longleftrightarrow> length (sa_addr a) = 16"

definition sa_family :: "socket_address \<Rightarrow> address_family" where
  "sa_family a = (if is_ipv4 a then AF_INET else if is_ipv6 a then AF_INET6 else AF_UNSPEC)"

definition sa_valid :: "socket_address \<Rightarrow> bool" where
  "sa_valid a \<longleftrightarrow> sa_family a \<noteq> AF_UNSPEC"

definition set_port :: "u16 \<Rightarrow> socket_address \<Rightarrow> socket_address" where
  "set_port p a = SocketAddress (sa_addr a) p"

lemma set_port_simps [simp]: "sa_addr (set_port p a) = sa_addr a" "sa_port (set_port p a) = p"
  by (simp_all add: set_port_def)

datatype name_port = NamePort (np_name: string) (np_port: int)

datatype tunnel_address = SockDst socket_address | NameDst name_port

datatype tunnel_address_pair = TunnelAddressPair (tap_src: socket_address) (tap_dst: tunnel_address)

definition NON_ID :: u64 where
  "NON_ID = 0xFFFFFFFFFFFFFFFF"

definition dstport :: "tunnel_address_pair \<Rightarrow> u16" where
  "dstport p = (case tap_dst p of SockDst a \<Rightarrow> sa_port a | NameDst n \<Rightarrow> word_of_int (np_port n))"

end
