(* ===== verification/Vpn_Utils.thy ===== *)
theory Vpn_Utils
  imports Net_Types
begin

section \<open>Utilities (\<^verbatim>\<open>common/include/vpn/utils.h\<close>, \<^verbatim>\<open>net/src/utils.cpp\<close>)\<close>

text \<open>
  The error value of the API with its codes, the partition algorithm \<^verbatim>\<open>swap_remove_if\<close> on an array,
  and the comparison of endpoint descriptors, whose \<^verbatim>\<open>strcmp\<close> calls are undefined on a null pointer.
\<close>

datatype vpn_error = VpnError (err_code: int) (err_text: "string option")

abbreviation (input) VPN_EC_NOERROR :: int where "VPN_EC_NOERROR \<equiv> 0"
abbreviation (input) VPN_EC_ERROR :: int where "VPN_EC_ERROR \<equiv> 1"
abbreviation (input) VPN_EC_INVALID_SETTINGS :: int where "VPN_EC_INVALID_SETTINGS \<equiv> 2"
abbreviation (input) VPN_EC_ADDR_IN_USE :: int where "VPN_EC_ADDR_IN_USE \<equiv> 3"
abbreviation (input) VPN_EC_INVALID_STATE :: int where "VPN_EC_INVALID_STATE \<equiv> 4"
abbreviation (input) VPN_EC_AUTH_REQUIRED :: int where "VPN_EC_AUTH_REQUIRED \<equiv> 5"
abbreviation (input) VPN_EC_LOCATION_UNAVAILABLE :: int where "VPN_EC_LOCATION_UNAVAILABLE \<equiv> 6"
abbreviation (input) VPN_EC_CERTIFICATE_VERIFICATION_FAILED :: int where
  "VPN_EC_CERTIFICATE_VERIFICATION_FAILED \<equiv> 7"
abbreviation (input) VPN_EC_EVENT_LOOP_FAILURE :: int where "VPN_EC_EVENT_LOOP_FAILURE \<equiv> 8"
abbreviation (input) VPN_EC_INITIAL_CONNECT_FAILED :: int where "VPN_EC_INITIAL_CONNECT_FAILED \<equiv> 9"
abbreviation (input) VPN_EC_FATAL_CONNECTIVITY_ERROR :: int where "VPN_EC_FATAL_CONNECTIVITY_ERROR \<equiv> 10"

subsection \<open>\<^verbatim>\<open>swap_remove_if\<close>\<close>

text \<open>The argument \<open>n\<close> counts the elements from index \<open>i\<close> to the end.\<close>

fun swap_remove_loop :: "('a \<Rightarrow> bool) \<Rightarrow> nat \<Rightarrow> nat \<Rightarrow> nat \<Rightarrow> 'a list \<Rightarrow> nat \<times> 'a list" where
  "swap_remove_loop p 0 b i xs = (b, xs)"
| "swap_remove_loop p (Suc n) b i xs =
     (if \<not> p (xs ! i) then swap_remove_loop p n (Suc b) (Suc i) (xs[b := xs ! i, i := xs ! b])
      else swap_remove_loop p n b (Suc i) xs)"

definition swap_remove_if :: "('a \<Rightarrow> bool) \<Rightarrow> 'a list \<Rightarrow> nat \<times> 'a list" where
  "swap_remove_if p xs =
     (let b = length (takeWhile (\<lambda>x. \<not> p x) xs)
      in if b \<noteq> length xs then swap_remove_loop p (length xs - Suc b) b (Suc b) xs else (b, xs))"

lemma list_swap_update:
  "(A @ y # B @ z # C)[length A := z, Suc (length A + length B) := y] = A @ z # B @ y # C"
  by (induction A) (simp_all add: list_update_append)

lemma split_at_two:
  assumes "b < i" and "i < length xs"
  shows "\<exists>A y B z C. xs = A @ y # B @ z # C \<and> length A = b \<and> Suc (length A + length B) = i"
proof -
  have "xs = take i xs @ xs ! i # drop (Suc i) xs"
    using assms by (simp add: id_take_nth_drop)
  moreover have "take i xs = take b xs @ xs ! b # drop (Suc b) (take i xs)"
    using assms id_take_nth_drop [of b "take i xs"] by simp
  ultimately have "xs = take b xs @ xs ! b # drop (Suc b) (take i xs) @ xs ! i # drop (Suc i) xs"
    by (metis append.assoc append_Cons)
  then show ?thesis
    using assms by (intro exI [of _ "take b xs"] exI [of _ "xs ! b"] exI [of _ "drop (Suc b) (take i xs)"]
        exI [of _ "xs ! i"] exI [of _ "drop (Suc i) xs"]) auto
qed

text \<open>
  Loop invariant: everything before \<open>b\<close> is kept, everything from \<open>b\<close> to \<open>i\<close> is removed, the rest is
  unread.
\<close>

lemma swap_remove_loop_correct:
  assumes "length xs = i + n" and "b < i"
    and "\<forall>x\<in>set (take b xs). \<not> p x" and "\<forall>x\<in>set (drop b (take i xs)). p x"
    and "swap_remove_loop p n b i xs = (b', ys)"
  shows "mset ys = mset xs \<and> take b' ys = filter (\<lambda>x. \<not> p x) xs \<and> (\<forall>x\<in>set (drop b' ys). p x)"
  using assms
proof (induction n arbitrary: b i xs)
  case 0
  have "filter (\<lambda>x. \<not> p x) xs = filter (\<lambda>x. \<not> p x) (take b xs) @ filter (\<lambda>x. \<not> p x) (drop b xs)"
    by (metis append_take_drop_id filter_append)
  also have "\<dots> = take b xs"
    using 0 by (auto simp: filter_empty_conv intro!: filter_True)
  finally show ?case using 0 by simp
next
  case (Suc n)
  have i: "i < length xs" using Suc.prems(1) by simp
  show ?case
  proof (cases "p (xs ! i)")
    case True
    have "\<forall>x\<in>set (drop b (take (Suc i) xs)). p x"
      using True Suc.prems(2,4) i by (auto simp: take_Suc_conv_app_nth)
    then show ?thesis
      using Suc.prems True by (intro Suc.IH [of xs "Suc i" b]) simp_all
  next
    case False
    obtain A y B z C where xs: "xs = A @ y # B @ z # C" and la: "length A = b"
        and li: "Suc (length A + length B) = i"
      using split_at_two [OF Suc.prems(2) i] by blast
    have z: "xs ! i = z" and y: "xs ! b = y"
      using la li by (auto simp: xs nth_append)
    let ?ws = "A @ z # B @ y # C"
    have ws: "xs[b := xs ! i, i := xs ! b] = ?ws"
      unfolding z y using list_swap_update [of A y B z C] la li xs by simp
    have pA: "\<forall>x\<in>set A. \<not> p x" and py: "p y" and pB: "\<forall>x\<in>set B. p x"
      using Suc.prems(3,4) la li by (auto simp: xs)
    have "mset ys = mset ?ws \<and> take b' ys = filter (\<lambda>x. \<not> p x) ?ws \<and> (\<forall>x\<in>set (drop b' ys). p x)"
    proof (rule Suc.IH)
      show "length ?ws = Suc i + n" using Suc.prems(1) by (simp add: xs)
      show "Suc b < Suc i" using Suc.prems(2) by simp
      show "\<forall>x\<in>set (take (Suc b) ?ws). \<not> p x" using la pA False z by auto
      show "\<forall>x\<in>set (drop (Suc b) (take (Suc i) ?ws)). p x" using la li py pB by auto
      show "swap_remove_loop p n (Suc b) (Suc i) ?ws = (b', ys)"
        using Suc.prems(5) False ws by simp
    qed
    then show ?thesis using py pB by (simp add: xs)
  qed
qed

text \<open>
  What the callers rely on: the array is permuted, and the returned position separates the kept
  elements, in their original order, from the removed ones.
\<close>

lemma swap_remove_if_partition:
  assumes "swap_remove_if p xs = (b, ys)"
  shows "mset ys = mset xs" and "take b ys = filter (\<lambda>x. \<not> p x) xs" and "\<forall>x\<in>set (drop b ys). p x"
proof -
  define k where "k = length (takeWhile (\<lambda>x. \<not> p x) xs)"
  have tw: "take k xs = takeWhile (\<lambda>x. \<not> p x) xs"
    unfolding k_def by (rule takeWhile_eq_take [symmetric])
  have keep: "\<forall>x\<in>set (take k xs). \<not> p x"
    unfolding tw by (auto dest: set_takeWhileD)
  have k: "k \<le> length xs" unfolding k_def by (rule length_takeWhile_le)
  have "mset ys = mset xs \<and> take b ys = filter (\<lambda>x. \<not> p x) xs \<and> (\<forall>x\<in>set (drop b ys). p x)"
  proof (cases "k = length xs")
    case True
    then have "\<forall>x\<in>set xs. \<not> p x" using keep by simp
    moreover have "b = length xs" "ys = xs"
      using assms True by (auto simp: swap_remove_if_def k_def)
    ultimately show ?thesis by simp
  next
    case False
    with k have lt: "k < length xs" by simp
    then have "p (xs ! k)"
      unfolding k_def using nth_length_takeWhile [of "\<lambda>x. \<not> p x" xs] by simp
    then have "\<forall>x\<in>set (drop k (take (Suc k) xs)). p x"
      using lt by (simp add: take_Suc_conv_app_nth)
    moreover have "swap_remove_loop p (length xs - Suc k) k (Suc k) xs = (b, ys)"
      using assms False by (simp add: swap_remove_if_def Let_def k_def)
    moreover have "length xs = Suc k + (length xs - Suc k)" using lt by simp
    ultimately show ?thesis
      using keep by (intro swap_remove_loop_correct [where n = "length xs - Suc k" and i = "Suc k" and b = k]) simp_all
  qed
  then show "mset ys = mset xs" "take b ys = filter (\<lambda>x. \<not> p x) xs" "\<forall>x\<in>set (drop b ys). p x"
    by simp_all
qed

lemma swap_remove_loop_bound: "fst (swap_remove_loop p n b i xs) \<le> b + n"
proof (induction n arbitrary: b i xs)
  case (Suc n)
  show ?case
    using Suc.IH [of "Suc b" "Suc i" "xs[b := xs ! i, i := xs ! b]"] Suc.IH [of b "Suc i" xs] by simp
qed simp

text \<open>
  \<^verbatim>\<open>swap_remove_if\<close> permutes the array in place and returns the position that separates the
  elements to keep, in their original order, from the ones to remove.
\<close>

theorem swap_remove_if_correct:
  "case swap_remove_if p xs of (k, ys) \<Rightarrow>
     mset ys = mset xs \<and> k \<le> length ys \<and> take k ys = filter (\<lambda>x. \<not> p x) xs \<and> list_all p (drop k ys)"
proof -
  obtain k ys where ky: "swap_remove_if p xs = (k, ys)" by fastforce
  note r = swap_remove_if_partition [OF ky]
  define b where "b = length (takeWhile (\<lambda>x. \<not> p x) xs)"
  have "b \<le> length xs" unfolding b_def by (rule length_takeWhile_le)
  then have "fst (swap_remove_if p xs) \<le> length xs"
    using swap_remove_loop_bound [of p "length xs - Suc b" b "Suc b" xs]
    by (simp add: swap_remove_if_def b_def [symmetric]) arith
  moreover have "length ys = length xs" using r(1) by (rule mset_eq_length)
  ultimately show ?thesis using r by (simp add: ky list_all_iff)
qed

subsection \<open>Endpoints\<close>

record vpn_endpoint =
  ep_address :: socket_address
  ep_name :: "string option"
  ep_remote_id :: "string option"
  ep_has_ipv6 :: bool

text \<open>
  \<open>None\<close> is \<^verbatim>\<open>strcmp\<close> with one null argument. The three conjuncts are evaluated from
  the left and stop at the first that fails.
\<close>

definition c_str_equal :: "string option \<Rightarrow> string option \<Rightarrow> bool option" where
  "c_str_equal a b =
     (case (a, b) of
        (None, None) \<Rightarrow> Some True
      | (Some s, Some t) \<Rightarrow> Some (s = t)
      | _ \<Rightarrow> None)"

definition vpn_endpoint_equals :: "vpn_endpoint \<Rightarrow> vpn_endpoint \<Rightarrow> bool option" where
  "vpn_endpoint_equals l r =
     (if ep_address l \<noteq> ep_address r then Some False
      else case c_str_equal (ep_name l) (ep_name r) of
             None \<Rightarrow> None
           | Some False \<Rightarrow> Some False
           | Some True \<Rightarrow> c_str_equal (ep_remote_id l) (ep_remote_id r))"

text \<open>Descriptors for which the comparison is defined whatever the addresses are.\<close>

definition endpoint_comparable :: "vpn_endpoint \<Rightarrow> vpn_endpoint \<Rightarrow> bool" where
  "endpoint_comparable l r \<longleftrightarrow>
     (ep_name l = None \<longleftrightarrow> ep_name r = None) \<and> (ep_remote_id l = None \<longleftrightarrow> ep_remote_id r = None)"

lemma vpn_endpoint_equals_comparable:
  assumes "endpoint_comparable l r"
  shows "vpn_endpoint_equals l r =
    Some (ep_address l = ep_address r \<and> ep_name l = ep_name r \<and> ep_remote_id l = ep_remote_id r)"
  using assms
  by (cases "ep_name l"; cases "ep_name r"; cases "ep_remote_id l"; cases "ep_remote_id r")
    (auto simp: vpn_endpoint_equals_def c_str_equal_def endpoint_comparable_def split: bool.splits)

end
