(* ===== verification/Event_Loop.thy ===== *)
theory Event_Loop
  imports TT_Prelude
begin

section \<open>The event loop (\<^verbatim>\<open>common/src/event_loop.cpp\<close>)\<close>

text \<open>
  The task queue every component of the engine runs on: \<^verbatim>\<open>submit\<close> and
  \<^verbatim>\<open>schedule\<close> enqueue a task and return its identifier, \<^verbatim>\<open>cancel\<close>
  removes it, \<^verbatim>\<open>run_task_queue\<close> is the libevent callback that drains the queue in
  batches, \<^verbatim>\<open>finalize_exit\<close> empties it. Each operation runs under the loop's mutex and
  is one atomic definition. The libevent base is represented by the number of
  \<^verbatim>\<open>event_base_once\<close> callbacks pending on it. The ghost fields \<open>el_running\<close> and
  \<open>el_finalized\<close> record the identifiers of the task whose action is being executed and of those
  whose \<^verbatim>\<open>finalize\<close> hook has run, in order; \<open>el_ran\<close> those whose action ran.
\<close>

subsection \<open>State\<close>

type_synonym task_id = int

datatype event_loop_state = ELS_STOPPED | ELS_RUNNING | ELS_BASE_EXITED

record 'a event_loop =
  el_next_task_id :: task_id
  el_task_queue_scheduled :: bool
  el_task_queue :: "(task_id \<times> 'a) list"
  el_deferred_task_queue :: "(task_id \<times> 'a) list"
  el_state :: event_loop_state
  el_stopping_externally :: bool
  el_pending_runs :: nat
  el_running :: "task_id list"
  el_ran :: "task_id list"
  el_finalized :: "task_id list"

definition TASK_QUEUE_BUDGET :: nat where
  "TASK_QUEUE_BUDGET = 64"

definition TASK_ID_MAX :: task_id where
  "TASK_ID_MAX = 2 ^ 63 - 1"

definition vpn_event_loop_create :: "'a event_loop" where
  "vpn_event_loop_create =
     \<lparr>el_next_task_id = 0, el_task_queue_scheduled = False, el_task_queue = [],
      el_deferred_task_queue = [], el_state = ELS_STOPPED, el_stopping_externally = False,
      el_pending_runs = 0, el_running = [], el_ran = [], el_finalized = []\<rparr>"

subsection \<open>Submitting, scheduling and cancelling\<close>

definition finalize_task :: "task_id \<Rightarrow> 'a event_loop \<Rightarrow> 'a event_loop" where
  "finalize_task i L = L\<lparr>el_finalized := el_finalized L @ [i]\<rparr>"

definition vpn_event_loop_submit :: "'a \<Rightarrow> 'a event_loop \<Rightarrow> task_id \<times> 'a event_loop" where
  "vpn_event_loop_submit t L =
     (let i = el_next_task_id L; L1 = L\<lparr>el_next_task_id := i + 1\<rparr>
      in case el_state L of
           ELS_BASE_EXITED \<Rightarrow> (-1, finalize_task i L1)
         | _ \<Rightarrow>
             (let L2 = L1\<lparr>el_task_queue := el_task_queue L1 @ [(i, t)]\<rparr>
              in if \<not> el_task_queue_scheduled L2
                 then (i, L2\<lparr>el_task_queue_scheduled := True,
                             el_pending_runs := Suc (el_pending_runs L2)\<rparr>)
                 else (i, L2)))"

definition vpn_event_loop_schedule :: "'a \<Rightarrow> 'a event_loop \<Rightarrow> task_id \<times> 'a event_loop" where
  "vpn_event_loop_schedule t L =
     (let i = el_next_task_id L; L1 = L\<lparr>el_next_task_id := i + 1\<rparr>
      in case el_state L of
           ELS_BASE_EXITED \<Rightarrow> (-1, finalize_task i L1)
         | _ \<Rightarrow> (i, L1\<lparr>el_deferred_task_queue := el_deferred_task_queue L1 @ [(i, t)]\<rparr>))"

text \<open>Erase the first element with the given identifier, as the two search loops do.\<close>

fun erase_id :: "task_id \<Rightarrow> (task_id \<times> 'a) list \<Rightarrow> (task_id \<times> 'a) list" where
  "erase_id i [] = []"
| "erase_id i (x # xs) = (if fst x = i then xs else x # erase_id i xs)"

definition vpn_event_loop_cancel :: "task_id \<Rightarrow> 'a event_loop \<Rightarrow> 'a event_loop" where
  "vpn_event_loop_cancel i L =
     (if i \<in> set (map fst (el_task_queue L))
      then finalize_task i (L\<lparr>el_task_queue := erase_id i (el_task_queue L)\<rparr>)
      else if i \<in> set (map fst (el_deferred_task_queue L))
      then finalize_task i (L\<lparr>el_deferred_task_queue := erase_id i (el_deferred_task_queue L)\<rparr>)
      else L)"

subsection \<open>Running\<close>

text \<open>
  A task's action is a function of the loop and of the state \<open>'w\<close> of the component that submitted
  it; it may submit, schedule and cancel.
\<close>

type_synonym ('a, 'w) task_action =
  "'a \<Rightarrow> task_id \<Rightarrow> 'a event_loop \<times> 'w \<Rightarrow> 'a event_loop \<times> 'w"

definition begin_task :: "task_id \<Rightarrow> 'a event_loop \<Rightarrow> 'a event_loop" where
  "begin_task i L = L\<lparr>el_running := i # el_running L, el_ran := el_ran L @ [i]\<rparr>"

definition end_task :: "task_id \<Rightarrow> 'a event_loop \<Rightarrow> 'a event_loop" where
  "end_task i L = finalize_task i (L\<lparr>el_running := remove1 i (el_running L)\<rparr>)"

definition run_one :: "('a, 'w) task_action \<Rightarrow> task_id \<times> 'a \<Rightarrow> 'a event_loop \<times> 'w
    \<Rightarrow> 'a event_loop \<times> 'w" where
  "run_one act x s =
     (let (L, w) = act (snd x) (fst x) (begin_task (fst x) (fst s), snd s)
      in (end_task (fst x) L, w))"

definition repost_run :: "'a event_loop \<Rightarrow> 'a event_loop" where
  "repost_run L = L\<lparr>el_pending_runs := Suc (el_pending_runs L)\<rparr>"

text \<open>The batch loop; the first argument is what is left of the budget.\<close>

fun run_task_loop :: "('a, 'w) task_action \<Rightarrow> nat \<Rightarrow> task_id \<Rightarrow> 'a event_loop \<times> 'w
    \<Rightarrow> 'a event_loop \<times> 'w" where
  "run_task_loop act 0 last_id (L, w) =
     (case el_task_queue L of
        [] \<Rightarrow> (L\<lparr>el_task_queue_scheduled := False\<rparr>, w)
      | x # q \<Rightarrow> (repost_run L, w))"
| "run_task_loop act (Suc budget) last_id (L, w) =
     (case el_task_queue L of
        [] \<Rightarrow> (L\<lparr>el_task_queue_scheduled := False\<rparr>, w)
      | x # q \<Rightarrow>
          (if fst x > last_id then (repost_run L, w)
           else run_task_loop act budget last_id (run_one act x (L\<lparr>el_task_queue := q\<rparr>, w))))"

definition last_task_id :: "'a event_loop \<Rightarrow> task_id" where
  "last_task_id L =
     (if el_task_queue L = [] then -1
      else if fst (hd (el_task_queue L)) \<le> fst (last (el_task_queue L))
      then fst (last (el_task_queue L))
      else TASK_ID_MAX)"

text \<open>The callback consumes the \<^verbatim>\<open>event_base_once\<close> registration that invoked it.\<close>

definition run_task_queue :: "('a, 'w) task_action \<Rightarrow> 'a event_loop \<times> 'w \<Rightarrow> 'a event_loop \<times> 'w" where
  "run_task_queue act s =
     (let L = (fst s)\<lparr>el_pending_runs := el_pending_runs (fst s) - 1\<rparr>
      in run_task_loop act TASK_QUEUE_BUDGET (last_task_id L) (L, snd s))"

definition run_deferred_task ::
  "('a, 'w) task_action \<Rightarrow> task_id \<Rightarrow> 'a event_loop \<times> 'w \<Rightarrow> 'a event_loop \<times> 'w" where
  "run_deferred_task act i s =
     (case map_of (el_deferred_task_queue (fst s)) i of
        None \<Rightarrow> s
      | Some t \<Rightarrow>
          run_one act (i, t)
            ((fst s)\<lparr>el_deferred_task_queue := erase_id i (el_deferred_task_queue (fst s))\<rparr>, snd s))"

subsection \<open>Start and stop\<close>

definition loop_run_begin :: "'a event_loop \<Rightarrow> 'a event_loop" where
  "loop_run_begin L = L\<lparr>el_state := ELS_RUNNING\<rparr>"

definition loop_run_end :: "'a event_loop \<Rightarrow> 'a event_loop" where
  "loop_run_end L =
     L\<lparr>el_state := (if el_stopping_externally L then ELS_BASE_EXITED else ELS_STOPPED)\<rparr>"

definition finalize_exit_begin :: "'a event_loop \<Rightarrow> 'a event_loop" where
  "finalize_exit_begin L = L\<lparr>el_stopping_externally := True\<rparr>"

text \<open>After the wait on \<^verbatim>\<open>stop_barrier\<close>, entered once the state is not running.\<close>

definition finalize_exit_end :: "'a event_loop \<Rightarrow> 'a event_loop" where
  "finalize_exit_end L =
     L\<lparr>el_finalized := el_finalized L @ map fst (el_task_queue L)
                        @ map fst (el_deferred_task_queue L),
       el_task_queue := [], el_deferred_task_queue := [],
       el_state := ELS_STOPPED, el_stopping_externally := False\<rparr>"

subsection \<open>Owning task handles: \<^verbatim>\<open>AutoTaskId\<close>\<close>

text \<open>
  The handle's \<^verbatim>\<open>m_id\<close>; a handle made from a refused submission (identifier \<open>-1\<close>)
  is empty. Assigning a fresh handle swaps it in and destroys the old one, which cancels its task.
\<close>

type_synonym auto_task_id = "task_id option"

definition make_auto_task_id :: "task_id \<Rightarrow> auto_task_id" where
  "make_auto_task_id i = (if i \<ge> 0 then Some i else None)"

definition auto_task_reset :: "auto_task_id \<Rightarrow> 'a event_loop \<Rightarrow> 'a event_loop" where
  "auto_task_reset h L = (case h of None \<Rightarrow> L | Some i \<Rightarrow> vpn_event_loop_cancel i L)"

subsection \<open>Invariants\<close>

definition queue_ids :: "'a event_loop \<Rightarrow> task_id list" where
  "queue_ids L = map fst (el_task_queue L)"

definition deferred_ids :: "'a event_loop \<Rightarrow> task_id list" where
  "deferred_ids L = map fst (el_deferred_task_queue L)"

text \<open>
  Every identifier ever issued is in exactly one place: queued, deferred, running or finalized;
  and the queue is in the order of issue.
\<close>

definition issued_ids :: "task_id \<Rightarrow> task_id multiset" where
  "issued_ids n = mset (map int [0..<nat n])"

definition el_inv :: "'a event_loop \<Rightarrow> bool" where
  "el_inv L \<longleftrightarrow> 0 \<le> el_next_task_id L \<and> sorted_wrt (<) (queue_ids L) \<and>
     mset (queue_ids L) + mset (deferred_ids L) + mset (el_running L) + mset (el_finalized L)
       = issued_ids (el_next_task_id L)"

text \<open>
  No wake-up is lost: a non-empty queue has exactly one drain callback registered, or is being
  drained right now (\<open>active\<close>).
\<close>

definition el_wake :: "bool \<Rightarrow> 'a event_loop \<Rightarrow> bool" where
  "el_wake active L \<longleftrightarrow>
     (if el_task_queue_scheduled L then el_pending_runs L + of_bool active = 1
      else el_pending_runs L = 0 \<and> \<not> active \<and> el_task_queue L = [])"

lemmas el_op_defs =
  vpn_event_loop_submit_def vpn_event_loop_schedule_def vpn_event_loop_cancel_def
  finalize_task_def begin_task_def end_task_def repost_run_def
  loop_run_begin_def loop_run_end_def finalize_exit_begin_def finalize_exit_end_def

lemmas el_inv_defs = el_inv_def queue_ids_def deferred_ids_def

lemma issued_ids_Suc: "0 \<le> n \<Longrightarrow> issued_ids (n + 1) = add_mset n (issued_ids n)"
  by (simp add: issued_ids_def nat_add_distrib)

lemma set_issued: "set_mset (issued_ids n) = {i. 0 \<le> i \<and> i < n}"
proof -
  have "set_mset (issued_ids n) = int ` {0..<nat n}"
    by (simp add: issued_ids_def)
  also have "\<dots> = {i. 0 \<le> i \<and> i < n}"
    by (auto simp: image_iff intro!: bexI [of _ "nat _"])
  finally show ?thesis .
qed

lemma issued_bound:
  assumes "el_inv L" and "i \<in> set (queue_ids L)"
  shows "0 \<le> i" and "i < el_next_task_id L"
proof -
  have "i \<in># issued_ids (el_next_task_id L)"
    using assms by (metis el_inv_def set_mset_mset union_iff)
  then show "0 \<le> i" "i < el_next_task_id L"
    by (simp_all add: set_issued)
qed

lemma mset_erase_id:
  "i \<in> fst ` set xs \<Longrightarrow>
     image_mset fst (mset xs) = add_mset i (image_mset fst (mset (erase_id i xs)))"
  by (induction xs) auto

lemma subseq_erase_id: "subseq (map fst (erase_id i xs)) (map fst xs)"
  by (induction xs) auto

subsection \<open>The public operations keep the invariants\<close>

inductive el_call :: "'a event_loop \<Rightarrow> 'a event_loop \<Rightarrow> bool" where
  call_submit: "el_call L (snd (vpn_event_loop_submit t L))"
| call_schedule: "el_call L (snd (vpn_event_loop_schedule t L))"
| call_cancel: "el_call L (vpn_event_loop_cancel i L)"

text \<open>What any sequence of calls does to the queue: it may drop queued tasks, and new tasks go last.\<close>

definition el_extends :: "'a event_loop \<Rightarrow> 'a event_loop \<Rightarrow> bool" where
  "el_extends L L' \<longleftrightarrow>
     el_next_task_id L \<le> el_next_task_id L' \<and>
     (\<exists>kept new. queue_ids L' = kept @ new \<and> subseq kept (queue_ids L) \<and>
        (\<forall>i\<in>set new. el_next_task_id L \<le> i)) \<and>
     el_running L' = el_running L \<and> el_ran L' = el_ran L \<and> el_state L' = el_state L"

lemma el_inv_submit: "el_inv L \<Longrightarrow> el_inv (snd (vpn_event_loop_submit t L))"
  using issued_bound [of L]
  by (cases "el_state L")
    (auto simp: el_op_defs el_inv_defs Let_def issued_ids_Suc sorted_wrt_append)

lemma el_inv_schedule: "el_inv L \<Longrightarrow> el_inv (snd (vpn_event_loop_schedule t L))"
  by (cases "el_state L") (auto simp: el_op_defs el_inv_defs Let_def issued_ids_Suc)

lemma el_inv_cancel:
  assumes "el_inv L"
  shows "el_inv (vpn_event_loop_cancel i L)"
proof -
  have "sorted_wrt (<) (map fst (erase_id i (el_task_queue L)))"
    using assms by (auto simp: el_inv_defs intro: sorted_wrt_subseq [OF subseq_erase_id])
  note sorted = this
  consider (queued) "i \<in> fst ` set (el_task_queue L)"
    | (deferred) "i \<notin> fst ` set (el_task_queue L)" "i \<in> fst ` set (el_deferred_task_queue L)"
    | (absent) "i \<notin> fst ` set (el_task_queue L)" "i \<notin> fst ` set (el_deferred_task_queue L)"
    by blast
  then show ?thesis
  proof cases
    case queued
    then show ?thesis
      using assms sorted mset_erase_id [OF queued] by (simp add: el_op_defs el_inv_defs)
  next
    case deferred
    then show ?thesis
      using assms mset_erase_id [OF deferred(2)] by (simp add: el_op_defs el_inv_defs)
  next
    case absent
    then show ?thesis using assms by (simp add: el_op_defs)
  qed
qed

lemma el_call_inv: "el_call L L' \<Longrightarrow> el_inv L \<Longrightarrow> el_inv L'"
  by (induction rule: el_call.induct) (simp_all add: el_inv_submit el_inv_schedule el_inv_cancel)

lemma el_call_wake: "el_call L L' \<Longrightarrow> el_wake b L \<Longrightarrow> el_wake b L'"
proof (induction rule: el_call.induct)
  case (call_submit L t)
  then show ?case
    by (cases "el_state L") (auto simp: el_op_defs el_wake_def Let_def)
next
  case (call_schedule L t)
  then show ?case
    by (cases "el_state L") (auto simp: el_op_defs el_wake_def Let_def)
next
  case (call_cancel L i)
  then show ?case
    by (auto simp: el_op_defs el_wake_def)
qed

lemma el_extendsI:
  assumes "queue_ids L' = kept @ new" and "subseq kept (queue_ids L)"
    and "\<And>i. i \<in> set new \<Longrightarrow> el_next_task_id L \<le> i"
    and "el_next_task_id L \<le> el_next_task_id L'"
    and "el_running L' = el_running L" "el_ran L' = el_ran L" "el_state L' = el_state L"
  shows "el_extends L L'"
  using assms unfolding el_extends_def by blast

lemma el_extends_refl: "el_extends L L"
  by (rule el_extendsI [of _ "queue_ids L" "[]"]) simp_all

lemma submit_queue_ids:
  "queue_ids (snd (vpn_event_loop_submit t L)) =
     queue_ids L @ (if el_state L = ELS_BASE_EXITED then [] else [el_next_task_id L])"
  by (cases "el_state L") (simp_all add: el_op_defs queue_ids_def Let_def)

lemma submit_frame:
  "el_next_task_id (snd (vpn_event_loop_submit t L)) = el_next_task_id L + 1"
  "el_running (snd (vpn_event_loop_submit t L)) = el_running L"
  "el_ran (snd (vpn_event_loop_submit t L)) = el_ran L"
  "el_state (snd (vpn_event_loop_submit t L)) = el_state L"
  by (cases "el_state L"; simp add: el_op_defs Let_def)+

lemma schedule_frame:
  "queue_ids (snd (vpn_event_loop_schedule t L)) = queue_ids L"
  "el_next_task_id (snd (vpn_event_loop_schedule t L)) = el_next_task_id L + 1"
  "el_running (snd (vpn_event_loop_schedule t L)) = el_running L"
  "el_ran (snd (vpn_event_loop_schedule t L)) = el_ran L"
  "el_state (snd (vpn_event_loop_schedule t L)) = el_state L"
  by (cases "el_state L"; simp add: el_op_defs queue_ids_def Let_def)+

lemma cancel_frame:
  "el_next_task_id (vpn_event_loop_cancel i L) = el_next_task_id L"
  "el_running (vpn_event_loop_cancel i L) = el_running L"
  "el_ran (vpn_event_loop_cancel i L) = el_ran L"
  "el_state (vpn_event_loop_cancel i L) = el_state L"
  "subseq (queue_ids (vpn_event_loop_cancel i L)) (queue_ids L)"
  by (simp_all add: el_op_defs queue_ids_def subseq_erase_id)

lemmas el_call_frame = submit_queue_ids submit_frame schedule_frame cancel_frame

lemma el_call_extends: "el_call L L' \<Longrightarrow> el_extends L L'"
proof (induction rule: el_call.induct)
  case (call_submit L t)
  show ?case
    by (rule el_extendsI [OF submit_queue_ids]) (simp_all add: el_call_frame split: if_splits)
next
  case (call_schedule L t)
  show ?case
    by (rule el_extendsI [of _ "queue_ids L" "[]"]) (simp_all add: el_call_frame)
next
  case (call_cancel L i)
  show ?case
    by (rule el_extendsI [of _ "queue_ids (vpn_event_loop_cancel i L)" "[]"])
      (simp_all add: el_call_frame)
qed

lemma el_extends_trans:
  assumes "el_extends L1 L2" and "el_extends L2 L3"
  shows "el_extends L1 L3"
proof -
  obtain k1 n1 where 1: "queue_ids L2 = k1 @ n1" "subseq k1 (queue_ids L1)"
      "\<forall>i\<in>set n1. el_next_task_id L1 \<le> i"
    using assms(1) by (auto simp: el_extends_def)
  obtain k2 n2 where 2: "queue_ids L3 = k2 @ n2" "subseq k2 (queue_ids L2)"
      "\<forall>i\<in>set n2. el_next_task_id L2 \<le> i"
    using assms(2) by (auto simp: el_extends_def)
  obtain a b where ab: "k2 = a @ b" "subseq a k1" "subseq b n1"
    using 1(1) 2(2) by (auto simp: subseq_append_iff)
  have "\<forall>i\<in>set (b @ n2). el_next_task_id L1 \<le> i"
    using 1(3) 2(3) ab(3) assms(1) by (fastforce simp: el_extends_def dest: subseq_set)
  moreover have "queue_ids L3 = a @ (b @ n2)" "subseq a (queue_ids L1)"
    using 2(1) ab 1(2) by (auto intro: subseq_order.trans)
  ultimately show ?thesis
    using assms unfolding el_extends_def by (metis (no_types, lifting) order_trans)
qed

lemma el_calls_extends: "el_call\<^sup>*\<^sup>* L L' \<Longrightarrow> el_extends L L'"
  by (induction rule: rtranclp_induct)
    (blast intro: el_extends_refl el_extends_trans el_call_extends)+

lemma el_calls_inv: "el_call\<^sup>*\<^sup>* L L' \<Longrightarrow> el_inv L \<Longrightarrow> el_inv L'"
  by (induction rule: rtranclp_induct) (blast intro: el_call_inv)+

lemma el_calls_wake: "el_call\<^sup>*\<^sup>* L L' \<Longrightarrow> el_wake b L \<Longrightarrow> el_wake b L'"
  by (induction rule: rtranclp_induct) (blast intro: el_call_wake)+

lemma deferred_pop_inv:
  assumes "el_inv L" and "map_of (el_deferred_task_queue L) i = Some t"
  shows "el_inv (L\<lparr>el_deferred_task_queue := erase_id i (el_deferred_task_queue L),
    el_running := i # el_running L\<rparr>)"
proof -
  have "i \<in> fst ` set (el_deferred_task_queue L)"
    using assms(2) by (force dest: map_of_SomeD)
  from mset_erase_id [OF this] assms(1) show ?thesis by (simp add: el_inv_defs)
qed

subsection \<open>Interface: what the loop asks of task actions, and what it gives\<close>

text \<open>
  A component's task actions touch the loop through its public operations only. Under that contract
  a drain callback keeps both invariants, runs a batch in order of submission, and runs only tasks
  that were queued when it started.
\<close>

text \<open>
  A batch with budget \<open>k\<close> and limit \<open>n\<close>: a subsequence of what was queued up to \<open>n\<close>, at most \<open>k\<close>
  tasks, all of them unless the budget ran out, the oldest task first.
\<close>

definition batch_of :: "nat \<Rightarrow> task_id \<Rightarrow> 'a event_loop \<Rightarrow> 'a event_loop \<Rightarrow> task_id list \<Rightarrow> bool" where
  "batch_of k n L L' rs \<longleftrightarrow>
     el_ran L' = el_ran L @ rs \<and> subseq rs (filter (\<lambda>j. j \<le> n) (queue_ids L)) \<and> length rs \<le> k \<and>
     (length rs = k \<or> (\<forall>j\<in>set (queue_ids L'). n < j)) \<and>
     (\<forall>j js. 0 < k \<longrightarrow> queue_ids L = j # js \<longrightarrow> j \<le> n \<longrightarrow> (\<exists>rs'. rs = j # rs'))"

locale event_loop_client =
  fixes act :: "('a, 'w) task_action"
  assumes act_calls: "el_call\<^sup>*\<^sup>* L (fst (act t i (L, w)))"
begin

lemma run_one_fst:
  "fst (run_one act x (L, w)) = end_task (fst x) (fst (act (snd x) (fst x) (begin_task (fst x) L, w)))"
  by (simp add: run_one_def split: prod.splits)

lemma run_one_inv:
  assumes "el_inv (L\<lparr>el_running := i # el_running L\<rparr>)"
  shows "el_inv (fst (run_one act (i, t) (L, w)))"
proof -
  let ?L1 = "fst (act t i (begin_task i L, w))"
  have calls: "el_call\<^sup>*\<^sup>* (begin_task i L) ?L1" by (rule act_calls)
  have "el_inv (begin_task i L)"
    using assms by (simp add: el_inv_defs begin_task_def)
  then have inv: "el_inv ?L1" using calls by (blast intro: el_calls_inv)
  have "el_running ?L1 = i # el_running L"
    using el_calls_extends [OF calls] by (simp add: el_extends_def begin_task_def)
  with inv show ?thesis
    by (simp add: run_one_fst end_task_def finalize_task_def el_inv_defs)
qed

lemma run_one_extends:
  "\<exists>kept new. queue_ids (fst (run_one act (i, t) (L, w))) = kept @ new \<and>
     subseq kept (queue_ids L) \<and> (\<forall>j\<in>set new. el_next_task_id L \<le> j)"
  "el_next_task_id L \<le> el_next_task_id (fst (run_one act (i, t) (L, w)))"
  "el_ran (fst (run_one act (i, t) (L, w))) = el_ran L @ [i]"
  "el_running (fst (run_one act (i, t) (L, w))) = el_running L"
proof -
  have "el_extends (begin_task i L) (fst (act t i (begin_task i L, w)))"
    by (rule el_calls_extends) (rule act_calls)
  then show "\<exists>kept new. queue_ids (fst (run_one act (i, t) (L, w))) = kept @ new \<and>
       subseq kept (queue_ids L) \<and> (\<forall>j\<in>set new. el_next_task_id L \<le> j)"
    "el_next_task_id L \<le> el_next_task_id (fst (run_one act (i, t) (L, w)))"
    "el_ran (fst (run_one act (i, t) (L, w))) = el_ran L @ [i]"
    "el_running (fst (run_one act (i, t) (L, w))) = el_running L"
    by (simp_all add: run_one_fst el_extends_def begin_task_def end_task_def finalize_task_def
        queue_ids_def)
qed

lemma run_one_wake:
  assumes "el_wake b L"
  shows "el_wake b (fst (run_one act (i, t) (L, w)))"
proof -
  have "el_wake b (begin_task i L)"
    using assms by (simp add: el_wake_def begin_task_def)
  then have "el_wake b (fst (act t i (begin_task i L, w)))"
    by (rule el_calls_wake [OF act_calls])
  then show ?thesis
    by (simp add: run_one_fst el_wake_def end_task_def finalize_task_def)
qed

lemma pop_inv:
  "el_inv L \<Longrightarrow> el_task_queue L = (i, t) # q \<Longrightarrow>
     el_inv (L\<lparr>el_task_queue := q, el_running := i # el_running L\<rparr>)"
  by (simp add: el_inv_defs)

lemma run_task_loop_inv: "el_inv L \<Longrightarrow> el_inv (fst (run_task_loop act k n (L, w)))"
proof (induction k arbitrary: L w)
  case 0
  then show ?case by (cases "el_task_queue L") (simp_all add: repost_run_def el_inv_defs)
next
  case (Suc k)
  show ?case
  proof (cases "el_task_queue L")
    case Nil
    with Suc.prems show ?thesis by (simp add: el_inv_defs)
  next
    case (Cons x q)
    obtain i t where x: "x = (i, t)" by (cases x)
    obtain L' w' where r: "run_one act (i, t) (L\<lparr>el_task_queue := q\<rparr>, w) = (L', w')"
      by (cases "run_one act (i, t) (L\<lparr>el_task_queue := q\<rparr>, w)")
    have "el_inv L'"
      using run_one_inv [where L = "L\<lparr>el_task_queue := q\<rparr>" and i = i and t = t and w = w] pop_inv [OF Suc.prems Cons [unfolded x]]
      by (simp add: r)
    then show ?thesis
      using Suc Cons x r by (simp add: repost_run_def el_inv_defs)
  qed
qed

lemma run_task_loop_wake:
  "el_wake True L \<Longrightarrow> el_wake False (fst (run_task_loop act k n (L, w)))"
proof (induction k arbitrary: L w)
  case 0
  then show ?case
    by (cases "el_task_queue L"; cases "el_task_queue_scheduled L")
      (simp_all add: repost_run_def el_wake_def)
next
  case (Suc k)
  show ?case
  proof (cases "el_task_queue L")
    case Nil
    with Suc.prems show ?thesis
      by (cases "el_task_queue_scheduled L") (simp_all add: el_wake_def)
  next
    case (Cons x q)
    obtain L' w' where r: "run_one act x (L\<lparr>el_task_queue := q\<rparr>, w) = (L', w')"
      by (cases "run_one act x (L\<lparr>el_task_queue := q\<rparr>, w)")
    have "el_wake True (L\<lparr>el_task_queue := q\<rparr>)"
      using Suc.prems Cons by (cases "el_task_queue_scheduled L") (simp_all add: el_wake_def)
    then have "el_wake True L'"
      using run_one_wake [where b = True and L = "L\<lparr>el_task_queue := q\<rparr>" and i = "fst x" and t = "snd x" and w = w] by (simp add: r)
    then have "el_wake False (fst (run_task_loop act k n (L', w')))"
      by (rule Suc.IH)
    moreover have "el_wake False (repost_run L)"
      using Suc.prems Cons by (cases "el_task_queue_scheduled L") (simp_all add: el_wake_def repost_run_def)
    ultimately show ?thesis
      using Cons r by simp
  qed
qed

lemma run_task_loop_batch:
  assumes "el_inv L" and "n < el_next_task_id L"
  shows "\<exists>rs. batch_of k n L (fst (run_task_loop act k n (L, w))) rs"
  using assms
proof (induction k arbitrary: L w)
  case 0
  then show ?case
    by (cases "el_task_queue L") (auto simp: batch_of_def repost_run_def)
next
  case (Suc k)
  show ?case
  proof (cases "el_task_queue L")
    case Nil
    then show ?thesis by (auto simp: batch_of_def queue_ids_def)
  next
    case (Cons x q)
    obtain i t where x: "x = (i, t)" by (cases x)
    show ?thesis
    proof (cases "i \<le> n")
      case False
      have "\<forall>j\<in>set (queue_ids L). n < j"
        using False Suc.prems(1) Cons x by (auto simp: el_inv_defs)
      then show ?thesis
        using False Cons x by (auto simp: batch_of_def queue_ids_def repost_run_def intro: exI [of _ "[]"])
    next
      case True
      let ?L1 = "L\<lparr>el_task_queue := q\<rparr>"
      obtain L' w' where r: "run_one act (i, t) (?L1, w) = (L', w')"
        by (cases "run_one act (i, t) (?L1, w)")
      obtain kept new where kn: "queue_ids L' = kept @ new" "subseq kept (map fst q)"
          "\<forall>j\<in>set new. el_next_task_id L \<le> j" "el_next_task_id L \<le> el_next_task_id L'"
          "el_ran L' = el_ran L @ [i]"
        using run_one_extends [where L = ?L1 and i = i and t = t and w = w] by (auto simp: r queue_ids_def)
      have "el_inv L'"
        using run_one_inv [where L = ?L1 and i = i and t = t and w = w] pop_inv [OF Suc.prems(1) Cons [unfolded x]] by (simp add: r)
      moreover have "n < el_next_task_id L'"
        using Suc.prems(2) kn(4) by simp
      ultimately obtain rs where rs: "batch_of k n L' (fst (run_task_loop act k n (L', w'))) rs"
        using Suc.IH by blast
      have "filter (\<lambda>j. j \<le> n) new = []"
        using kn(3) Suc.prems(2) by (fastforce simp: filter_empty_conv)
      then have "subseq (filter (\<lambda>j. j \<le> n) (queue_ids L')) (filter (\<lambda>j. j \<le> n) (map fst q))"
        using kn(1,2) by simp
      then have "subseq rs (filter (\<lambda>j. j \<le> n) (map fst q))"
        using rs by (auto simp: batch_of_def intro: subseq_order.trans)
      then have "batch_of (Suc k) n L (fst (run_task_loop act k n (L', w'))) (i # rs)"
        using rs kn(5) True Cons x by (auto simp: batch_of_def queue_ids_def)
      then show ?thesis
        using Cons x True r by auto
    qed
  qed
qed

lemma run_task_queue_inv: "el_inv L \<Longrightarrow> el_inv (fst (run_task_queue act (L, w)))"
  unfolding run_task_queue_def Let_def fst_conv snd_conv
  by (rule run_task_loop_inv) (simp add: el_inv_defs)

lemma run_task_queue_wake:
  assumes "el_wake False L" and "0 < el_pending_runs L"
  shows "el_wake False (fst (run_task_queue act (L, w)))"
  unfolding run_task_queue_def Let_def fst_conv snd_conv
  by (rule run_task_loop_wake) (use assms in \<open>auto simp: el_wake_def split: if_splits\<close>)

lemma run_deferred_task_inv:
  assumes "el_inv L"
  shows "el_inv (fst (run_deferred_task act i (L, w)))"
proof (cases "map_of (el_deferred_task_queue L) i")
  case None
  with assms show ?thesis by (simp add: run_deferred_task_def)
next
  case (Some t)
  let ?L1 = "L\<lparr>el_deferred_task_queue := erase_id i (el_deferred_task_queue L)\<rparr>"
  have "el_inv (?L1\<lparr>el_running := i # el_running ?L1\<rparr>)"
    using deferred_pop_inv [OF assms Some] by simp
  from run_one_inv [OF this] Some show ?thesis by (simp add: run_deferred_task_def)
qed

lemma run_deferred_task_wake:
  assumes "el_wake b L"
  shows "el_wake b (fst (run_deferred_task act i (L, w)))"
proof (cases "map_of (el_deferred_task_queue L) i")
  case None
  with assms show ?thesis by (simp add: run_deferred_task_def)
next
  case (Some t)
  have "el_wake b (L\<lparr>el_deferred_task_queue := erase_id i (el_deferred_task_queue L)\<rparr>)"
    using assms by (simp add: el_wake_def)
  from run_one_wake [OF this] Some show ?thesis by (simp add: run_deferred_task_def)
qed

end

subsection \<open>Interface: an invariant of the loop's client\<close>

text \<open>
  A predicate on the loop and the client's state that may speak about what is queued. While a task is
  executed it is stated with that task put back in front (the first argument). The predicate must not
  depend on the loop's bookkeeping.
\<close>

definition same_tasks :: "'a event_loop \<Rightarrow> 'a event_loop \<Rightarrow> bool" where
  "same_tasks L L' \<longleftrightarrow>
     el_task_queue L' = el_task_queue L \<and> el_deferred_task_queue L' = el_deferred_task_queue L \<and>
     el_next_task_id L' = el_next_task_id L \<and> el_state L' = el_state L"

locale event_loop_invariant = event_loop_client act for act :: "('a, 'w) task_action" +
  fixes I :: "'a list \<Rightarrow> 'a event_loop \<Rightarrow> 'w \<Rightarrow> bool"
  assumes I_tasks: "I ts L w \<Longrightarrow> same_tasks L L' \<Longrightarrow> I ts L' w"
    and I_pop: "I [] L w \<Longrightarrow> el_inv L \<Longrightarrow> el_task_queue L = (i, t) # q
      \<Longrightarrow> I [t] (L\<lparr>el_task_queue := q\<rparr>) w"
    and I_pop_deferred: "I [] L w \<Longrightarrow> el_inv L \<Longrightarrow> map_of (el_deferred_task_queue L) i = Some t
      \<Longrightarrow> I [t] (L\<lparr>el_deferred_task_queue := erase_id i (el_deferred_task_queue L)\<rparr>) w"
    and I_act: "I [t] L w \<Longrightarrow> el_inv L \<Longrightarrow> act t i (L, w) = (L', w') \<Longrightarrow> I [] L' w'"
begin

lemma run_one_I:
  assumes "I [t] L w" and "el_inv (L\<lparr>el_running := i # el_running L\<rparr>)"
    and "run_one act (i, t) (L, w) = (L', w')"
  shows "I [] L' w'"
proof -
  obtain L1 where act: "act t i (begin_task i L, w) = (L1, w')" and L': "L' = end_task i L1"
    using assms(3) by (auto simp: run_one_def split: prod.splits)
  have "I [t] (begin_task i L) w"
    using assms(1) by (rule I_tasks) (simp add: same_tasks_def begin_task_def)
  moreover have "el_inv (begin_task i L)"
    using assms(2) by (simp add: el_inv_defs begin_task_def)
  ultimately have "I [] L1 w'" using act by (rule I_act)
  then show ?thesis
    unfolding L' by (rule I_tasks) (simp add: same_tasks_def end_task_def finalize_task_def)
qed

lemma run_task_loop_I:
  "I [] L w \<Longrightarrow> el_inv L \<Longrightarrow> run_task_loop act k n (L, w) = (L', w') \<Longrightarrow> I [] L' w'"
proof (induction k arbitrary: L w)
  case 0
  then show ?case
    by (cases "el_task_queue L") (auto simp: repost_run_def same_tasks_def elim!: I_tasks)
next
  case (Suc k)
  show ?case
  proof (cases "el_task_queue L")
    case Nil
    with Suc.prems show ?thesis by (auto simp: same_tasks_def elim!: I_tasks)
  next
    case (Cons x q)
    obtain i t where x: "x = (i, t)" by (cases x)
    show ?thesis
    proof (cases "i > n")
      case True
      with Suc.prems Cons x show ?thesis
        by (auto simp: repost_run_def same_tasks_def elim!: I_tasks)
    next
      case False
      let ?L1 = "L\<lparr>el_task_queue := q\<rparr>"
      obtain L2 w2 where r: "run_one act (i, t) (?L1, w) = (L2, w2)"
        by (cases "run_one act (i, t) (?L1, w)")
      have q: "el_task_queue L = (i, t) # q" using Cons x by simp
      have inv: "el_inv (?L1\<lparr>el_running := i # el_running ?L1\<rparr>)"
        using pop_inv [OF Suc.prems(2) q] by simp
      have "I [] L2 w2"
        by (rule run_one_I [OF I_pop [OF Suc.prems(1,2) q] inv r])
      moreover have "el_inv L2"
        using run_one_inv [OF inv, where t = t and w = w] by (simp add: r)
      ultimately show ?thesis
        using Suc.IH [of L2 w2] Suc.prems(3) False r by (simp add: q)
    qed
  qed
qed

lemma run_task_queue_I:
  assumes "I [] L w" and "el_inv L" and "run_task_queue act (L, w) = (L', w')"
  shows "I [] L' w'"
  using assms(3) unfolding run_task_queue_def Let_def fst_conv snd_conv
  by (rule run_task_loop_I [rotated 2])
    (use assms(1,2) in \<open>auto simp: same_tasks_def el_inv_defs elim!: I_tasks\<close>)

lemma run_deferred_task_I:
  assumes "I [] L w" and "el_inv L" and "run_deferred_task act i (L, w) = (L', w')"
  shows "I [] L' w'"
proof (cases "map_of (el_deferred_task_queue L) i")
  case None
  with assms show ?thesis by (simp add: run_deferred_task_def)
next
  case (Some t)
  then show ?thesis
    using assms deferred_pop_inv [OF assms(2) Some] I_pop_deferred [OF assms(1,2) Some]
    by (intro run_one_I) (auto simp: run_deferred_task_def)
qed

end

subsection \<open>Cancelling\<close>

lemma erase_id_filter: "distinct (map fst xs) \<Longrightarrow> erase_id i xs = filter (\<lambda>x. fst x \<noteq> i) xs"
proof (induction xs)
  case (Cons x xs)
  have "i \<notin> fst ` set xs \<Longrightarrow> filter (\<lambda>x. fst x \<noteq> i) xs = xs" by (rule filter_True) force
  with Cons show ?case by auto
qed simp

lemma all_ids_distinct:
  assumes "el_inv L"
  shows "distinct (queue_ids L @ deferred_ids L @ el_running L @ el_finalized L)"
proof -
  have "mset (queue_ids L @ deferred_ids L @ el_running L @ el_finalized L) = mset (map int [0..<nat (el_next_task_id L)])"
    using assms by (simp add: el_inv_def issued_ids_def ac_simps)
  then show ?thesis using mset_eq_imp_distinct_iff by (fastforce simp: distinct_map)
qed

text \<open>
  Cancelling a task removes it, and no other, from wherever it waits and runs its finalizer; cancelling
  an identifier that is not waiting changes nothing. Either way the task will not run any more, and no
  finalizer runs twice.
\<close>

theorem cancel_removes_task:
  assumes "el_inv L" and "L' = vpn_event_loop_cancel i L"
  shows "el_task_queue L' = filter (\<lambda>x. fst x \<noteq> i) (el_task_queue L) \<and>
    el_deferred_task_queue L' = filter (\<lambda>x. fst x \<noteq> i) (el_deferred_task_queue L) \<and>
    el_finalized L' = el_finalized L @ (if i \<in> set (queue_ids L) \<union> set (deferred_ids L) then [i] else []) \<and>
    distinct (el_finalized L') \<and> el_ran L' = el_ran L"
proof -
  note d = all_ids_distinct [OF assms(1)]
  have e: "erase_id i (el_task_queue L) = filter (\<lambda>x. fst x \<noteq> i) (el_task_queue L)"
    "erase_id i (el_deferred_task_queue L) = filter (\<lambda>x. fst x \<noteq> i) (el_deferred_task_queue L)"
    using d by (simp_all add: erase_id_filter queue_ids_def deferred_ids_def)
  have n: "i \<notin> fst ` set xs \<Longrightarrow> filter (\<lambda>x. fst x \<noteq> i) xs = xs" for xs :: "(task_id \<times> 'a) list"
    by (rule filter_True) force
  have "i \<in> fst ` set (el_task_queue L) \<Longrightarrow> i \<notin> fst ` set (el_deferred_task_queue L)"
    using d by (auto simp: queue_ids_def deferred_ids_def)
  moreover have "el_inv L'" using el_inv_cancel [OF assms(1)] by (simp add: assms(2))
  then have "distinct (el_finalized L')" by (auto dest: all_ids_distinct)
  ultimately show ?thesis
    by (auto simp: assms(2) el_op_defs e n queue_ids_def deferred_ids_def)
qed

definition sample_loop :: "nat event_loop" where
  "sample_loop = snd (vpn_event_loop_schedule 30 (snd (vpn_event_loop_submit 20 (snd (vpn_event_loop_submit 10 vpn_event_loop_create)))))"

theorem cancel_removes_task_witness:
  "el_task_queue (vpn_event_loop_cancel 0 sample_loop) = [(1, 20)] \<and> el_finalized (vpn_event_loop_cancel 0 sample_loop) = [0]"
proof -
  have "el_inv sample_loop"
    unfolding sample_loop_def
    by (intro el_inv_schedule el_inv_submit) (simp add: vpn_event_loop_create_def el_inv_defs issued_ids_def)
  moreover have "el_task_queue sample_loop = [(0, 10), (1, 20)]" "el_finalized sample_loop = []" by code_simp+
  ultimately show ?thesis
    using cancel_removes_task [OF _ refl, of sample_loop 0] by (simp add: queue_ids_def)
qed

end
