(* ===== verification/Fsm_Engine.thy ===== *)
theory Fsm_Engine
  imports TT_Prelude
begin

section \<open>The table-driven state machine (\<^verbatim>\<open>common/src/fsm.cpp\<close>)\<close>

text \<open>
  The class \<^verbatim>\<open>Fsm\<close>: a transition table scanned top-down, guards and actions given as
  function pointers, a re-entrancy flag, and the debug-build table validator. The user context is
  part of the machine because an action may call back into the machine it belongs to
  (\<^verbatim>\<open>get_state\<close>, \<^verbatim>\<open>perform_transition\<close>). A failed \<^verbatim>\<open>assert\<close> is
  recorded in the ghost field \<open>m_asserted\<close>; control flow continues as in a release build.
\<close>

subsection \<open>Data\<close>

type_synonym fsm_state = u32
type_synonym fsm_event = int

definition ANY_SOURCE_STATE :: fsm_state where
  "ANY_SOURCE_STATE = 0xFFFFFFFF"

definition SAME_TARGET_STATE :: fsm_state where
  "SAME_TARGET_STATE = 0xFFFFFFFE"

record 'c fsm =
  m_initial_state :: fsm_state
  m_current_state :: fsm_state
  m_recursive :: bool
  m_ctx :: 'c
  m_asserted :: bool

text \<open>
  A null \<^verbatim>\<open>condition\<close> is both \<^verbatim>\<open>Fsm::ANYWAY\<close> and
  \<^verbatim>\<open>Fsm::OTHERWISE\<close>; a null action is \<^verbatim>\<open>Fsm::DO_NOTHING\<close>.
\<close>

record ('c, 'd) fsm_transition_entry =
  src_state :: fsm_state
  event :: fsm_event
  condition :: "('c fsm \<Rightarrow> 'd \<Rightarrow> bool) option"
  before_transition :: "('d \<Rightarrow> 'c fsm \<Rightarrow> 'c fsm) option"
  target_state :: fsm_state
  after_transition :: "('d \<Rightarrow> 'c fsm \<Rightarrow> 'c fsm) option"

type_synonym ('c, 'd) fsm_transition_table = "('c, 'd) fsm_transition_entry list"

subsection \<open>Operations\<close>

definition run_action :: "('d \<Rightarrow> 'c fsm \<Rightarrow> 'c fsm) option \<Rightarrow> 'd \<Rightarrow> 'c fsm \<Rightarrow> 'c fsm" where
  "run_action a d m = (case a of None \<Rightarrow> m | Some f \<Rightarrow> f d m)"

definition fire_entry :: "('c, 'd) fsm_transition_entry \<Rightarrow> 'd \<Rightarrow> 'c fsm \<Rightarrow> 'c fsm" where
  "fire_entry e d m =
     (let m1 = run_action (before_transition e) d m;
          m2 = (if target_state e \<noteq> SAME_TARGET_STATE
                then m1\<lparr>m_current_state := target_state e\<rparr> else m1);
          m3 = m2\<lparr>m_recursive := False\<rparr>
      in run_action (after_transition e) d m3)"

fun scan_table :: "('c, 'd) fsm_transition_table \<Rightarrow> fsm_event \<Rightarrow> 'd \<Rightarrow> 'c fsm \<Rightarrow> 'c fsm" where
  "scan_table [] ev d m = m"
| "scan_table (e # es) ev d m =
     (if m_current_state m \<noteq> src_state e \<and> src_state e \<noteq> ANY_SOURCE_STATE
      then scan_table es ev d m
      else if ev \<noteq> event e then scan_table es ev d m
      else if (case condition e of None \<Rightarrow> False | Some c \<Rightarrow> \<not> c m d) then scan_table es ev d m
      else fire_entry e d m)"

definition perform_transition ::
  "('c, 'd) fsm_transition_table \<Rightarrow> fsm_event \<Rightarrow> 'd \<Rightarrow> 'c fsm \<Rightarrow> 'c fsm" where
  "perform_transition table ev d m =
     (if m_recursive m then m\<lparr>m_asserted := True\<rparr>
      else (scan_table table ev d (m\<lparr>m_recursive := True\<rparr>))\<lparr>m_recursive := False\<rparr>)"

definition get_state :: "'c fsm \<Rightarrow> fsm_state" where
  "get_state m = m_current_state m"

definition fsm_reset :: "'c fsm \<Rightarrow> 'c fsm" where
  "fsm_reset m = m\<lparr>m_current_state := m_initial_state m, m_recursive := False\<rparr>"

text \<open>
  The debug-build validator: the hash map from \<^verbatim>\<open>(src_state, event)\<close> to
  \<^verbatim>\<open>EntryValidationInfo\<close> is an association list, \<open>True\<close> meaning closed;
  \<^verbatim>\<open>operator[]\<close> default-constructs an open record.
\<close>

fun validate_loop ::
  "('c, 'd) fsm_transition_table \<Rightarrow> ((fsm_state \<times> fsm_event) \<times> bool) list \<Rightarrow> bool" where
  "validate_loop [] seen = True"
| "validate_loop (e # es) seen =
     (if src_state e = SAME_TARGET_STATE then False
      else if target_state e = ANY_SOURCE_STATE then False
      else if (case map_of seen (src_state e, event e) of None \<Rightarrow> False | Some closed \<Rightarrow> closed)
      then False
      else validate_loop es (AList.update (src_state e, event e) (condition e = None) seen))"

definition validate_transition_table :: "('c, 'd) fsm_transition_table \<Rightarrow> bool" where
  "validate_transition_table table = validate_loop table []"

text \<open>The constructor aborts on an invalid table: \<open>None\<close>.\<close>

definition make_fsm ::
  "fsm_state \<Rightarrow> ('c, 'd) fsm_transition_table \<Rightarrow> 'c \<Rightarrow> 'c fsm option" where
  "make_fsm initial table ctx =
     (if \<not> validate_transition_table table then None
      else Some \<lparr>m_initial_state = initial, m_current_state = initial, m_recursive = False,
                 m_ctx = ctx, m_asserted = False\<rparr>)"

subsection \<open>First-match semantics\<close>

definition entry_enabled ::
  "('c, 'd) fsm_transition_entry \<Rightarrow> fsm_event \<Rightarrow> 'd \<Rightarrow> 'c fsm \<Rightarrow> bool" where
  "entry_enabled e ev d m \<longleftrightarrow>
     (src_state e = m_current_state m \<or> src_state e = ANY_SOURCE_STATE) \<and> event e = ev \<and>
     (case condition e of None \<Rightarrow> True | Some c \<Rightarrow> c m d)"

lemma scan_table_Cons:
  "scan_table (e # es) ev d m = (if entry_enabled e ev d m then fire_entry e d m else scan_table es ev d m)"
  by (auto simp: entry_enabled_def split: option.splits)

lemma scan_table_find:
  "scan_table table ev d m =
     (case find (\<lambda>e. entry_enabled e ev d m) table of None \<Rightarrow> m | Some e \<Rightarrow> fire_entry e d m)"
  by (induction table) (simp_all add: scan_table_Cons del: scan_table.simps(2))

lemma run_action_simps [simp]:
  "run_action None d m = m"
  "run_action (Some f) d m = f d m"
  by (simp_all add: run_action_def)

lemma recursive_cleared [simp]: "\<not> m_recursive m \<Longrightarrow> m\<lparr>m_recursive := False\<rparr> = m"
  by (cases m) simp

lemma perform_transition_recursive:
  "m_recursive m \<Longrightarrow> perform_transition table ev d m = m\<lparr>m_asserted := True\<rparr>"
  by (simp add: perform_transition_def)

lemma perform_transition_disabled:
  assumes "\<not> m_recursive m" and "\<And>e. e \<in> set table \<Longrightarrow> \<not> entry_enabled e ev d (m\<lparr>m_recursive := True\<rparr>)"
  shows "perform_transition table ev d m = m"
proof -
  have "find (\<lambda>e. entry_enabled e ev d (m\<lparr>m_recursive := True\<rparr>)) table = None"
    using assms(2) by (simp add: find_None_iff)
  with assms(1) show ?thesis
    by (simp add: perform_transition_def scan_table_find)
qed

subsection \<open>The validator\<close>

definition entry_well_formed :: "('c, 'd) fsm_transition_entry \<Rightarrow> bool" where
  "entry_well_formed e \<longleftrightarrow> src_state e \<noteq> SAME_TARGET_STATE \<and> target_state e \<noteq> ANY_SOURCE_STATE"

definition not_shadowing ::
  "('c, 'd) fsm_transition_entry \<Rightarrow> ('c, 'd) fsm_transition_entry \<Rightarrow> bool" where
  "not_shadowing e f \<longleftrightarrow>
     src_state e = src_state f \<and> event e = event f \<longrightarrow> condition e \<noteq> None"

lemma validate_loop_iff:
  "validate_loop table seen \<longleftrightarrow>
     list_all entry_well_formed table \<and>
     list_all (\<lambda>e. map_of seen (src_state e, event e) \<noteq> Some True) table \<and>
     sorted_wrt not_shadowing table"
proof (induction table arbitrary: seen)
  case Nil
  then show ?case by simp
next
  case (Cons e es)
  have upd: "map_of (AList.update (src_state e, event e) b seen) (src_state f, event f) \<noteq> Some True \<longleftrightarrow>
      (if src_state e = src_state f \<and> event e = event f then \<not> b
       else map_of seen (src_state f, event f) \<noteq> Some True)" for b f
    by (auto simp: alist_simps)
  show ?case
    by (cases "map_of seen (src_state e, event e)")
      (auto simp: Cons.IH upd entry_well_formed_def not_shadowing_def list_all_iff)
qed

subsection \<open>Interface: a contract for a transition table\<close>

text \<open>
  What a client of the engine provides: a table, a precondition for each event and a postcondition
  that the first enabled entry establishes, and that holds already when no entry is enabled. What it
  gets: \<^verbatim>\<open>perform_transition\<close> takes the one to the other.
\<close>

locale fsm_table_contract =
  fixes table :: "('c, 'd) fsm_transition_table"
    and pre :: "fsm_event \<Rightarrow> 'd \<Rightarrow> 'c fsm \<Rightarrow> bool"
    and post :: "'c fsm \<Rightarrow> 'c fsm \<Rightarrow> bool"
  assumes not_recursive: "pre ev d m \<Longrightarrow> \<not> m_recursive m"
    and match_establishes: "pre ev d m
      \<Longrightarrow> find (\<lambda>e. entry_enabled e ev d (m\<lparr>m_recursive := True\<rparr>)) table = Some e
      \<Longrightarrow> post m ((fire_entry e d (m\<lparr>m_recursive := True\<rparr>))\<lparr>m_recursive := False\<rparr>)"
    and idle_establishes: "pre ev d m
      \<Longrightarrow> find (\<lambda>e. entry_enabled e ev d (m\<lparr>m_recursive := True\<rparr>)) table = None
      \<Longrightarrow> post m m"
begin

lemma transition_establishes:
  assumes "pre ev d m"
  shows "post m (perform_transition table ev d m)"
proof (cases "find (\<lambda>e. entry_enabled e ev d (m\<lparr>m_recursive := True\<rparr>)) table")
  case None
  with assms not_recursive idle_establishes show ?thesis
    by (simp add: perform_transition_def scan_table_find)
next
  case (Some e)
  with assms not_recursive show ?thesis
    by (simp add: perform_transition_def scan_table_find match_establishes)
qed

end

text \<open>
  The contract most clients use: a relation between machines that every action of the table
  establishes and that composes. It says nothing about the engine's own fields.
\<close>

locale fsm_relation =
  fixes table :: "('c, 'd) fsm_transition_table"
    and rel :: "'c fsm \<Rightarrow> 'c fsm \<Rightarrow> bool"
  assumes rel_trans: "rel m1 m2 \<Longrightarrow> rel m2 m3 \<Longrightarrow> rel m1 m3"
    and rel_state: "rel m (m\<lparr>m_current_state := s\<rparr>)"
    and rel_flag: "rel m (m\<lparr>m_recursive := b\<rparr>)"
    and rel_action: "e \<in> set table \<Longrightarrow> before_transition e = Some a \<or> after_transition e = Some a \<Longrightarrow> rel m (a d m)"
begin

lemma rel_refl: "rel m m"
  using rel_flag [of m "m_recursive m"] by simp

lemma rel_run_action:
  "e \<in> set table \<Longrightarrow> a = before_transition e \<or> a = after_transition e \<Longrightarrow> rel m (run_action a d m)"
  by (cases a) (auto intro: rel_refl rel_action)

lemma rel_fire_entry:
  assumes "e \<in> set table"
  shows "rel m (fire_entry e d m)"
proof -
  let ?m1 = "run_action (before_transition e) d m"
  have "rel m ?m1" using assms by (simp add: rel_run_action)
  moreover have "rel ?m1 (if target_state e \<noteq> SAME_TARGET_STATE
      then ?m1\<lparr>m_current_state := target_state e\<rparr> else ?m1)" (is "rel _ ?m2")
    by (simp add: rel_state rel_refl)
  moreover have "rel ?m2 (run_action (after_transition e) d (?m2\<lparr>m_recursive := False\<rparr>))"
    by (rule rel_trans [OF rel_flag rel_run_action [OF assms]]) simp
  ultimately show ?thesis
    unfolding fire_entry_def Let_def by (blast intro: rel_trans)
qed

end

sublocale fsm_relation \<subseteq> fsm_table_contract table "\<lambda>ev d m. \<not> m_recursive m" rel
proof unfold_locales
  fix ev d m e
  assume "find (\<lambda>e. entry_enabled e ev d (m\<lparr>m_recursive := True\<rparr>)) table = Some e"
  then have "e \<in> set table" by (auto simp: find_Some_iff)
  then show "rel m ((fire_entry e d (m\<lparr>m_recursive := True\<rparr>))\<lparr>m_recursive := False\<rparr>)"
    by (blast intro: rel_trans rel_flag rel_fire_entry)
qed (auto intro: rel_refl)

subsection \<open>Correctness\<close>

text \<open>
  (C33) The engine takes the first entry of the table, in order, whose source state, event and guard match,
  and none if there is none; an event raised while another is being processed is refused and leaves
  everything but the failed assertion as it was.
\<close>

theorem perform_transition_first_match:
  "perform_transition table ev d m =
     (if m_recursive m then m\<lparr>m_asserted := True\<rparr>
      else case find (\<lambda>e. (src_state e = m_current_state m \<or> src_state e = ANY_SOURCE_STATE) \<and> event e = ev \<and>
                   (\<forall>c. condition e = Some c \<longrightarrow> c (m\<lparr>m_recursive := True\<rparr>) d)) table of
             None \<Rightarrow> m
           | Some e \<Rightarrow> (fire_entry e d (m\<lparr>m_recursive := True\<rparr>))\<lparr>m_recursive := False\<rparr>)"
proof -
  have "entry_enabled e ev d (m\<lparr>m_recursive := True\<rparr>) \<longleftrightarrow>
      (src_state e = m_current_state m \<or> src_state e = ANY_SOURCE_STATE) \<and> event e = ev \<and>
      (\<forall>c. condition e = Some c \<longrightarrow> c (m\<lparr>m_recursive := True\<rparr>) d)" for e :: "('a, 'b) fsm_transition_entry"
    by (auto simp: entry_enabled_def split: option.splits)
  then show ?thesis
    by (simp add: perform_transition_def scan_table_find split: option.splits)
qed

definition sample_table :: "(nat, unit) fsm_transition_table" where
  "sample_table =
     [\<lparr>src_state = 0, event = 5, condition = Some (\<lambda>m d. m_ctx m = 9), before_transition = None,
       target_state = 1, after_transition = None\<rparr>,
      \<lparr>src_state = 0, event = 5, condition = None, before_transition = None,
       target_state = 2, after_transition = None\<rparr>]"

definition sample_fsm :: "nat fsm" where
  "sample_fsm = \<lparr>m_initial_state = 0, m_current_state = 0, m_recursive = False, m_ctx = 9, m_asserted = False\<rparr>"

theorem perform_transition_first_match_witness:
  "m_current_state (perform_transition sample_table 5 () sample_fsm) = 1"
  using perform_transition_first_match [of sample_table 5 "()" sample_fsm]
  by (simp add: sample_table_def sample_fsm_def fire_entry_def SAME_TARGET_STATE_def)

text \<open>
  The validator accepts exactly the tables whose entries use the two wildcard states on their proper
  side only and in which no entry stands behind an unconditional one for the same state and event, so
  every entry of a validated table can fire.
\<close>

theorem validate_transition_table_iff:
  "validate_transition_table table \<longleftrightarrow>
     (\<forall>e\<in>set table. src_state e \<noteq> SAME_TARGET_STATE \<and> target_state e \<noteq> ANY_SOURCE_STATE) \<and>
     (\<forall>j<length table. \<forall>i<j. src_state (table ! i) = src_state (table ! j) \<and> event (table ! i) = event (table ! j)
        \<longrightarrow> condition (table ! i) \<noteq> None)"
  by (simp add: validate_transition_table_def validate_loop_iff entry_well_formed_def not_shadowing_def
      sorted_wrt_iff_nth_less list_all_iff) blast

theorem validate_transition_table_iff_witness:
  "validate_transition_table sample_table \<and> \<not> validate_transition_table (rev sample_table)"
  using validate_transition_table_iff [of sample_table] validate_transition_table_iff [of "rev sample_table"]
  by (simp add: sample_table_def SAME_TARGET_STATE_def ANY_SOURCE_STATE_def less_Suc_eq all_conj_distrib)

end
