(* ===== verification/Vpn_State.thy ===== *)
theory Vpn_State
  imports Complex_Main Vpn_Utils Event_Loop Fsm_Engine
begin

section \<open>State and member functions of the VPN session (\<^verbatim>\<open>core/src/vpn_manager.{h,cpp}\<close>)\<close>

text \<open>
  The struct \<^verbatim>\<open>Vpn\<close> and its member functions. The session is the context of a state
  machine (\<open>vpn fsm\<close>) and owns an event loop whose tasks are the closures the code submits, one
  constructor per closure. Calls that leave the component (into \<^verbatim>\<open>VpnClient\<close>, the location
  pinger and the application's handler) are appended to \<open>v_out\<close>; what such a call returns and the
  clock are read from \<open>v_env\<close>, an arbitrary function of the number of calls made so far, which every
  external event may replace. Undefined behaviour
  the code could run into (reading an empty \<^verbatim>\<open>std::optional\<close>, \<^verbatim>\<open>strcmp\<close> of a
  null pointer, reading a \<^verbatim>\<open>VpnNetworkState\<close> as a \<^verbatim>\<open>VpnError\<close>) sets
  the ghost flag \<open>v_ub\<close>. The ghost \<open>v_ping_barrier\<close> is present while a started pinger has not reported:
  it holds the identifier the loop's next task had at the start. Time points are nanoseconds,
  durations milliseconds.
\<close>

subsection \<open>Enumerations\<close>

abbreviation (input) VPN_SS_DISCONNECTED :: fsm_state where "VPN_SS_DISCONNECTED \<equiv> 0"
abbreviation (input) VPN_SS_CONNECTING :: fsm_state where "VPN_SS_CONNECTING \<equiv> 1"
abbreviation (input) VPN_SS_CONNECTED :: fsm_state where "VPN_SS_CONNECTED \<equiv> 2"
abbreviation (input) VPN_SS_WAITING_RECOVERY :: fsm_state where "VPN_SS_WAITING_RECOVERY \<equiv> 3"
abbreviation (input) VPN_SS_RECOVERING :: fsm_state where "VPN_SS_RECOVERING \<equiv> 4"
abbreviation (input) VPN_SS_WAITING_FOR_NETWORK :: fsm_state where "VPN_SS_WAITING_FOR_NETWORK \<equiv> 5"

datatype vpn_network_state = VPN_NS_CONNECTED | VPN_NS_NOT_CONNECTED

datatype vpn_connect_action =
  VPN_CA_DEFAULT | VPN_CA_FORCE_BYPASS | VPN_CA_FORCE_REDIRECT | VPN_CA_REJECT

datatype client_connection_state = CLIS_DISCONNECTED | CLIS_CONNECTING | CLIS_CONNECTED

subsection \<open>Values\<close>

definition no_error :: vpn_error where
  "no_error = VpnError VPN_EC_NOERROR None"

record vpn_relay =
  rl_address :: socket_address

record selected_endpoint =
  sel_endpoint :: vpn_endpoint
  sel_relay :: "vpn_relay option"

record connect_request_result =
  crr_id :: u64
  crr_action :: "vpn_connect_action option"
  crr_appname :: string
  crr_uid :: int

datatype connect_retry_info = ConnectSeveralAttempts u64 | ConnectFallIntoRecovery

record vpn_upstream_config =
  cfg_location_id :: string
  cfg_endpoints :: "vpn_endpoint list"
  cfg_location_ping_timeout_ms :: u32
  cfg_timeout_ms :: u32
  cfg_health_check_timeout_ms :: u32
  cfg_username :: "string option"
  cfg_password :: "string option"
  cfg_backoff_rate :: rat
  cfg_location_update_period_ms :: u32
  cfg_recovery_attempts :: u32

record recovery_time =
  rt_start_ts :: int
  rt_attempt_start_ts :: int
  rt_between_attempts :: int
  rt_to_next :: int

record recovery_info =
  rec_time :: recovery_time
  rec_attempts :: u32
  rec_task :: auto_task_id

definition VPN_DEFAULT_INITIAL_RECOVERY_INTERVAL_MS :: int where
  "VPN_DEFAULT_INITIAL_RECOVERY_INTERVAL_MS = 1000"

definition recovery_time_init :: recovery_time where
  "recovery_time_init =
     \<lparr>rt_start_ts = 0, rt_attempt_start_ts = 0,
      rt_between_attempts = VPN_DEFAULT_INITIAL_RECOVERY_INTERVAL_MS, rt_to_next = 0\<rparr>"

definition recovery_info_init :: recovery_info where
  "recovery_info_init = \<lparr>rec_time = recovery_time_init, rec_attempts = 0, rec_task = None\<rparr>"

subsection \<open>Effects, tasks and the session record\<close>

datatype state_info =
    WaitingRecoveryInfo vpn_error u32
  | ConnectedInfo vpn_endpoint "vpn_relay option"
  | ErrorInfo vpn_error

datatype vpn_effect =
    PingerStart "vpn_endpoint list" u32 u32 "vpn_relay option"
  | PingerStop
  | ClientConnect vpn_endpoint bool "int option"
  | ClientDisconnect
  | ClientFinalizeDisconnect
  | ClientHealthCheck
  | ClientAdoptConnection "bool option"
  | ClientListen
  | ClientUpdateBypassIp
  | ClientOnNetworkChange
  | ClientUpdateParameters
  | ClientUpdateExclusions string
  | ClientResetConnections int
  | CompleteRequest u64 "vpn_connect_action option"
  | RejectRequest u64
  | ResetConnection u64
  | StateChanged fsm_state state_info
  | ConnectionStats "vpn_error option"
  | ClientHandleSleep
  | ClientHandleWake
  | ClientProcessPackets nat

datatype vpn_task =
    FailedRecoveryTask
  | DoRecoveryTask
  | ClientDisconnectedTask
  | RetryConnectTask
  | ListenFailedTask vpn_error
  | ConnectTask vpn_upstream_config connect_retry_info
  | ForceReconnectTask
  | ForceDisconnectTask bool
  | StopTask
  | CompleteRequestTask connect_request_result
  | UpdateExclusionsTask string
  | ResetConnectionsTask int
  | NetworkChangeTask vpn_network_state
  | ConnectionStatsTask
  | AbandonEndpointTask vpn_endpoint
  | SleepTask
  | CompletionTask
  | WakeTask
  | ProcessPacketsTask nat
  | ListenTask

record vpn_env =
  env_now :: "nat \<Rightarrow> int"
  env_connect_result :: "nat \<Rightarrow> vpn_error"
  env_listen_result :: "nat \<Rightarrow> vpn_error"
  env_quic_connector :: "nat \<Rightarrow> bool"
  env_should_complete_immediately :: "u64 \<Rightarrow> bool"
  env_finalize_connect_action :: "connect_request_result \<Rightarrow> vpn_connect_action option"

record vpn =
  v_pending_error :: "vpn_error option"
  v_loop :: "vpn_task event_loop"
  v_ev_loop_alive :: bool
  v_recovery :: recovery_info
  v_upstream_config :: vpn_upstream_config
  v_selected_endpoint :: "selected_endpoint option"
  v_network_changed_before_recovery :: bool
  v_connected_once :: bool
  v_pinger :: bool
  v_ping_barrier :: "task_id option"
  v_ping_failure_induces_location_unavailable :: bool
  v_client_state :: client_connection_state
  v_connect_retry_info :: connect_retry_info
  v_bypassed_connection_ids :: "u64 list"
  v_postponed_requests :: "connect_request_result list"
  v_postponement_window_timer :: bool
  v_executor_running :: bool
  v_update_exclusions_task :: auto_task_id
  v_kill_switch_on :: bool
  v_env :: vpn_env
  v_out :: "vpn_effect list"
  v_ub :: bool

type_synonym vpn_machine = "vpn fsm"

definition on_ctx :: "(vpn \<Rightarrow> vpn) \<Rightarrow> vpn_machine \<Rightarrow> vpn_machine" where
  "on_ctx f m = m\<lparr>m_ctx := f (m_ctx m)\<rparr>"

definition fsm_assert :: "bool \<Rightarrow> vpn_machine \<Rightarrow> vpn_machine" where
  "fsm_assert b m = (if b then m else m\<lparr>m_asserted := True\<rparr>)"

definition emit :: "vpn_effect \<Rightarrow> vpn \<Rightarrow> vpn" where
  "emit e v = v\<lparr>v_out := v_out v @ [e]\<rparr>"

text \<open>The clock and the results of calls, at the present point of the history of calls.\<close>

definition vpn_now :: "vpn \<Rightarrow> int" where
  "vpn_now v = env_now (v_env v) (length (v_out v))"

definition flag_ub :: "bool \<Rightarrow> vpn \<Rightarrow> vpn" where
  "flag_ub b v = (if b then v\<lparr>v_ub := True\<rparr> else v)"

subsection \<open>Member functions of \<^verbatim>\<open>Vpn\<close>\<close>

definition DEFAULT_LOCATION_PING_TIMEOUT_MS :: u32 where
  "DEFAULT_LOCATION_PING_TIMEOUT_MS = 5000"

definition VPN_DEFAULT_ENDPOINT_UPSTREAM_TIMEOUT_MS :: u32 where
  "VPN_DEFAULT_ENDPOINT_UPSTREAM_TIMEOUT_MS = 30000"

definition VPN_DEFAULT_HEALTH_CHECK_TIMEOUT_MS :: u32 where
  "VPN_DEFAULT_HEALTH_CHECK_TIMEOUT_MS = 7000"

definition VPN_DEFAULT_RECOVERY_LOCATION_UPDATE_PERIOD_MS :: u32 where
  "VPN_DEFAULT_RECOVERY_LOCATION_UPDATE_PERIOD_MS = 10000"

definition VPN_DEFAULT_RECOVERY_BACKOFF_RATE :: rat where
  "VPN_DEFAULT_RECOVERY_BACKOFF_RATE = 10905190 / 8388608"

definition VPN_DEFAULT_RECOVERY_ATTEMPTS :: u32 where
  "VPN_DEFAULT_RECOVERY_ATTEMPTS = 30"

definition VPN_DEFAULT_CONNECT_ATTEMPTS_NUM :: u64 where
  "VPN_DEFAULT_CONNECT_ATTEMPTS_NUM = 5"

definition default_if_zero :: "u32 \<Rightarrow> u32 \<Rightarrow> u32" where
  "default_if_zero x d = (if x = 0 then d else x)"

definition normalise_upstream_config :: "vpn_upstream_config \<Rightarrow> vpn_upstream_config" where
  "normalise_upstream_config c =
     (let c1 = c\<lparr>cfg_location_ping_timeout_ms :=
                   default_if_zero (cfg_location_ping_timeout_ms c) DEFAULT_LOCATION_PING_TIMEOUT_MS\<rparr>;
          c2 = c1\<lparr>cfg_timeout_ms :=
                   default_if_zero (cfg_timeout_ms c1) VPN_DEFAULT_ENDPOINT_UPSTREAM_TIMEOUT_MS\<rparr>;
          c3 = c2\<lparr>cfg_health_check_timeout_ms :=
                   default_if_zero (cfg_health_check_timeout_ms c2) VPN_DEFAULT_HEALTH_CHECK_TIMEOUT_MS\<rparr>;
          c4 = c3\<lparr>cfg_health_check_timeout_ms :=
                   min (cfg_health_check_timeout_ms c3) (cfg_timeout_ms c3)\<rparr>;
          c5 = c4\<lparr>cfg_backoff_rate :=
                   (if cfg_backoff_rate c4 < 1 then VPN_DEFAULT_RECOVERY_BACKOFF_RATE
                    else cfg_backoff_rate c4)\<rparr>;
          c6 = c5\<lparr>cfg_location_update_period_ms :=
                   default_if_zero (cfg_location_update_period_ms c5)
                     VPN_DEFAULT_RECOVERY_LOCATION_UPDATE_PERIOD_MS\<rparr>
      in c6\<lparr>cfg_recovery_attempts :=
              default_if_zero (cfg_recovery_attempts c6) VPN_DEFAULT_RECOVERY_ATTEMPTS\<rparr>)"

definition update_upstream_config :: "vpn_upstream_config \<Rightarrow> vpn \<Rightarrow> vpn" where
  "update_upstream_config c v = v\<lparr>v_upstream_config := normalise_upstream_config c\<rparr>"

text \<open>
  \<^verbatim>\<open>make_client_upstream_config\<close>: the endpoint to connect to (with the relay's address when
  there is one) and whether HTTP/3 is used, which depends on the client still holding a QUIC
  connection handed over by the pinger; \<open>None\<close> is the exception of
  \<^verbatim>\<open>selected_endpoint.value()\<close>.
\<close>

definition make_client_upstream_config :: "vpn \<Rightarrow> (vpn_endpoint \<times> bool) option" where
  "make_client_upstream_config v =
     (case v_selected_endpoint v of
        None \<Rightarrow> None
      | Some s \<Rightarrow>
          Some (case sel_relay s of
                  None \<Rightarrow> sel_endpoint s
                | Some r \<Rightarrow> (sel_endpoint s)\<lparr>ep_address := rl_address r\<rparr>,
                env_quic_connector (v_env v) (length (v_out v))))"

definition disconnect_client :: "vpn \<Rightarrow> vpn" where
  "disconnect_client v =
     (case v_client_state v of
        CLIS_DISCONNECTED \<Rightarrow> v
      | _ \<Rightarrow> (emit ClientDisconnect v)\<lparr>v_client_state := CLIS_DISCONNECTED\<rparr>)"

definition stop_pinging :: "vpn \<Rightarrow> vpn" where
  "stop_pinging v =
     (let v1 = (if v_pinger v then (emit PingerStop v)\<lparr>v_pinger := False, v_ping_barrier := None\<rparr> else v)
      in v1\<lparr>v_ping_failure_induces_location_unavailable := False\<rparr>)"

definition vpn_disconnect :: "vpn \<Rightarrow> vpn" where
  "vpn_disconnect v = disconnect_client (stop_pinging v)"

definition vpn_submit :: "vpn_task \<Rightarrow> vpn \<Rightarrow> vpn" where
  "vpn_submit t v = v\<lparr>v_loop := snd (vpn_event_loop_submit t (v_loop v))\<rparr>"

fun complete_all :: "connect_request_result list \<Rightarrow> vpn \<Rightarrow> vpn" where
  "complete_all [] v = v"
| "complete_all (r # rs) v = complete_all rs (emit (CompleteRequest (crr_id r) (crr_action r)) v)"

definition complete_postponed_requests :: "vpn \<Rightarrow> vpn" where
  "complete_postponed_requests v = (complete_all (v_postponed_requests v) v)\<lparr>v_postponed_requests := []\<rparr>"

fun reset_all :: "u64 list \<Rightarrow> vpn \<Rightarrow> vpn" where
  "reset_all [] v = v"
| "reset_all (i # is) v = reset_all is (emit (ResetConnection i) v)"

definition reset_bypassed_connections :: "vpn \<Rightarrow> vpn" where
  "reset_bypassed_connections v =
     (reset_all (v_bypassed_connection_ids v) v)\<lparr>v_bypassed_connection_ids := []\<rparr>"

text \<open>\<^verbatim>\<open>vpn->recovery = {}\<close>: the moved-out task handle is destroyed, which cancels the task.\<close>

definition clear_recovery :: "vpn \<Rightarrow> vpn" where
  "clear_recovery v =
     v\<lparr>v_loop := auto_task_reset (rec_task (v_recovery v)) (v_loop v),
       v_recovery := recovery_info_init\<rparr>"

subsection \<open>Frames\<close>

lemmas vpn_member_defs =
  disconnect_client_def stop_pinging_def vpn_disconnect_def vpn_submit_def clear_recovery_def
  emit_def flag_ub_def update_upstream_config_def

lemma complete_all_out:
  "complete_all rs v = v\<lparr>v_out := v_out v @ map (\<lambda>r. CompleteRequest (crr_id r) (crr_action r)) rs\<rparr>"
  by (induction rs arbitrary: v) (simp_all add: emit_def)

lemma reset_all_out: "reset_all is v = v\<lparr>v_out := v_out v @ map ResetConnection is\<rparr>"
  by (induction "is" arbitrary: v) (simp_all add: emit_def)

end
