(* ===== verification/Vpn_Fsm.thy ===== *)
theory Vpn_Fsm
  imports Vpn_State
begin

section \<open>The session state machine (\<^verbatim>\<open>core/src/vpn_fsm.cpp\<close>)\<close>

text \<open>
  The guards, the actions and the transition table of the VPN session, one definition per function
  of the source. The \<^verbatim>\<open>void *data\<close> argument is the datatype \<open>vpn_arg\<close>, one constructor per
  type the callers pass.
\<close>

subsection \<open>Events and their arguments\<close>

abbreviation (input) CE_DO_CONNECT :: fsm_event where "CE_DO_CONNECT \<equiv> 0"
abbreviation (input) CE_RETRY_CONNECT :: fsm_event where "CE_RETRY_CONNECT \<equiv> 1"
abbreviation (input) CE_PING_READY :: fsm_event where "CE_PING_READY \<equiv> 2"
abbreviation (input) CE_PING_FAIL :: fsm_event where "CE_PING_FAIL \<equiv> 3"
abbreviation (input) CE_CLIENT_READY :: fsm_event where "CE_CLIENT_READY \<equiv> 4"
abbreviation (input) CE_CLIENT_DISCONNECTED :: fsm_event where "CE_CLIENT_DISCONNECTED \<equiv> 5"
abbreviation (input) CE_DO_RECOVERY :: fsm_event where "CE_DO_RECOVERY \<equiv> 6"
abbreviation (input) CE_SHUTDOWN :: fsm_event where "CE_SHUTDOWN \<equiv> 7"
abbreviation (input) CE_NETWORK_CHANGE :: fsm_event where "CE_NETWORK_CHANGE \<equiv> 8"
abbreviation (input) CE_START_LISTENING :: fsm_event where "CE_START_LISTENING \<equiv> 9"
abbreviation (input) CE_ABANDON_ENDPOINT :: fsm_event where "CE_ABANDON_ENDPOINT \<equiv> 10"
abbreviation (input) CE_COMPLETE_REQUEST :: fsm_event where "CE_COMPLETE_REQUEST \<equiv> 11"

datatype vpn_arg =
    NullArg
  | ErrorArg vpn_error
  | NetArg vpn_network_state
  | ListenArg
  | RequestArg connect_request_result

text \<open>
  \<^verbatim>\<open>(VpnError *) data\<close>. A \<^verbatim>\<open>VpnNetworkState\<close> read through that pointer gives
  its numeric value as the code.
\<close>

definition network_state_code :: "vpn_network_state \<Rightarrow> int" where
  "network_state_code s = (case s of VPN_NS_CONNECTED \<Rightarrow> 0 | VPN_NS_NOT_CONNECTED \<Rightarrow> 1)"

definition as_error :: "vpn_arg \<Rightarrow> vpn_error option" where
  "as_error d =
     (case d of
        ErrorArg e \<Rightarrow> Some e
      | NetArg s \<Rightarrow> Some (VpnError (network_state_code s) None)
      | _ \<Rightarrow> None)"

definition as_request :: "vpn_arg \<Rightarrow> connect_request_result option" where
  "as_request d = (case d of RequestArg r \<Rightarrow> Some r | _ \<Rightarrow> None)"

type_synonym vpn_guard = "vpn_machine \<Rightarrow> vpn_arg \<Rightarrow> bool"
type_synonym vpn_action = "vpn_arg \<Rightarrow> vpn_machine \<Rightarrow> vpn_machine"

subsection \<open>Recovery\<close>

text \<open>
  \<^verbatim>\<open>std::chrono::round\<close>: to nearest, ties to even. The product with the
  \<^verbatim>\<open>float\<close> back-off rate is taken exactly.
\<close>

definition chrono_round :: "rat \<Rightarrow> int" where
  "chrono_round x =
     (let t = \<lfloor>x\<rfloor>; d = x - of_int t
      in if d < 1 / 2 then t else if d > 1 / 2 then t + 1 else if even t then t else t + 1)"

definition ns_of_ms :: "int \<Rightarrow> int" where
  "ns_of_ms t = t * 1000000"

definition elapsed_since :: "int \<Rightarrow> int \<Rightarrow> int" where
  "elapsed_since now ts = max ((now - ts) div 1000000) 0"

text \<open>
  The parts of \<^verbatim>\<open>initiate_recovery\<close>: whether this is the first attempt, the delay to it,
  and the times stored for the next one.
\<close>

definition first_attempt :: "vpn \<Rightarrow> bool" where
  "first_attempt v \<longleftrightarrow> rt_start_ts (rec_time (v_recovery v)) = 0"

definition time_to_next :: "vpn \<Rightarrow> int" where
  "time_to_next v =
     (let t = rec_time (v_recovery v);
          elapsed = (if first_attempt v then 0 else elapsed_since (vpn_now v) (rt_attempt_start_ts t))
      in if rt_between_attempts t \<ge> elapsed then rt_between_attempts t - elapsed else 0)"

definition next_recovery_time :: "vpn \<Rightarrow> recovery_time" where
  "next_recovery_time v =
     (let cfg = v_upstream_config v;
          t0 = rec_time (v_recovery v);
          t1 = (if first_attempt v then t0\<lparr>rt_start_ts := vpn_now v\<rparr> else t0);
          t2 = t1\<lparr>rt_between_attempts :=
                  chrono_round (of_int (rt_between_attempts t1) * cfg_backoff_rate cfg)\<rparr>;
          t3 = (if vpn_now v + ns_of_ms (time_to_next v) - rt_start_ts t2
                     \<ge> ns_of_ms (uint (cfg_location_update_period_ms cfg))
                then recovery_time_init else t2)
      in t3\<lparr>rt_to_next := time_to_next v\<rparr>)"

definition initiate_recovery :: "vpn \<Rightarrow> vpn" where
  "initiate_recovery v =
     (if rec_attempts (v_recovery v) \<ge> cfg_recovery_attempts (v_upstream_config v)
      then vpn_submit FailedRecoveryTask v
      else
        let (i, L) = vpn_event_loop_schedule DoRecoveryTask (v_loop v)
        in v\<lparr>v_loop := auto_task_reset (rec_task (v_recovery v)) L,
             v_postponement_window_timer := first_attempt v \<or> v_postponement_window_timer v,
             v_recovery := \<lparr>rec_time = next_recovery_time v,
                            rec_attempts = rec_attempts (v_recovery v) + 1,
                            rec_task = make_auto_task_id i\<rparr>\<rparr>)"

subsection \<open>Guards\<close>

definition is_fatal_error_code :: "int \<Rightarrow> bool" where
  "is_fatal_error_code code \<longleftrightarrow>
     code = VPN_EC_AUTH_REQUIRED \<or> code = VPN_EC_LOCATION_UNAVAILABLE \<or>
     code = VPN_EC_CERTIFICATE_VERIFICATION_FAILED"

definition value_or_no_error :: "vpn_error option \<Rightarrow> vpn_error" where
  "value_or_no_error e = (case e of None \<Rightarrow> no_error | Some x \<Rightarrow> x)"

definition is_fatal_error :: vpn_guard where
  "is_fatal_error m d \<longleftrightarrow>
     (case as_error d of None \<Rightarrow> False | Some e \<Rightarrow> is_fatal_error_code (err_code e)) \<or>
     is_fatal_error_code (err_code (value_or_no_error (v_pending_error (m_ctx m))))"

definition need_to_ping_on_recovery :: vpn_guard where
  "need_to_ping_on_recovery m d \<longleftrightarrow>
     (let v = m_ctx m
      in v_selected_endpoint v = None \<or> v_network_changed_before_recovery v \<or>
         vpn_now v - rt_start_ts (rec_time (v_recovery v))
           \<ge> ns_of_ms (uint (cfg_location_update_period_ms (v_upstream_config v))))"

definition fall_into_recovery :: vpn_guard where
  "fall_into_recovery m d \<longleftrightarrow>
     (case v_connect_retry_info (m_ctx m) of ConnectFallIntoRecovery \<Rightarrow> True | _ \<Rightarrow> False)"

definition no_connect_attempts :: vpn_guard where
  "no_connect_attempts m d \<longleftrightarrow>
     (case v_connect_retry_info (m_ctx m) of ConnectSeveralAttempts n \<Rightarrow> n = 0 | _ \<Rightarrow> False)"

definition network_lost :: vpn_guard where
  "network_lost m d \<longleftrightarrow> (case d of NetArg s \<Rightarrow> s = VPN_NS_NOT_CONNECTED | _ \<Rightarrow> False)"

definition connected_once :: vpn_guard where
  "connected_once m d \<longleftrightarrow> v_connected_once (m_ctx m)"

definition can_complete :: vpn_guard where
  "can_complete m d \<longleftrightarrow>
     (case as_request d of
        None \<Rightarrow> False
      | Some r \<Rightarrow>
          crr_action r = Some VPN_CA_FORCE_BYPASS \<or>
          get_state m = VPN_SS_CONNECTED \<or> get_state m = VPN_SS_CONNECTING \<or>
          get_state m = VPN_SS_DISCONNECTED \<or> get_state m = VPN_SS_WAITING_FOR_NETWORK \<or>
          env_should_complete_immediately (v_env (m_ctx m)) (crr_id r))"

definition is_kill_switch_on :: vpn_guard where
  "is_kill_switch_on m d \<longleftrightarrow> v_kill_switch_on (m_ctx m)"

definition should_postpone :: vpn_guard where
  "should_postpone m d \<longleftrightarrow> v_postponement_window_timer (m_ctx m)"

subsection \<open>Actions\<close>

definition run_client_connect :: "int option \<Rightarrow> vpn \<Rightarrow> vpn" where
  "run_client_connect timeout v =
     (case make_client_upstream_config v of
        None \<Rightarrow> flag_ub True v
      | Some (ep, quic) \<Rightarrow>
          (let error = env_connect_result (v_env v) (length (v_out v));
               v1 = emit (ClientConnect ep quic timeout) v
           in if err_code error = VPN_EC_NOERROR
              then v1\<lparr>v_client_state := CLIS_CONNECTING, v_pending_error := None\<rparr>
              else vpn_submit ClientDisconnectedTask (v1\<lparr>v_pending_error := Some error\<rparr>)))"

definition relay_parallel :: "vpn \<Rightarrow> vpn_relay option" where
  "relay_parallel v =
     (case v_selected_endpoint v of
        None \<Rightarrow> None
      | Some s \<Rightarrow> if rt_start_ts (rec_time (v_recovery v)) \<noteq> 0 then sel_relay s else None)"

definition start_pinger :: "vpn \<Rightarrow> vpn" where
  "start_pinger v =
     (let cfg = v_upstream_config v;
          quic_max_idle_timeout = 2 * (cfg_timeout_ms cfg + cfg_health_check_timeout_ms cfg)
      in (emit (PingerStart (cfg_endpoints cfg) (cfg_location_ping_timeout_ms cfg)
                  quic_max_idle_timeout (relay_parallel v)) v)
           \<lparr>v_pinger := True, v_ping_barrier := Some (el_next_task_id (v_loop v))\<rparr>)"

definition run_ping :: vpn_action where
  "run_ping d = on_ctx (\<lambda>v.
     let v1 = (start_pinger (stop_pinging v))\<lparr>v_pending_error := None, v_selected_endpoint := None\<rparr>
     in case rec_task (v_recovery v1) of
          None \<Rightarrow> v1
        | Some i \<Rightarrow>
            v1\<lparr>v_loop := auto_task_reset (Some i) (v_loop v1),
               v_recovery := (v_recovery v1)\<lparr>rec_task := None,
                  rec_time := (rec_time (v_recovery v1))\<lparr>rt_attempt_start_ts := vpn_now v1\<rparr>\<rparr>\<rparr>)"

definition connect_client :: vpn_action where
  "connect_client d = on_ctx (run_client_connect None)"

definition complete_connect :: vpn_action where
  "complete_connect d m =
     (let v = m_ctx m;
          v1 = (case as_error d of
                  Some e \<Rightarrow>
                    (if v_pending_error v = None \<and> err_code e \<noteq> VPN_EC_NOERROR
                     then (vpn_disconnect v)\<lparr>v_pending_error := Some e\<rparr> else v)
                | None \<Rightarrow> v);
          m1 = m\<lparr>m_ctx := v1\<rparr>;
          v2 = (if v_pending_error v1 \<noteq> None \<and> \<not> is_fatal_error m1 d \<and> no_connect_attempts m1 NullArg
                then v1\<lparr>v_pending_error := Some (VpnError VPN_EC_INITIAL_CONNECT_FAILED
                          (Some ''Number of connection attempts exceeded''))\<rparr>
                else v1);
          v3 = clear_recovery v2;
          v4 = (if v_pending_error v3 = None then emit ClientHealthCheck v3 else v3)
      in m\<lparr>m_ctx := v4\<rparr>)"

definition fail_connect_with_no_attempts :: vpn_action where
  "fail_connect_with_no_attempts d =
     complete_connect (ErrorArg (VpnError VPN_EC_INITIAL_CONNECT_FAILED
       (Some ''Number of connection attempts exceeded'')))"

definition retry_connect :: vpn_action where
  "retry_connect d m =
     (let m1 = (case v_connect_retry_info (m_ctx m) of
                  ConnectSeveralAttempts n \<Rightarrow>
                    on_ctx (\<lambda>v. v\<lparr>v_connect_retry_info := ConnectSeveralAttempts (n - 1)\<rparr>) m
                | ConnectFallIntoRecovery \<Rightarrow> fsm_assert False m)
      in on_ctx (\<lambda>v. vpn_submit RetryConnectTask (vpn_disconnect v)) m1)"

text \<open>
  Copying the \<^verbatim>\<open>text\<close> of a network state taken for an error would read past the object.
\<close>

definition prepare_for_recovery :: vpn_action where
  "prepare_for_recovery d = on_ctx (\<lambda>v.
     let v1 = initiate_recovery (vpn_disconnect v)
     in case as_error d of
          Some e \<Rightarrow>
            (if v_pending_error v1 = None \<and> err_code e \<noteq> VPN_EC_NOERROR
             then flag_ub (case d of NetArg _ \<Rightarrow> True | _ \<Rightarrow> False) (v1\<lparr>v_pending_error := Some e\<rparr>)
             else v1)
        | None \<Rightarrow> v1)"

definition prepare_for_recovery_nc :: vpn_action where
  "prepare_for_recovery_nc d = prepare_for_recovery NullArg"

definition reconnect_client :: vpn_action where
  "reconnect_client d = on_ctx (\<lambda>v.
     let v1 = disconnect_client v
     in run_client_connect
          (Some (min (rt_between_attempts (rec_time (v_recovery v1)))
                     (uint (cfg_timeout_ms (v_upstream_config v1))))) v1)"

definition finalize_recovery :: vpn_action where
  "finalize_recovery d = on_ctx (\<lambda>v.
     let v1 = clear_recovery (emit ClientUpdateBypassIp v);
         v2 = (stop_pinging v1)\<lparr>v_postponement_window_timer := False\<rparr>
     in reset_bypassed_connections (complete_postponed_requests v2))"

definition do_disconnect :: vpn_action where
  "do_disconnect d = on_ctx (\<lambda>v. vpn_disconnect (clear_recovery v))"

definition start_listening :: vpn_action where
  "start_listening d = on_ctx (\<lambda>v.
     let error = env_listen_result (v_env v) (length (v_out v));
         v1 = emit ClientListen v
     in if err_code error \<noteq> VPN_EC_NOERROR then vpn_submit (ListenFailedTask error) v1 else v1)"

definition on_wrong_connect_state :: vpn_action where
  "on_wrong_connect_state d = on_ctx (\<lambda>v.
     (vpn_disconnect v)\<lparr>v_pending_error :=
        Some (VpnError VPN_EC_INVALID_STATE (Some ''Invalid state for connecting''))\<rparr>)"

definition on_wrong_listen_state :: vpn_action where
  "on_wrong_listen_state d m = m"

definition take_pending_error :: "vpn \<Rightarrow> vpn_error \<times> vpn" where
  "take_pending_error v = (value_or_no_error (v_pending_error v), v\<lparr>v_pending_error := None\<rparr>)"

definition raise_state :: vpn_action where
  "raise_state d m = on_ctx (\<lambda>v.
     let state = get_state m
     in if state = VPN_SS_WAITING_RECOVERY then
          (let (e, v1) = take_pending_error v
           in emit (StateChanged state
                      (WaitingRecoveryInfo e (word_of_int (rt_to_next (rec_time (v_recovery v1)))))) v1)
        else if state = VPN_SS_CONNECTED then
          (let v1 = v\<lparr>v_connected_once := True\<rparr>
           in case v_selected_endpoint v1 of
                None \<Rightarrow> flag_ub True v1
              | Some s \<Rightarrow> emit (StateChanged state (ConnectedInfo (sel_endpoint s) (sel_relay s))) v1)
        else
          (let v1 = (if state = VPN_SS_DISCONNECTED \<or> state = VPN_SS_CONNECTING \<or> state = VPN_SS_RECOVERING
                     then v\<lparr>v_network_changed_before_recovery := False\<rparr> else v);
               (e, v2) = take_pending_error v1
           in emit (StateChanged state (ErrorInfo e)) v2)) m"

definition complete_request :: vpn_action where
  "complete_request d m =
     (case as_request d of
        None \<Rightarrow> m
      | Some r \<Rightarrow> on_ctx (emit (CompleteRequest (crr_id r) (crr_action r))) m)"

definition reject_request :: vpn_action where
  "reject_request d m =
     (case as_request d of None \<Rightarrow> m | Some r \<Rightarrow> on_ctx (emit (RejectRequest (crr_id r))) m)"

definition bypass_until_connected :: vpn_action where
  "bypass_until_connected d m =
     (case as_request d of
        None \<Rightarrow> m
      | Some r \<Rightarrow>
          on_ctx (\<lambda>v. emit (CompleteRequest (crr_id r) (Some VPN_CA_FORCE_BYPASS))
                   (v\<lparr>v_bypassed_connection_ids := v_bypassed_connection_ids v @ [crr_id r]\<rparr>)) m)"

definition postpone_request :: vpn_action where
  "postpone_request d m =
     (case as_request d of
        None \<Rightarrow> m
      | Some r \<Rightarrow> on_ctx (\<lambda>v. v\<lparr>v_postponed_requests := v_postponed_requests v @ [r]\<rparr>) m)"

fun answer_expired :: "connect_request_result list \<Rightarrow> vpn \<Rightarrow> vpn" where
  "answer_expired [] v = v"
| "answer_expired (r # rs) v =
     answer_expired rs
       (if v_kill_switch_on v then emit (RejectRequest (crr_id r)) v
        else (emit (CompleteRequest (crr_id r) (Some VPN_CA_FORCE_BYPASS)) v)
               \<lparr>v_bypassed_connection_ids := v_bypassed_connection_ids v @ [crr_id r]\<rparr>)"

definition postponement_window_timer_cb :: "vpn_machine \<Rightarrow> vpn_machine" where
  "postponement_window_timer_cb = on_ctx (\<lambda>v.
     (answer_expired (v_postponed_requests v) (v\<lparr>v_postponement_window_timer := False\<rparr>))
       \<lparr>v_postponed_requests := []\<rparr>)"

subsection \<open>The transition table\<close>

definition tr :: "fsm_state \<Rightarrow> fsm_event \<Rightarrow> vpn_guard option \<Rightarrow> vpn_action option \<Rightarrow> fsm_state
    \<Rightarrow> vpn_action option \<Rightarrow> (vpn, vpn_arg) fsm_transition_entry" where
  "tr s e c b t a = \<lparr>src_state = s, event = e, condition = c, before_transition = b,
                     target_state = t, after_transition = a\<rparr>"

definition disconnected_entries :: "(vpn, vpn_arg) fsm_transition_table" where
  "disconnected_entries =
     [tr VPN_SS_DISCONNECTED CE_DO_CONNECT None (Some run_ping) VPN_SS_CONNECTING (Some raise_state),
      tr VPN_SS_DISCONNECTED CE_CLIENT_DISCONNECTED None None SAME_TARGET_STATE None,
      tr VPN_SS_DISCONNECTED CE_SHUTDOWN None (Some do_disconnect) SAME_TARGET_STATE None,
      tr VPN_SS_DISCONNECTED CE_START_LISTENING None (Some on_wrong_listen_state) SAME_TARGET_STATE None,
      tr VPN_SS_DISCONNECTED CE_NETWORK_CHANGE None None SAME_TARGET_STATE None]"

definition connecting_entries :: "(vpn, vpn_arg) fsm_transition_table" where
  "connecting_entries =
     [tr VPN_SS_CONNECTING CE_RETRY_CONNECT None (Some run_ping) SAME_TARGET_STATE None,
      tr VPN_SS_CONNECTING CE_PING_READY None (Some connect_client) SAME_TARGET_STATE None,
      tr VPN_SS_CONNECTING CE_PING_FAIL (Some is_fatal_error) (Some complete_connect) VPN_SS_DISCONNECTED (Some raise_state),
      tr VPN_SS_CONNECTING CE_PING_FAIL (Some fall_into_recovery) (Some prepare_for_recovery) VPN_SS_WAITING_RECOVERY (Some raise_state),
      tr VPN_SS_CONNECTING CE_PING_FAIL (Some no_connect_attempts) (Some complete_connect) VPN_SS_DISCONNECTED (Some raise_state),
      tr VPN_SS_CONNECTING CE_PING_FAIL None (Some retry_connect) SAME_TARGET_STATE None,
      tr VPN_SS_CONNECTING CE_CLIENT_READY None (Some complete_connect) VPN_SS_CONNECTED (Some raise_state),
      tr VPN_SS_CONNECTING CE_CLIENT_DISCONNECTED (Some is_fatal_error) (Some complete_connect) VPN_SS_DISCONNECTED (Some raise_state),
      tr VPN_SS_CONNECTING CE_CLIENT_DISCONNECTED (Some fall_into_recovery) (Some prepare_for_recovery) VPN_SS_WAITING_RECOVERY (Some raise_state),
      tr VPN_SS_CONNECTING CE_CLIENT_DISCONNECTED (Some no_connect_attempts) (Some complete_connect) VPN_SS_DISCONNECTED (Some raise_state),
      tr VPN_SS_CONNECTING CE_CLIENT_DISCONNECTED None (Some retry_connect) SAME_TARGET_STATE None,
      tr VPN_SS_CONNECTING CE_ABANDON_ENDPOINT (Some is_fatal_error) (Some complete_connect) VPN_SS_DISCONNECTED (Some raise_state),
      tr VPN_SS_CONNECTING CE_ABANDON_ENDPOINT None (Some retry_connect) SAME_TARGET_STATE None,
      tr VPN_SS_CONNECTING CE_NETWORK_CHANGE (Some no_connect_attempts) (Some fail_connect_with_no_attempts) VPN_SS_DISCONNECTED (Some raise_state),
      tr VPN_SS_CONNECTING CE_NETWORK_CHANGE (Some network_lost) (Some do_disconnect) VPN_SS_WAITING_FOR_NETWORK (Some raise_state),
      tr VPN_SS_CONNECTING CE_NETWORK_CHANGE (Some fall_into_recovery) (Some prepare_for_recovery) VPN_SS_WAITING_RECOVERY (Some raise_state),
      tr VPN_SS_CONNECTING CE_NETWORK_CHANGE None (Some retry_connect) SAME_TARGET_STATE None]"

definition connected_entries :: "(vpn, vpn_arg) fsm_transition_table" where
  "connected_entries =
     [tr VPN_SS_CONNECTED CE_NETWORK_CHANGE (Some network_lost) (Some do_disconnect) VPN_SS_WAITING_FOR_NETWORK (Some raise_state),
      tr VPN_SS_CONNECTED CE_NETWORK_CHANGE None (Some prepare_for_recovery_nc) VPN_SS_WAITING_RECOVERY (Some raise_state),
      tr VPN_SS_CONNECTED CE_ABANDON_ENDPOINT (Some is_fatal_error) (Some do_disconnect) VPN_SS_DISCONNECTED (Some raise_state),
      tr VPN_SS_CONNECTED CE_ABANDON_ENDPOINT None (Some prepare_for_recovery) VPN_SS_WAITING_RECOVERY (Some raise_state)]"

definition recovery_entries :: "(vpn, vpn_arg) fsm_transition_table" where
  "recovery_entries =
     [tr VPN_SS_WAITING_RECOVERY CE_NETWORK_CHANGE (Some network_lost) (Some do_disconnect) VPN_SS_WAITING_FOR_NETWORK (Some raise_state),
      tr VPN_SS_WAITING_RECOVERY CE_NETWORK_CHANGE None (Some run_ping) VPN_SS_RECOVERING (Some raise_state),
      tr VPN_SS_WAITING_RECOVERY CE_DO_RECOVERY (Some need_to_ping_on_recovery) (Some run_ping) VPN_SS_RECOVERING (Some raise_state),
      tr VPN_SS_WAITING_RECOVERY CE_DO_RECOVERY None (Some connect_client) VPN_SS_RECOVERING (Some raise_state),
      tr VPN_SS_WAITING_RECOVERY CE_CLIENT_DISCONNECTED (Some is_fatal_error) (Some do_disconnect) VPN_SS_DISCONNECTED (Some raise_state),
      tr VPN_SS_WAITING_RECOVERY CE_CLIENT_DISCONNECTED None None SAME_TARGET_STATE None,
      tr VPN_SS_WAITING_RECOVERY CE_ABANDON_ENDPOINT (Some is_fatal_error) (Some do_disconnect) VPN_SS_DISCONNECTED (Some raise_state),

      tr VPN_SS_RECOVERING CE_NETWORK_CHANGE (Some network_lost) (Some do_disconnect) VPN_SS_WAITING_FOR_NETWORK (Some raise_state),
      tr VPN_SS_RECOVERING CE_NETWORK_CHANGE None (Some prepare_for_recovery_nc) VPN_SS_WAITING_RECOVERY (Some raise_state),
      tr VPN_SS_RECOVERING CE_PING_READY None (Some reconnect_client) SAME_TARGET_STATE None,
      tr VPN_SS_RECOVERING CE_PING_FAIL (Some is_fatal_error) (Some do_disconnect) VPN_SS_DISCONNECTED (Some raise_state),
      tr VPN_SS_RECOVERING CE_PING_FAIL None (Some prepare_for_recovery) VPN_SS_WAITING_RECOVERY (Some raise_state),
      tr VPN_SS_RECOVERING CE_CLIENT_READY None (Some finalize_recovery) VPN_SS_CONNECTED (Some raise_state),
      tr VPN_SS_RECOVERING CE_ABANDON_ENDPOINT (Some is_fatal_error) (Some do_disconnect) VPN_SS_DISCONNECTED (Some raise_state),
      tr VPN_SS_RECOVERING CE_ABANDON_ENDPOINT None (Some prepare_for_recovery) VPN_SS_WAITING_RECOVERY (Some raise_state)]"

definition waiting_for_network_entries :: "(vpn, vpn_arg) fsm_transition_table" where
  "waiting_for_network_entries =
     [tr VPN_SS_WAITING_FOR_NETWORK CE_NETWORK_CHANGE (Some network_lost) None SAME_TARGET_STATE None,
      tr VPN_SS_WAITING_FOR_NETWORK CE_NETWORK_CHANGE (Some connected_once) (Some prepare_for_recovery_nc) VPN_SS_WAITING_RECOVERY (Some raise_state),
      tr VPN_SS_WAITING_FOR_NETWORK CE_NETWORK_CHANGE (Some no_connect_attempts) (Some fail_connect_with_no_attempts) VPN_SS_DISCONNECTED (Some raise_state),
      tr VPN_SS_WAITING_FOR_NETWORK CE_NETWORK_CHANGE None (Some retry_connect) VPN_SS_CONNECTING (Some raise_state)]"

definition any_state_entries :: "(vpn, vpn_arg) fsm_transition_table" where
  "any_state_entries =
     [tr ANY_SOURCE_STATE CE_CLIENT_DISCONNECTED (Some is_fatal_error) (Some do_disconnect) VPN_SS_DISCONNECTED (Some raise_state),
      tr ANY_SOURCE_STATE CE_CLIENT_DISCONNECTED None (Some prepare_for_recovery) VPN_SS_WAITING_RECOVERY (Some raise_state),
      tr ANY_SOURCE_STATE CE_SHUTDOWN None (Some do_disconnect) VPN_SS_DISCONNECTED (Some raise_state),
      tr ANY_SOURCE_STATE CE_DO_CONNECT None (Some on_wrong_connect_state) VPN_SS_DISCONNECTED (Some raise_state),
      tr ANY_SOURCE_STATE CE_START_LISTENING None (Some start_listening) SAME_TARGET_STATE None,

      tr ANY_SOURCE_STATE CE_COMPLETE_REQUEST (Some can_complete) (Some complete_request) SAME_TARGET_STATE None,
      tr ANY_SOURCE_STATE CE_COMPLETE_REQUEST (Some should_postpone) (Some postpone_request) SAME_TARGET_STATE None,
      tr ANY_SOURCE_STATE CE_COMPLETE_REQUEST (Some is_kill_switch_on) (Some reject_request) SAME_TARGET_STATE None,
      tr ANY_SOURCE_STATE CE_COMPLETE_REQUEST None (Some bypass_until_connected) SAME_TARGET_STATE None]"

definition vpn_transition_table :: "(vpn, vpn_arg) fsm_transition_table" where
  "vpn_transition_table =
     disconnected_entries @ connecting_entries @ connected_entries @ recovery_entries @
     waiting_for_network_entries @ any_state_entries"

definition vpn_transition :: "fsm_event \<Rightarrow> vpn_arg \<Rightarrow> vpn_machine \<Rightarrow> vpn_machine" where
  "vpn_transition ev d m = perform_transition vpn_transition_table ev d m"

lemmas vpn_table_defs =
  vpn_transition_table_def disconnected_entries_def connecting_entries_def connected_entries_def
  recovery_entries_def waiting_for_network_entries_def any_state_entries_def

lemma vpn_table_valid: "validate_transition_table vpn_transition_table"
  by (simp add: validate_transition_table_def vpn_table_defs tr_def SAME_TARGET_STATE_def
      ANY_SOURCE_STATE_def)

end
