(* ===== verification/Vpn_Session.thy ===== *)
theory Vpn_Session
  imports Vpn_Fsm
begin

section \<open>Tasks, callbacks and API of the session (\<^verbatim>\<open>core/src/vpn_manager.cpp\<close>)\<close>

text \<open>
  The closures the session submits to its loop (\<open>run_task\<close>), the callbacks it registers with the
  pinger and the client, and the functions of the public API, then the step relation \<open>vpn_step\<close> that
  interleaves them. API functions run under \<^verbatim>\<open>stop_guard\<close> on any thread and only submit;
  everything else runs on the loop's thread, one callback at a time.
\<close>

subsection \<open>Callbacks\<close>

record locations_pinger_result =
  pr_ping_ms :: int
  pr_endpoint :: vpn_endpoint
  pr_relay :: "vpn_relay option"
  pr_is_quic :: bool

text \<open>\<^verbatim>\<open>!std::none_of\<close>: stops at the first match; \<open>None\<close> as in \<open>vpn_endpoint_equals\<close>.\<close>

fun endpoint_known :: "vpn_endpoint \<Rightarrow> vpn_endpoint list \<Rightarrow> bool option" where
  "endpoint_known seek [] = Some False"
| "endpoint_known seek (e # es) =
     (case vpn_endpoint_equals seek e of
        None \<Rightarrow> None
      | Some True \<Rightarrow> Some True
      | Some False \<Rightarrow> endpoint_known seek es)"

definition pinger_handler :: "locations_pinger_result option \<Rightarrow> vpn_machine \<Rightarrow> vpn_machine" where
  "pinger_handler result m0 =
     (case result of
        None \<Rightarrow> m0
      | Some r \<Rightarrow>
          (let failure_induces = v_ping_failure_induces_location_unavailable (m_ctx m0);
               m = on_ctx (\<lambda>v. (emit (ClientAdoptConnection None) v)
                                \<lparr>v_selected_endpoint := None,
                                 v_ping_failure_induces_location_unavailable := False,
                                 v_ping_barrier := None\<rparr>)
                     (fsm_assert (v_selected_endpoint (m_ctx m0) = None) m0)
           in if pr_ping_ms r < 0 then
                vpn_transition CE_PING_FAIL
                  (ErrorArg (if failure_induces
                             then VpnError VPN_EC_LOCATION_UNAVAILABLE
                                    (Some ''None of the endpoints were pinged successfully'')
                             else VpnError VPN_EC_ERROR (Some ''Failed to ping location''))) m
              else
                (case endpoint_known (pr_endpoint r) (cfg_endpoints (v_upstream_config (m_ctx m))) of
                   None \<Rightarrow> on_ctx (flag_ub True) m
                 | Some False \<Rightarrow>
                     vpn_transition CE_PING_FAIL
                       (ErrorArg (VpnError VPN_EC_ERROR
                          (Some ''Best available endpoint wasn't found in location'')))
                       (on_ctx (\<lambda>v. v\<lparr>v_ping_failure_induces_location_unavailable := failure_induces\<rparr>) m)
                 | Some True \<Rightarrow>
                     vpn_transition CE_PING_READY NullArg
                       (on_ctx (\<lambda>v. emit ClientUpdateBypassIp
                          (emit (ClientAdoptConnection (Some (pr_is_quic r)))
                             (v\<lparr>v_selected_endpoint :=
                                  Some \<lparr>sel_endpoint = pr_endpoint r, sel_relay = pr_relay r\<rparr>\<rparr>))) m))))"

datatype client_event =
    EVENT_CONNECTED
  | EVENT_ERROR vpn_error
  | EVENT_DISCONNECTED "vpn_error option"

text \<open>The events \<^verbatim>\<open>client_handler\<close> does not just forward to the application.\<close>

definition client_handler :: "client_event \<Rightarrow> vpn_machine \<Rightarrow> vpn_machine" where
  "client_handler what m =
     (case what of
        EVENT_CONNECTED \<Rightarrow>
          vpn_transition CE_CLIENT_READY NullArg (on_ctx (\<lambda>v. v\<lparr>v_client_state := CLIS_CONNECTED\<rparr>) m)
      | EVENT_ERROR e \<Rightarrow>
          vpn_transition CE_CLIENT_DISCONNECTED (ErrorArg e)
            (on_ctx (\<lambda>v. v\<lparr>v_client_state := CLIS_DISCONNECTED\<rparr>) m)
      | EVENT_DISCONNECTED e \<Rightarrow>
          vpn_transition CE_CLIENT_DISCONNECTED (case e of None \<Rightarrow> NullArg | Some x \<Rightarrow> ErrorArg x)
            (on_ctx (\<lambda>v. v\<lparr>v_client_state := CLIS_DISCONNECTED\<rparr>) m))"

definition shutdown_cb :: "vpn_machine \<Rightarrow> vpn_machine" where
  "shutdown_cb m = vpn_transition CE_SHUTDOWN NullArg m"

subsection \<open>Tasks\<close>

text \<open>
  The closure of \<^verbatim>\<open>vpn_abandon_endpoint\<close>. The endpoints past the position
  \<^verbatim>\<open>swap_remove_if\<close> returns are destroyed.
\<close>

definition is_selected_endpoint :: "vpn_endpoint \<Rightarrow> vpn \<Rightarrow> bool option" where
  "is_selected_endpoint ep v =
     (case v_selected_endpoint v of
        None \<Rightarrow> Some False
      | Some s \<Rightarrow> vpn_endpoint_equals (sel_endpoint s) ep)"

definition remove_endpoint :: "vpn_endpoint \<Rightarrow> vpn \<Rightarrow> vpn" where
  "remove_endpoint ep v =
     (let (k, es) = swap_remove_if (\<lambda>e. vpn_endpoint_equals ep e = Some True)
                      (cfg_endpoints (v_upstream_config v))
      in v\<lparr>v_selected_endpoint :=
             (if is_selected_endpoint ep v = Some True then None else v_selected_endpoint v),
           v_upstream_config := (v_upstream_config v)\<lparr>cfg_endpoints := take k es\<rparr>\<rparr>)"

definition exhausted_error :: "vpn_endpoint \<Rightarrow> vpn_endpoint list \<Rightarrow> vpn_error" where
  "exhausted_error ep left =
     VpnError VPN_EC_LOCATION_UNAVAILABLE
       (Some (if left = [] then ''Exhausted all endpoints in location''
              else if sa_family (ep_address ep) = AF_INET then ''Exhausted all IPv4 endpoints in location''
              else ''Exhausted all IPv6 endpoints in location''))"

definition abandon_endpoint_task :: "vpn_endpoint \<Rightarrow> vpn_machine \<Rightarrow> vpn_machine" where
  "abandon_endpoint_task ep m =
     (let v = m_ctx m; is_selected = is_selected_endpoint ep v
      in if is_selected = None \<or>
            (\<exists>e\<in>set (cfg_endpoints (v_upstream_config v)). vpn_endpoint_equals ep e = None)
         then on_ctx (flag_ub True) m
         else
           let v2 = remove_endpoint ep v; left = cfg_endpoints (v_upstream_config v2)
           in if \<not> list_ex (\<lambda>e. sa_family (ep_address ep) = sa_family (ep_address e)) left then
                vpn_transition CE_ABANDON_ENDPOINT NullArg
                  (m\<lparr>m_ctx := v2\<lparr>v_pending_error := Some (exhausted_error ep left),
                     v_upstream_config := (v_upstream_config v2)\<lparr>cfg_endpoints := []\<rparr>\<rparr>\<rparr>)
              else if is_selected \<noteq> Some True then m\<lparr>m_ctx := v2\<rparr>
              else
                vpn_transition CE_ABANDON_ENDPOINT NullArg
                  (m\<lparr>m_ctx := v2\<lparr>v_pending_error := Some (VpnError VPN_EC_ERROR
                       (Some ''Current endpoint is abandoned'')),
                     v_ping_failure_induces_location_unavailable := True\<rparr>\<rparr>))"

definition failed_recovery_task :: "vpn_machine \<Rightarrow> vpn_machine" where
  "failed_recovery_task m =
     vpn_transition CE_SHUTDOWN NullArg
       (on_ctx (\<lambda>v. (clear_recovery v)\<lparr>v_pending_error := Some (VpnError VPN_EC_LOCATION_UNAVAILABLE
          (Some ''Maximum number of recovery attempts has been made''))\<rparr>) m)"

definition do_recovery_task :: "vpn_machine \<Rightarrow> vpn_machine" where
  "do_recovery_task m =
     vpn_transition CE_DO_RECOVERY NullArg
       (on_ctx (\<lambda>v. v\<lparr>v_recovery := (v_recovery v)\<lparr>rec_task := None,
          rec_time := (rec_time (v_recovery v))\<lparr>rt_attempt_start_ts := vpn_now v\<rparr>\<rparr>\<rparr>) m)"

definition connect_task :: "vpn_upstream_config \<Rightarrow> connect_retry_info \<Rightarrow> vpn_machine \<Rightarrow> vpn_machine" where
  "connect_task cfg retry_info m =
     vpn_transition CE_DO_CONNECT NullArg
       (on_ctx (\<lambda>v.
          (update_upstream_config cfg (emit ClientUpdateParameters v))
            \<lparr>v_connect_retry_info := (case retry_info of
                 ConnectSeveralAttempts n \<Rightarrow> ConnectSeveralAttempts (n - 1)
               | ConnectFallIntoRecovery \<Rightarrow> ConnectFallIntoRecovery)\<rparr>) m)"

definition vpn_complete_connect_request_task :: "connect_request_result \<Rightarrow> vpn_machine \<Rightarrow> vpn_machine" where
  "vpn_complete_connect_request_task r m =
     vpn_transition CE_COMPLETE_REQUEST
       (RequestArg (r\<lparr>crr_action := env_finalize_connect_action (v_env (m_ctx m)) r\<rparr>)) m"

definition run_task :: "vpn_task \<Rightarrow> vpn_machine \<Rightarrow> vpn_machine" where
  "run_task t m =
     (case t of
        FailedRecoveryTask \<Rightarrow> failed_recovery_task m
      | DoRecoveryTask \<Rightarrow> do_recovery_task m
      | ClientDisconnectedTask \<Rightarrow> vpn_transition CE_CLIENT_DISCONNECTED NullArg m
      | RetryConnectTask \<Rightarrow> vpn_transition CE_RETRY_CONNECT NullArg m
      | ListenFailedTask e \<Rightarrow> shutdown_cb (on_ctx (\<lambda>v. v\<lparr>v_pending_error := Some e\<rparr>) m)
      | ConnectTask cfg retry_info \<Rightarrow> connect_task cfg retry_info m
      | ForceReconnectTask \<Rightarrow> vpn_transition CE_DO_RECOVERY NullArg m
      | ForceDisconnectTask fatal \<Rightarrow>
          shutdown_cb (if fatal
            then on_ctx (\<lambda>v. v\<lparr>v_pending_error := Some (VpnError VPN_EC_FATAL_CONNECTIVITY_ERROR
                   (Some ''Fatal connectivity error occurred''))\<rparr>) m
            else m)
      | StopTask \<Rightarrow> shutdown_cb m
      | CompleteRequestTask r \<Rightarrow> vpn_complete_connect_request_task r m
      | UpdateExclusionsTask s \<Rightarrow>
          on_ctx (\<lambda>v. emit (ClientUpdateExclusions s) (emit (ClientResetConnections (-1))
                    (v\<lparr>v_update_exclusions_task := None\<rparr>))) m
      | ResetConnectionsTask uid \<Rightarrow> on_ctx (emit (ClientResetConnections uid)) m
      | NetworkChangeTask s \<Rightarrow>
          vpn_transition CE_NETWORK_CHANGE (NetArg s)
            (on_ctx (\<lambda>v. (emit ClientOnNetworkChange v)\<lparr>v_network_changed_before_recovery := True\<rparr>) m)
      | ConnectionStatsTask \<Rightarrow>
          on_ctx (emit (ConnectionStats (if get_state m = VPN_SS_CONNECTED then None
             else Some (VpnError VPN_EC_INVALID_STATE (Some ''Invalid state''))))) m
      | AbandonEndpointTask ep \<Rightarrow> abandon_endpoint_task ep m
      | SleepTask \<Rightarrow> on_ctx (\<lambda>v. vpn_submit CompletionTask (emit ClientHandleSleep v)) m
      | CompletionTask \<Rightarrow> m
      | WakeTask \<Rightarrow> on_ctx (emit ClientHandleWake) m
      | ProcessPacketsTask n \<Rightarrow> on_ctx (emit (ClientProcessPackets n)) m
      | ListenTask \<Rightarrow> vpn_transition CE_START_LISTENING ListenArg m)"

text \<open>The same as a task action of the event loop, and the two callbacks of the loop.\<close>

definition vpn_loop_of :: "vpn_machine \<Rightarrow> vpn_task event_loop" where
  "vpn_loop_of m = v_loop (m_ctx m)"

definition with_loop :: "vpn_task event_loop \<Rightarrow> vpn_machine \<Rightarrow> vpn_machine" where
  "with_loop L = on_ctx (\<lambda>v. v\<lparr>v_loop := L\<rparr>)"

definition vpn_act :: "(vpn_task, vpn_machine) task_action" where
  "vpn_act t i s = (let m = run_task t (with_loop (fst s) (snd s)) in (vpn_loop_of m, m))"

definition loop_callback ::
  "(vpn_task event_loop \<times> vpn_machine \<Rightarrow> vpn_task event_loop \<times> vpn_machine) \<Rightarrow> vpn_machine \<Rightarrow> vpn_machine" where
  "loop_callback f m = (let (L, m') = f (vpn_loop_of m, m) in with_loop L m')"

definition drain_queue :: "vpn_machine \<Rightarrow> vpn_machine" where
  "drain_queue = loop_callback (run_task_queue vpn_act)"

definition fire_deferred :: "task_id \<Rightarrow> vpn_machine \<Rightarrow> vpn_machine" where
  "fire_deferred i = loop_callback (run_deferred_task vpn_act i)"

subsection \<open>API\<close>

definition check_address :: "socket_address \<Rightarrow> string option" where
  "check_address a =
     (if sa_valid a then
        (if is_ipv4 a \<or> is_ipv6 a then (if sa_port a > 0 then None else Some ''Port must be specified'')
         else Some ''Unknown family'')
      else None)"

definition invalid_settings :: "string \<Rightarrow> vpn_error" where
  "invalid_settings s = VpnError VPN_EC_INVALID_SETTINGS (Some s)"

fun validate_endpoints :: "nat \<Rightarrow> vpn_endpoint list \<Rightarrow> vpn_error" where
  "validate_endpoints n [] = no_error"
| "validate_endpoints n (e # es) =
     (if ep_name e = None then invalid_settings ''Names must be specified for each endpoint''
      else if n > 1 \<and> sa_family (ep_address e) = AF_UNSPEC
      then invalid_settings ''In case of multiple endpoints addresses must be specified for each one''
      else if check_address (ep_address e) \<noteq> None then invalid_settings ''Invalid endpoint address''
      else validate_endpoints n es)"

definition validate_upstream_config :: "vpn_upstream_config \<Rightarrow> vpn_error" where
  "validate_upstream_config c =
     (if cfg_endpoints c = [] then invalid_settings ''At least one endpoint must be specified''
      else if cfg_username c = None \<or> cfg_password c = None
      then invalid_settings ''Both username and password must be specified''
      else validate_endpoints (length (cfg_endpoints c)) (cfg_endpoints c))"

text \<open>
  How \<^verbatim>\<open>run_event_loop\<close> ends: the loop is not created (if there was none), the loop's thread
  does not execute the dispatched no-op, or the loop runs.
\<close>

datatype loop_start = LoopNotCreated | LoopNotStarted | LoopStarted

definition run_event_loop :: "loop_start \<Rightarrow> vpn_machine \<Rightarrow> bool \<times> vpn_machine" where
  "run_event_loop how m =
     (let v = m_ctx m in
      if \<not> v_ev_loop_alive v \<and> how = LoopNotCreated then (False, m)
      else
        let L = (if v_ev_loop_alive v then v_loop v else vpn_event_loop_create)
        in if how \<noteq> LoopNotStarted
           then (True, m\<lparr>m_ctx := v\<lparr>v_ev_loop_alive := True, v_executor_running := True,
                   v_loop := snd (vpn_event_loop_submit CompletionTask (loop_run_begin L))\<rparr>\<rparr>)
           else (False, fsm_assert False
                   (m\<lparr>m_ctx := v\<lparr>v_ev_loop_alive := True, v_loop := finalize_exit_end L\<rparr>\<rparr>)))"

datatype connect_retry_policy = VPN_CRP_SEVERAL_ATTEMPTS int | VPN_CRP_FALL_INTO_RECOVERY

definition make_retry_info :: "connect_retry_policy \<Rightarrow> connect_retry_info" where
  "make_retry_info p =
     (case p of
        VPN_CRP_SEVERAL_ATTEMPTS n \<Rightarrow>
          ConnectSeveralAttempts (if n \<le> 0 then VPN_DEFAULT_CONNECT_ATTEMPTS_NUM else word_of_int n)
      | VPN_CRP_FALL_INTO_RECOVERY \<Rightarrow> ConnectFallIntoRecovery)"

definition vpn_connect ::
  "loop_start \<Rightarrow> vpn_upstream_config \<Rightarrow> connect_retry_policy \<Rightarrow> vpn_machine \<Rightarrow> vpn_error \<times> vpn_machine" where
  "vpn_connect how cfg policy m =
     (let error = validate_upstream_config cfg in
      if err_code error \<noteq> VPN_EC_NOERROR then (error, m)
      else if v_executor_running (m_ctx m)
      then (VpnError VPN_EC_ERROR (Some ''VPN client worker is already running''), m)
      else
        let (ok, m1) = run_event_loop how m
        in if \<not> ok
           then (VpnError VPN_EC_EVENT_LOOP_FAILURE (Some ''Failed to start event loop for operation''), m1)
           else (error, on_ctx (vpn_submit (ConnectTask cfg (make_retry_info policy))) m1))"

text \<open>Three functions submit without checking that there is a loop.\<close>

definition submit_unchecked :: "vpn_task \<Rightarrow> vpn_machine \<Rightarrow> vpn_machine" where
  "submit_unchecked t = on_ctx (\<lambda>v. if v_ev_loop_alive v then vpn_submit t v else flag_ub True v)"

definition vpn_force_reconnect :: "vpn_machine \<Rightarrow> vpn_machine" where
  "vpn_force_reconnect = submit_unchecked ForceReconnectTask"

definition vpn_force_disconnect :: "bool \<Rightarrow> vpn_machine \<Rightarrow> vpn_machine" where
  "vpn_force_disconnect fatal = submit_unchecked (ForceDisconnectTask fatal)"

definition vpn_abandon_endpoint :: "vpn_endpoint \<Rightarrow> vpn_machine \<Rightarrow> vpn_machine" where
  "vpn_abandon_endpoint ep = submit_unchecked (AbandonEndpointTask ep)"

text \<open>The caller of \<^verbatim>\<open>vpn_listen\<close> waits until the task is finalized.\<close>

definition vpn_listen :: "bool \<Rightarrow> bool \<Rightarrow> vpn_machine \<Rightarrow> vpn_error \<times> vpn_machine" where
  "vpn_listen has_listener has_config m =
     (if \<not> has_listener then (invalid_settings ''Listener is null'', m)
      else if \<not> has_config then (invalid_settings ''Listener config is null'', m)
      else if \<not> v_executor_running (m_ctx m)
      then (VpnError VPN_EC_ERROR (Some ''VPN client worker is not running''), m)
      else (no_error, on_ctx (vpn_submit ListenTask) m))"

definition vpn_complete_connect_request :: "connect_request_result \<Rightarrow> vpn_machine \<Rightarrow> vpn_machine" where
  "vpn_complete_connect_request r =
     on_ctx (\<lambda>v. if \<not> v_ev_loop_alive v then v else vpn_submit (CompleteRequestTask r) v)"

text \<open>
  \<^verbatim>\<open>vpn_event_loop_is_active\<close>: running, and no exit requested (\<open>exiting\<close> is what libevent
  reports).
\<close>

definition vpn_event_loop_is_active :: "bool \<Rightarrow> vpn \<Rightarrow> bool" where
  "vpn_event_loop_is_active exiting v \<longleftrightarrow>
     v_ev_loop_alive v \<and> el_state (v_loop v) = ELS_RUNNING \<and> \<not> exiting"

definition submit_if_active :: "bool \<Rightarrow> vpn_task \<Rightarrow> vpn_machine \<Rightarrow> vpn_machine" where
  "submit_if_active exiting t =
     on_ctx (\<lambda>v. if \<not> vpn_event_loop_is_active exiting v then v else vpn_submit t v)"

definition vpn_update_exclusions :: "bool \<Rightarrow> string \<Rightarrow> vpn_machine \<Rightarrow> vpn_machine" where
  "vpn_update_exclusions exiting s = on_ctx (\<lambda>v.
     if \<not> vpn_event_loop_is_active exiting v then v
     else
       let (i, L) = vpn_event_loop_submit (UpdateExclusionsTask s) (v_loop v)
       in v\<lparr>v_loop := auto_task_reset (v_update_exclusions_task v) L,
            v_update_exclusions_task := make_auto_task_id i\<rparr>)"

definition vpn_reset_connections :: "bool \<Rightarrow> int \<Rightarrow> vpn_machine \<Rightarrow> vpn_machine" where
  "vpn_reset_connections exiting uid = submit_if_active exiting (ResetConnectionsTask uid)"

definition vpn_notify_network_change :: "bool \<Rightarrow> vpn_network_state \<Rightarrow> vpn_machine \<Rightarrow> vpn_machine" where
  "vpn_notify_network_change exiting s = submit_if_active exiting (NetworkChangeTask s)"

definition vpn_request_endpoint_connection_stats :: "bool \<Rightarrow> vpn_machine \<Rightarrow> vpn_machine" where
  "vpn_request_endpoint_connection_stats exiting = on_ctx (\<lambda>v.
     if \<not> vpn_event_loop_is_active exiting v
     then emit (ConnectionStats (Some (VpnError VPN_EC_ERROR (Some ''Event loop is stopped'')))) v
     else vpn_submit ConnectionStatsTask v)"

definition vpn_notify_sleep :: "bool \<Rightarrow> vpn_machine \<Rightarrow> vpn_machine" where
  "vpn_notify_sleep exiting = submit_if_active exiting SleepTask"

definition vpn_notify_wake :: "bool \<Rightarrow> vpn_machine \<Rightarrow> vpn_machine" where
  "vpn_notify_wake exiting = submit_if_active exiting WakeTask"

definition vpn_process_client_packets :: "nat \<Rightarrow> vpn_machine \<Rightarrow> bool \<times> vpn_machine" where
  "vpn_process_client_packets n m =
     (if \<not> v_ev_loop_alive (m_ctx m) then (False, m)
      else (True, on_ctx (vpn_submit (ProcessPacketsTask n)) m))"

text \<open>
  \<^verbatim>\<open>vpn_stop\<close> up to the wait for the loop's thread, and from there on. The task handles are
  not cancelled in the second part: their loop is destroyed by then.
\<close>

definition vpn_stop_begin :: "vpn_machine \<Rightarrow> vpn_machine" where
  "vpn_stop_begin = on_ctx (\<lambda>v.
     if v_ev_loop_alive v
     then (vpn_submit StopTask v)\<lparr>v_loop := finalize_exit_begin (v_loop (vpn_submit StopTask v))\<rparr>
     else v)"

definition vpn_stop_end :: "vpn_machine \<Rightarrow> vpn_machine" where
  "vpn_stop_end m =
     on_ctx (\<lambda>v.
       (stop_pinging (emit ClientFinalizeDisconnect
          (v\<lparr>v_executor_running := False, v_pending_error := None, v_client_state := CLIS_DISCONNECTED\<rparr>)))
         \<lparr>v_postponement_window_timer := False, v_ev_loop_alive := False,
          v_loop := vpn_event_loop_create, v_recovery := recovery_info_init,
          v_selected_endpoint := None, v_update_exclusions_task := None,
          v_postponed_requests := [], v_bypassed_connection_ids := []\<rparr>)
       (fsm_reset (on_ctx (\<lambda>v. v\<lparr>v_loop := finalize_exit_end (v_loop v)\<rparr>) m))"

text \<open>The loop's thread: libevent returned on request, or with an error.\<close>

definition executor_exit :: "vpn_machine \<Rightarrow> vpn_machine" where
  "executor_exit = on_ctx (\<lambda>v. v\<lparr>v_loop := loop_run_end (v_loop v)\<rparr>)"

definition executor_failure :: "vpn_machine \<Rightarrow> vpn_machine" where
  "executor_failure m =
     shutdown_cb (on_ctx (\<lambda>v. v\<lparr>v_loop := loop_run_end (v_loop v),
       v_pending_error := Some (VpnError VPN_EC_EVENT_LOOP_FAILURE (Some ''Event loop run error''))\<rparr>) m)"

subsection \<open>Certificate verification\<close>

definition VPN_SKIP_VERIFICATION_FLAG :: int where
  "VPN_SKIP_VERIFICATION_FLAG = 100"

text \<open>
  \<open>app_result\<close> is what the application's handler stored; \<open>name_ok\<close> and \<open>ip_ok\<close> are the checks of the
  TLS library against the certificate; the address is present when its family is specified.
\<close>

definition ssl_verify_callback ::
  "int \<Rightarrow> (string \<Rightarrow> bool) \<Rightarrow> (socket_address \<Rightarrow> bool) \<Rightarrow> string option \<Rightarrow> socket_address option \<Rightarrow> int" where
  "ssl_verify_callback app_result name_ok ip_ok host_name host_ip =
     (if app_result = VPN_SKIP_VERIFICATION_FLAG then 1
      else
        let result = (if app_result = 0 then 1 else 0);
            has_ip = (case host_ip of None \<Rightarrow> False | Some a \<Rightarrow> sa_family a \<noteq> AF_UNSPEC)
        in if (host_name \<noteq> None \<or> has_ip)
              \<and> (case host_name of None \<Rightarrow> True | Some h \<Rightarrow> \<not> name_ok h)
              \<and> (case host_ip of None \<Rightarrow> True | Some a \<Rightarrow> sa_family a = AF_UNSPEC \<or> \<not> ip_ok a)
           then 0 else result)"

end
