(* ===== verification/Vpn_Loop.thy ===== *)
theory Vpn_Loop
  imports Vpn_Session
begin

section \<open>The session as a client of the event loop\<close>

text \<open>
  Every action of the transition table, and so every task, touches the loop through
  \<^verbatim>\<open>submit\<close>, \<^verbatim>\<open>schedule\<close> and \<^verbatim>\<open>cancel\<close> only. This discharges the contract the
  loop asks of its clients (\<open>event_loop_client\<close>) for the session's tasks.
\<close>

subsection \<open>The session touches its loop through the loop's operations only\<close>

abbreviation loop_calls :: "vpn \<Rightarrow> vpn \<Rightarrow> bool" where
  "loop_calls v v' \<equiv> el_call\<^sup>*\<^sup>* (v_loop v) (v_loop v')"

lemma auto_task_reset_calls: "el_call\<^sup>*\<^sup>* L (auto_task_reset h L)"
  by (cases h) (auto simp: auto_task_reset_def intro: call_cancel)

lemma loop_frame [simp]:
  "v_loop (emit e v) = v_loop v"
  "v_loop (flag_ub b v) = v_loop v"
  "v_loop (disconnect_client v) = v_loop v"
  "v_loop (stop_pinging v) = v_loop v"
  "v_loop (start_pinger v) = v_loop v"
  "v_loop (vpn_disconnect v) = v_loop v"
  "v_loop (complete_postponed_requests v) = v_loop v"
  "v_loop (reset_bypassed_connections v) = v_loop v"
  by (simp_all add: vpn_member_defs start_pinger_def complete_postponed_requests_def reset_bypassed_connections_def
      complete_all_out reset_all_out Let_def split: client_connection_state.splits)

lemma submit_calls: "loop_calls v (vpn_submit t v)"
  by (auto simp: vpn_submit_def intro: call_submit)

lemma clear_recovery_calls: "loop_calls v (clear_recovery v)"
  by (simp add: clear_recovery_def auto_task_reset_calls)

lemma initiate_recovery_calls: "loop_calls v (initiate_recovery v)"
proof (cases "rec_attempts (v_recovery v) \<ge> cfg_recovery_attempts (v_upstream_config v)")
  case True
  then show ?thesis by (simp add: initiate_recovery_def submit_calls)
next
  case False
  have "el_call (v_loop v) (snd (vpn_event_loop_schedule DoRecoveryTask (v_loop v)))"
    by (rule call_schedule)
  with False show ?thesis
    by (auto simp: initiate_recovery_def Let_def split: prod.splits
        intro: converse_rtranclp_into_rtranclp auto_task_reset_calls)
qed

lemma run_client_connect_calls: "loop_calls v (run_client_connect t v)"
  using submit_calls
  by (auto simp: run_client_connect_def Let_def vpn_submit_def intro: call_submit split: option.splits)

text \<open>An action of the table keeps the re-entrancy flag and only calls operations of the loop.\<close>

definition calls_only :: "vpn_action \<Rightarrow> bool" where
  "calls_only a \<longleftrightarrow>
     (\<forall>d m. loop_calls (m_ctx m) (m_ctx (a d m)) \<and> m_recursive (a d m) = m_recursive m)"

lemma calls_only_on_ctx: "(\<And>d v. loop_calls v (f d v)) \<Longrightarrow> calls_only (\<lambda>d. on_ctx (f d))"
  by (simp add: calls_only_def on_ctx_def)

lemma run_ping_calls: "calls_only run_ping"
  unfolding run_ping_def
  by (rule calls_only_on_ctx) (simp add: Let_def auto_task_reset_calls split: option.splits)

lemma connect_client_calls: "calls_only connect_client"
  unfolding connect_client_def by (rule calls_only_on_ctx) (rule run_client_connect_calls)

lemma complete_connect_calls: "calls_only complete_connect"
  using clear_recovery_calls
  by (simp add: calls_only_def complete_connect_def Let_def clear_recovery_def
      auto_task_reset_calls split: option.splits)

lemma retry_connect_calls: "calls_only retry_connect"
  by (auto simp: calls_only_def retry_connect_def Let_def on_ctx_def fsm_assert_def vpn_submit_def
      intro: call_submit split: connect_retry_info.splits)

lemma prepare_for_recovery_calls: "calls_only prepare_for_recovery"
proof -
  have "loop_calls v (initiate_recovery (vpn_disconnect v))" for v
    using initiate_recovery_calls [of "vpn_disconnect v"] by simp
  then show ?thesis
    unfolding prepare_for_recovery_def
    by (intro calls_only_on_ctx) (simp add: Let_def split: option.splits)
qed

lemma reconnect_client_calls: "calls_only reconnect_client"
proof -
  have "loop_calls v (run_client_connect t (disconnect_client v))" for t v
    using run_client_connect_calls [of "disconnect_client v" t] by simp
  then show ?thesis
    unfolding reconnect_client_def by (intro calls_only_on_ctx) (simp add: Let_def)
qed

lemma finalize_recovery_calls: "calls_only finalize_recovery"
  unfolding finalize_recovery_def
  by (intro calls_only_on_ctx) (simp add: Let_def clear_recovery_def auto_task_reset_calls)

lemma do_disconnect_calls: "calls_only do_disconnect"
  unfolding do_disconnect_def by (intro calls_only_on_ctx) (simp add: clear_recovery_calls)

lemma start_listening_calls: "calls_only start_listening"
  unfolding start_listening_def
  by (intro calls_only_on_ctx) (auto simp: Let_def vpn_submit_def intro: call_submit)

lemma raise_state_calls: "calls_only raise_state"
  by (simp add: calls_only_def raise_state_def on_ctx_def Let_def take_pending_error_def
      split: option.splits)

lemma other_actions_calls:
  "calls_only fail_connect_with_no_attempts" "calls_only prepare_for_recovery_nc"
  "calls_only on_wrong_connect_state" "calls_only on_wrong_listen_state"
  "calls_only complete_request" "calls_only reject_request" "calls_only bypass_until_connected"
  "calls_only postpone_request"
  using complete_connect_calls prepare_for_recovery_calls
  by (auto simp: calls_only_def fail_connect_with_no_attempts_def prepare_for_recovery_nc_def
      on_wrong_connect_state_def on_wrong_listen_state_def complete_request_def reject_request_def
      bypass_until_connected_def postpone_request_def on_ctx_def split: option.splits)

lemmas action_calls =
  run_ping_calls connect_client_calls complete_connect_calls retry_connect_calls
  prepare_for_recovery_calls reconnect_client_calls finalize_recovery_calls do_disconnect_calls
  start_listening_calls raise_state_calls other_actions_calls

lemma vpn_table_calls:
  "list_all (\<lambda>e. pred_option calls_only (before_transition e) \<and>
     pred_option calls_only (after_transition e)) vpn_transition_table"
  by (simp add: vpn_table_defs tr_def action_calls)

interpretation vpn_calls: fsm_relation vpn_transition_table "\<lambda>m m'. loop_calls (m_ctx m) (m_ctx m')"
proof unfold_locales
  fix e a m d
  assume "e \<in> set vpn_transition_table" and "before_transition e = Some a \<or> after_transition e = Some a"
  then have "calls_only a" using vpn_table_calls by (auto simp: list_all_iff)
  then show "loop_calls (m_ctx m) (m_ctx (a d m))" by (simp add: calls_only_def)
qed auto

lemma transition_calls: "loop_calls (m_ctx m) (m_ctx (vpn_transition ev d m))"
proof (cases "m_recursive m")
  case True
  then show ?thesis by (simp add: vpn_transition_def perform_transition_recursive)
next
  case False
  then show ?thesis
    using vpn_calls.transition_establishes [of m ev d] by (simp add: vpn_transition_def)
qed

lemma transition_calls_after:
  "el_call\<^sup>*\<^sup>* L (v_loop (m_ctx m)) \<Longrightarrow> el_call\<^sup>*\<^sup>* L (v_loop (m_ctx (vpn_transition ev d m)))"
  using transition_calls rtranclp_trans by metis

lemma on_ctx_simps [simp]:
  "m_ctx (on_ctx f m) = f (m_ctx m)"
  "m_recursive (on_ctx f m) = m_recursive m"
  "m_current_state (on_ctx f m) = m_current_state m"
  "m_initial_state (on_ctx f m) = m_initial_state m"
  "m_asserted (on_ctx f m) = m_asserted m"
  by (simp_all add: on_ctx_def)

lemma abandon_endpoint_calls: "loop_calls (m_ctx m) (m_ctx (abandon_endpoint_task ep m))"
  by (auto simp: abandon_endpoint_task_def remove_endpoint_def Let_def intro!: transition_calls_after
      split: prod.splits if_splits)

lemma run_task_calls: "loop_calls (m_ctx m) (m_ctx (run_task t m))"
  by (cases t)
    (auto simp: run_task_def failed_recovery_task_def do_recovery_task_def connect_task_def
      vpn_complete_connect_request_task_def shutdown_cb_def abandon_endpoint_calls
      update_upstream_config_def clear_recovery_def auto_task_reset_calls vpn_submit_def
      intro!: transition_calls_after intro: call_submit)

interpretation vpn_loop: event_loop_client vpn_act
proof
  fix L t i and w :: vpn_machine
  show "el_call\<^sup>*\<^sup>* L (fst (vpn_act t i (L, w)))"
    using run_task_calls [of "with_loop L w" t] by (simp add: vpn_act_def vpn_loop_of_def with_loop_def Let_def)
qed

subsection \<open>What only the API changes\<close>

text \<open>No action makes or destroys the loop, starts or stops its thread, or flips the kill switch.\<close>

definition api_part :: "vpn \<Rightarrow> bool \<times> bool \<times> bool" where
  "api_part v = (v_ev_loop_alive v, v_executor_running v, v_kill_switch_on v)"

definition keeps_api_part :: "vpn_action \<Rightarrow> bool" where
  "keeps_api_part a \<longleftrightarrow> (\<forall>d m. api_part (m_ctx (a d m)) = api_part (m_ctx m))"

lemma api_part_frame [simp]:
  "api_part (emit e v) = api_part v"
  "api_part (flag_ub b v) = api_part v"
  "api_part (disconnect_client v) = api_part v"
  "api_part (stop_pinging v) = api_part v"
  "api_part (start_pinger v) = api_part v"
  "api_part (vpn_disconnect v) = api_part v"
  "api_part (vpn_submit t v) = api_part v"
  "api_part (clear_recovery v) = api_part v"
  "api_part (complete_postponed_requests v) = api_part v"
  "api_part (reset_bypassed_connections v) = api_part v"
  "api_part (initiate_recovery v) = api_part v"
  "api_part (update_upstream_config c v) = api_part v"
  by (simp_all add: vpn_member_defs start_pinger_def complete_postponed_requests_def
      reset_bypassed_connections_def complete_all_out reset_all_out initiate_recovery_def
      api_part_def Let_def split: client_connection_state.splits prod.splits)

lemma api_part_fields [simp]:
  "api_part (v\<lparr>v_pending_error := x1\<rparr>) = api_part v"
  "api_part (v\<lparr>v_loop := x2\<rparr>) = api_part v"
  "api_part (v\<lparr>v_recovery := x3\<rparr>) = api_part v"
  "api_part (v\<lparr>v_selected_endpoint := x4\<rparr>) = api_part v"
  "api_part (v\<lparr>v_client_state := x5\<rparr>) = api_part v"
  "api_part (v\<lparr>v_connect_retry_info := x6\<rparr>) = api_part v"
  "api_part (v\<lparr>v_bypassed_connection_ids := x7\<rparr>) = api_part v"
  "api_part (v\<lparr>v_postponed_requests := x8\<rparr>) = api_part v"
  "api_part (v\<lparr>v_postponement_window_timer := x9\<rparr>) = api_part v"
  "api_part (v\<lparr>v_connected_once := x10\<rparr>) = api_part v"
  "api_part (v\<lparr>v_network_changed_before_recovery := x11\<rparr>) = api_part v"
  "api_part (v\<lparr>v_upstream_config := x12\<rparr>) = api_part v"
  "api_part (v\<lparr>v_ping_failure_induces_location_unavailable := x13\<rparr>) = api_part v"
  "api_part (v\<lparr>v_update_exclusions_task := x14\<rparr>) = api_part v"
  "api_part (v\<lparr>v_ping_barrier := x15\<rparr>) = api_part v"
  by (simp_all add: api_part_def)

lemma run_client_connect_api [simp]: "api_part (run_client_connect t v) = api_part v"
  by (simp add: run_client_connect_def Let_def split: option.splits)

lemma complete_connect_api: "keeps_api_part complete_connect"
  by (simp add: keeps_api_part_def complete_connect_def Let_def split: option.splits)

lemma prepare_for_recovery_api: "keeps_api_part prepare_for_recovery"
  by (simp add: keeps_api_part_def prepare_for_recovery_def Let_def split: option.splits)

lemma actions_keep_api_part:
  "keeps_api_part run_ping" "keeps_api_part connect_client" "keeps_api_part complete_connect"
  "keeps_api_part retry_connect" "keeps_api_part prepare_for_recovery" "keeps_api_part reconnect_client"
  "keeps_api_part finalize_recovery" "keeps_api_part do_disconnect" "keeps_api_part start_listening"
  "keeps_api_part raise_state" "keeps_api_part fail_connect_with_no_attempts"
  "keeps_api_part prepare_for_recovery_nc" "keeps_api_part on_wrong_connect_state"
  "keeps_api_part on_wrong_listen_state" "keeps_api_part complete_request" "keeps_api_part reject_request"
  "keeps_api_part bypass_until_connected" "keeps_api_part postpone_request"
  using complete_connect_api prepare_for_recovery_api
  by (simp_all add: keeps_api_part_def run_ping_def connect_client_def retry_connect_def
      reconnect_client_def finalize_recovery_def do_disconnect_def start_listening_def raise_state_def
      fail_connect_with_no_attempts_def prepare_for_recovery_nc_def on_wrong_connect_state_def
      on_wrong_listen_state_def complete_request_def reject_request_def bypass_until_connected_def
      postpone_request_def take_pending_error_def fsm_assert_def Let_def
      split: option.splits connect_retry_info.splits)

lemma vpn_table_api:
  "list_all (\<lambda>e. pred_option keeps_api_part (before_transition e) \<and>
     pred_option keeps_api_part (after_transition e)) vpn_transition_table"
  by (simp add: vpn_table_defs tr_def actions_keep_api_part)

interpretation vpn_api: fsm_relation vpn_transition_table "\<lambda>m m'. api_part (m_ctx m') = api_part (m_ctx m)"
proof unfold_locales
  fix e a m d
  assume "e \<in> set vpn_transition_table" and "before_transition e = Some a \<or> after_transition e = Some a"
  then have "keeps_api_part a" using vpn_table_api by (auto simp: list_all_iff)
  then show "api_part (m_ctx (a d m)) = api_part (m_ctx m)" by (simp add: keeps_api_part_def)
qed auto

lemma transition_api [simp]: "api_part (m_ctx (vpn_transition ev d m)) = api_part (m_ctx m)"
proof (cases "m_recursive m")
  case True
  then show ?thesis by (simp add: vpn_transition_def perform_transition_recursive)
next
  case False
  then show ?thesis using vpn_api.transition_establishes [of m ev d] by (simp add: vpn_transition_def)
qed

lemma run_task_api: "api_part (m_ctx (run_task t m)) = api_part (m_ctx m)"
  by (cases t) (simp_all add: run_task_def failed_recovery_task_def do_recovery_task_def connect_task_def
      vpn_complete_connect_request_task_def shutdown_cb_def abandon_endpoint_task_def remove_endpoint_def
      Let_def split: prod.splits)

end
