(* ===== verification/Vpn_Invariant.thy ===== *)
theory Vpn_Invariant
  imports Vpn_Loop
begin

section \<open>The invariant of the session\<close>

text \<open>
  What holds of every reachable session, state by state, and what each action of the transition table
  does to it. \<open>base\<close> collects what holds in all states, \<open>state_ok\<close> what holds in each.
\<close>

subsection \<open>The invariant\<close>

definition queued :: "vpn \<Rightarrow> vpn_task list" where
  "queued v = map snd (el_task_queue (v_loop v))"

definition ep_ok :: "bool \<Rightarrow> vpn_endpoint \<Rightarrow> bool" where
  "ep_ok R e \<longleftrightarrow> ep_name e \<noteq> None \<and> (ep_remote_id e \<noteq> None \<longleftrightarrow> R)"

definition task_ok :: "bool \<Rightarrow> vpn_task \<Rightarrow> bool" where
  "task_ok R t \<longleftrightarrow>
     (case t of
        AbandonEndpointTask ep \<Rightarrow> ep_ok R ep
      | ConnectTask cfg r \<Rightarrow> list_all (ep_ok R) (cfg_endpoints cfg)
      | _ \<Rightarrow> True)"

definition is_connect :: "vpn_task \<Rightarrow> bool" where
  "is_connect t \<longleftrightarrow> (case t of ConnectTask c r \<Rightarrow> True | _ \<Rightarrow> False)"

definition off :: "vpn \<Rightarrow> bool" where
  "off v \<longleftrightarrow> v_client_state v = CLIS_DISCONNECTED \<and> \<not> v_pinger v"

text \<open>A recovery attempt is scheduled, and the session owns its handle.\<close>

definition attempt_scheduled :: "vpn \<Rightarrow> bool" where
  "attempt_scheduled v \<longleftrightarrow>
     (\<exists>i. rec_task (v_recovery v) = Some i \<and> (i, DoRecoveryTask) \<in> set (el_deferred_task_queue (v_loop v)))"

text \<open>What holds in every state.\<close>

definition handles_ok :: "vpn \<Rightarrow> bool" where
  "handles_ok v \<longleftrightarrow>
     (\<forall>i. rec_task (v_recovery v) = Some i \<longrightarrow> i < el_next_task_id (v_loop v)) \<and>
     (\<forall>j. v_update_exclusions_task v = Some j \<longrightarrow>
        j < el_next_task_id (v_loop v) \<and> j \<notin> set (deferred_ids (v_loop v)) \<and>
        (\<forall>t. (j, t) \<in> set (el_task_queue (v_loop v)) \<longrightarrow> (\<exists>s. t = UpdateExclusionsTask s)))"

definition ping_ok :: "vpn \<Rightarrow> bool" where
  "ping_ok v \<longleftrightarrow>
     (\<forall>b. v_ping_barrier v = Some b \<longrightarrow>
        v_pinger v \<and> v_selected_endpoint v = None \<and> b \<le> el_next_task_id (v_loop v) \<and>
        (\<forall>i. (i, RetryConnectTask) \<in> set (el_task_queue (v_loop v)) \<longrightarrow> i < b))"

definition requests_ok :: "vpn \<Rightarrow> bool" where
  "requests_ok v \<longleftrightarrow>
     (v_postponed_requests v \<noteq> [] \<longrightarrow> v_postponement_window_timer v) \<and>
     list_all (\<lambda>r. crr_action r \<noteq> Some VPN_CA_FORCE_BYPASS) (v_postponed_requests v) \<and>
     (v_kill_switch_on v \<longrightarrow> v_bypassed_connection_ids v = [])"

definition config_ok :: "bool \<Rightarrow> vpn \<Rightarrow> bool" where
  "config_ok R v \<longleftrightarrow>
     list_all (ep_ok R) (cfg_endpoints (v_upstream_config v)) \<and>
     (\<forall>s. v_selected_endpoint v = Some s \<longrightarrow> ep_ok R (sel_endpoint s)) \<and>
     rec_attempts (v_recovery v) \<le> cfg_recovery_attempts (v_upstream_config v) \<and>
     list_all (task_ok R) (queued v)"

definition deferred_ok :: "vpn \<Rightarrow> bool" where
  "deferred_ok v \<longleftrightarrow> (\<forall>x\<in>set (el_deferred_task_queue (v_loop v)). snd x = DoRecoveryTask)"

definition base :: "bool \<Rightarrow> vpn \<Rightarrow> bool" where
  "base R v \<longleftrightarrow> \<not> v_ub v \<and> handles_ok v \<and> deferred_ok v \<and> ping_ok v \<and> requests_ok v \<and> config_ok R v"

text \<open>What holds in each state, with the tasks \<open>ts\<close> put back in front of the queue.\<close>

definition state_ok :: "vpn_task list \<Rightarrow> fsm_state \<Rightarrow> vpn \<Rightarrow> bool" where
  "state_ok ts s v \<longleftrightarrow>
     (if s = VPN_SS_DISCONNECTED then
        rec_attempts (v_recovery v) = 0 \<and> length (filter is_connect (ts @ queued v)) \<le> 1 \<and>
        (\<not> v_executor_running v \<longrightarrow> off v \<and> filter is_connect (ts @ queued v) = []) \<and>
        (filter is_connect (ts @ queued v) \<noteq> [] \<longrightarrow> off v)
      else
        v_executor_running v \<and> filter is_connect (ts @ queued v) = [] \<and>
        (s = VPN_SS_CONNECTING \<and> v_client_state v \<noteq> CLIS_CONNECTED \<and>
           (v_client_state v = CLIS_CONNECTING \<longrightarrow>
              v_selected_endpoint v \<noteq> None \<and> RetryConnectTask \<notin> set (ts @ queued v)) \<or>
         s = VPN_SS_CONNECTED \<and> v_client_state v = CLIS_CONNECTED \<and> v_selected_endpoint v \<noteq> None \<and>
           v_connected_once v \<or>
         s = VPN_SS_WAITING_RECOVERY \<and> off v \<and>
           (attempt_scheduled v \<or> FailedRecoveryTask \<in> set (ts @ queued v) \<or> DoRecoveryTask \<in> set ts) \<or>
         s = VPN_SS_RECOVERING \<and> v_client_state v \<noteq> CLIS_CONNECTED \<and>
           (v_client_state v = CLIS_CONNECTING \<longrightarrow> v_selected_endpoint v \<noteq> None) \<or>
         s = VPN_SS_WAITING_FOR_NETWORK \<and> off v))"

definition session_inv :: "bool \<Rightarrow> vpn_task list \<Rightarrow> vpn_machine \<Rightarrow> bool" where
  "session_inv R ts m \<longleftrightarrow>
     \<not> m_recursive m \<and> m_initial_state m = VPN_SS_DISCONNECTED \<and> list_all (task_ok R) ts \<and>
     base R (m_ctx m) \<and> state_ok ts (m_current_state m) (m_ctx m)"

lemmas base_defs = base_def handles_ok_def deferred_ok_def ping_ok_def requests_ok_def config_ok_def queued_def

subsection \<open>Frames\<close>

text \<open>The part of the session the invariant reads.\<close>

lemma base_out [simp]: "base R (v\<lparr>v_out := x\<rparr>) = base R v"
  by (simp add: base_defs)

lemma base_pending [simp]: "base R (v\<lparr>v_pending_error := x\<rparr>) = base R v"
  by (simp add: base_defs)

lemma base_once [simp]: "base R (v\<lparr>v_connected_once := x\<rparr>) = base R v"
  by (simp add: base_defs)

lemma base_network [simp]: "base R (v\<lparr>v_network_changed_before_recovery := x\<rparr>) = base R v"
  by (simp add: base_defs)

lemma base_induces [simp]: "base R (v\<lparr>v_ping_failure_induces_location_unavailable := x\<rparr>) = base R v"
  by (simp add: base_defs)

lemma base_client [simp]: "base R (v\<lparr>v_client_state := x\<rparr>) = base R v"
  by (simp add: base_defs)

lemma base_retry [simp]: "base R (v\<lparr>v_connect_retry_info := x\<rparr>) = base R v"
  by (simp add: base_defs)

lemma state_ok_fields [simp]:
  "state_ok ts s (v\<lparr>v_out := x1\<rparr>) = state_ok ts s v"
  "state_ok ts s (v\<lparr>v_pending_error := x2\<rparr>) = state_ok ts s v"
  "state_ok ts s (v\<lparr>v_network_changed_before_recovery := x3\<rparr>) = state_ok ts s v"
  "state_ok ts s (v\<lparr>v_ping_failure_induces_location_unavailable := x4\<rparr>) = state_ok ts s v"
  "state_ok ts s (v\<lparr>v_connect_retry_info := x5\<rparr>) = state_ok ts s v"
  "state_ok ts s (v\<lparr>v_postponed_requests := x6\<rparr>) = state_ok ts s v"
  "state_ok ts s (v\<lparr>v_bypassed_connection_ids := x7\<rparr>) = state_ok ts s v"
  "state_ok ts s (v\<lparr>v_postponement_window_timer := x8\<rparr>) = state_ok ts s v"
  by (simp_all add: state_ok_def off_def queued_def attempt_scheduled_def)

lemma emit_ok [simp]: "base R (emit e v) = base R v" "state_ok ts s (emit e v) = state_ok ts s v"
  by (simp_all add: emit_def)

lemma stop_pinging_base: "base R v \<Longrightarrow> base R (stop_pinging v)"
  by (auto simp: stop_pinging_def emit_def base_defs Let_def split: option.splits)

lemma disconnect_client_base [simp]: "base R (disconnect_client v) = base R v"
  by (simp add: disconnect_client_def emit_def split: client_connection_state.splits)

lemma vpn_disconnect_base: "base R v \<Longrightarrow> base R (vpn_disconnect v)"
  by (simp add: vpn_disconnect_def stop_pinging_base)

lemma stop_pinging_fields [simp]:
  "v_client_state (stop_pinging v) = v_client_state v"
  "\<not> v_pinger (stop_pinging v)"
  "v_selected_endpoint (stop_pinging v) = v_selected_endpoint v"
  "v_executor_running (stop_pinging v) = v_executor_running v"
  "v_recovery (stop_pinging v) = v_recovery v"
  "v_upstream_config (stop_pinging v) = v_upstream_config v"
  "v_pending_error (stop_pinging v) = v_pending_error v"
  "v_connected_once (stop_pinging v) = v_connected_once v"
  "v_connect_retry_info (stop_pinging v) = v_connect_retry_info v"
  by (simp_all add: stop_pinging_def emit_def Let_def)

lemma disconnect_client_fields [simp]:
  "v_client_state (disconnect_client v) = CLIS_DISCONNECTED"
  "v_pinger (disconnect_client v) = v_pinger v"
  "v_selected_endpoint (disconnect_client v) = v_selected_endpoint v"
  "v_executor_running (disconnect_client v) = v_executor_running v"
  "v_recovery (disconnect_client v) = v_recovery v"
  "v_upstream_config (disconnect_client v) = v_upstream_config v"
  "v_pending_error (disconnect_client v) = v_pending_error v"
  "v_connected_once (disconnect_client v) = v_connected_once v"
  "v_ping_barrier (disconnect_client v) = v_ping_barrier v"
  "v_connect_retry_info (disconnect_client v) = v_connect_retry_info v"
  by (simp_all add: disconnect_client_def emit_def split: client_connection_state.splits)

lemma vpn_disconnect_fields [simp]:
  "off (vpn_disconnect v)"
  "v_selected_endpoint (vpn_disconnect v) = v_selected_endpoint v"
  "v_executor_running (vpn_disconnect v) = v_executor_running v"
  "v_recovery (vpn_disconnect v) = v_recovery v"
  "v_upstream_config (vpn_disconnect v) = v_upstream_config v"
  "v_pending_error (vpn_disconnect v) = v_pending_error v"
  "v_connected_once (vpn_disconnect v) = v_connected_once v"
  "v_connect_retry_info (vpn_disconnect v) = v_connect_retry_info v"
  by (simp_all add: vpn_disconnect_def off_def)

lemma queued_frame [simp]:
  "queued (emit e v) = queued v" "queued (stop_pinging v) = queued v"
  "queued (disconnect_client v) = queued v" "queued (vpn_disconnect v) = queued v"
  by (simp_all add: queued_def)

lemma base_not_pinging: "base R v \<Longrightarrow> \<not> v_pinger v \<Longrightarrow> v_ping_barrier v = None"
  by (auto simp: base_def ping_ok_def split: option.splits)

subsection \<open>Submitting and cancelling\<close>

lemma submit_queue:
  "set (el_task_queue (snd (vpn_event_loop_submit t L))) \<subseteq> set (el_task_queue L) \<union> {(el_next_task_id L, t)}"
  "el_deferred_task_queue (snd (vpn_event_loop_submit t L)) = el_deferred_task_queue L"
  by (cases "el_state L"; auto simp: el_op_defs Let_def)+

lemma submit_base:
  assumes "base R v" and "task_ok R t" and "t = RetryConnectTask \<longrightarrow> v_ping_barrier v = None"
  shows "base R (vpn_submit t v)"
proof -
  let ?L = "snd (vpn_event_loop_submit t (v_loop v))"
  have sub: "x \<in> set (el_task_queue ?L) \<Longrightarrow> x \<in> set (el_task_queue (v_loop v)) \<or> x = (el_next_task_id (v_loop v), t)" for x
    using submit_queue(1) [of t "v_loop v"] by auto
  have 1: "handles_ok (vpn_submit t v)"
    using assms(1) submit_frame(1) [of t "v_loop v"]
    by (fastforce simp: base_def handles_ok_def vpn_submit_def deferred_ids_def submit_queue(2) dest!: sub)
  have 2: "ping_ok (vpn_submit t v)"
    using assms submit_frame(1) [of t "v_loop v"]
    by (fastforce simp: base_def ping_ok_def vpn_submit_def dest!: sub split: option.splits)
  have 3: "config_ok R (vpn_submit t v)"
    using assms(1,2)
    by (auto simp: base_def config_ok_def vpn_submit_def queued_def list_all_iff dest!: sub split: option.splits)
  show ?thesis
    using assms(1) 1 2 3
    by (simp add: base_def requests_ok_def deferred_ok_def vpn_submit_def submit_queue(2))
qed

lemma cancel_queues:
  "subseq (el_task_queue (auto_task_reset h L)) (el_task_queue L)"
  "subseq (el_deferred_task_queue (auto_task_reset h L)) (el_deferred_task_queue L)"
  "el_next_task_id (auto_task_reset h L) = el_next_task_id L"
  "el_state (auto_task_reset h L) = el_state L"
proof -
  have "subseq (erase_id i xs) xs" for i and xs :: "(task_id \<times> 'a) list"
    by (induction xs) auto
  then show "subseq (el_task_queue (auto_task_reset h L)) (el_task_queue L)"
    "subseq (el_deferred_task_queue (auto_task_reset h L)) (el_deferred_task_queue L)"
    "el_next_task_id (auto_task_reset h L) = el_next_task_id L"
    "el_state (auto_task_reset h L) = el_state L"
    by (cases h; simp add: auto_task_reset_def el_op_defs)+
qed

text \<open>Dropping tasks of the loop, and clearing handles, keeps what holds in every state.\<close>

lemma base_drop:
  assumes "base R v" and "subseq (el_task_queue L) (el_task_queue (v_loop v))"
    and "subseq (el_deferred_task_queue L) (el_deferred_task_queue (v_loop v))"
    and "el_next_task_id L = el_next_task_id (v_loop v)"
  shows "base R (v\<lparr>v_loop := L\<rparr>)"
proof -
  have q: "x \<in> set (el_task_queue L) \<Longrightarrow> x \<in> set (el_task_queue (v_loop v))" for x
    using subseq_set [OF assms(2)] by auto
  have d: "x \<in> set (el_deferred_task_queue L) \<Longrightarrow> x \<in> set (el_deferred_task_queue (v_loop v))" for x
    using subseq_set [OF assms(3)] by auto
  have "handles_ok (v\<lparr>v_loop := L\<rparr>)"
    using assms(1,4) by (fastforce simp: base_def handles_ok_def deferred_ids_def dest: q d)
  moreover have "ping_ok (v\<lparr>v_loop := L\<rparr>)"
    using assms(1,4) by (auto simp: base_def ping_ok_def dest: q)
  moreover have "config_ok R (v\<lparr>v_loop := L\<rparr>)"
    using assms(1) by (auto simp: base_def config_ok_def queued_def list_all_iff dest: q)
  moreover have "deferred_ok (v\<lparr>v_loop := L\<rparr>)"
    using assms(1) by (auto simp: base_def deferred_ok_def dest: d)
  ultimately show ?thesis
    using assms(1) by (simp add: base_def requests_ok_def)
qed

lemmas base_cancel = base_drop [OF _ cancel_queues(1-3)]

lemma queued_cancel: "subseq (queued (v\<lparr>v_loop := auto_task_reset h (v_loop v)\<rparr>)) (queued v)"
  by (simp add: queued_def cancel_queues(1) subseq_map)

lemma base_recovery:
  assumes "base R v" and "rec_attempts r \<le> cfg_recovery_attempts (v_upstream_config v)"
    and "\<And>i. rec_task r = Some i \<Longrightarrow> i < el_next_task_id (v_loop v)"
  shows "base R (v\<lparr>v_recovery := r\<rparr>)"
  using assms by (simp add: base_defs)

lemma clear_recovery_base: "base R v \<Longrightarrow> base R (clear_recovery v)"
  unfolding clear_recovery_def by (drule base_cancel, erule base_recovery) (simp_all add: recovery_info_init_def)

lemma clear_recovery_fields [simp]:
  "v_client_state (clear_recovery v) = v_client_state v"
  "v_pinger (clear_recovery v) = v_pinger v"
  "v_selected_endpoint (clear_recovery v) = v_selected_endpoint v"
  "v_executor_running (clear_recovery v) = v_executor_running v"
  "v_recovery (clear_recovery v) = recovery_info_init"
  "v_pending_error (clear_recovery v) = v_pending_error v"
  "v_connected_once (clear_recovery v) = v_connected_once v"
  "off (clear_recovery v) = off v"
  "rec_attempts recovery_info_init = 0"
  by (simp_all add: clear_recovery_def recovery_info_init_def off_def)

lemma clear_recovery_queued: "subseq (queued (clear_recovery v)) (queued v)"
  using queued_cancel by (simp add: clear_recovery_def queued_def)

text \<open>What dropping tasks does to the tasks the states speak about.\<close>

lemma subseq_is_connect:
  "subseq xs ys \<Longrightarrow> length (filter is_connect xs) \<le> length (filter is_connect ys)"
  by (rule list_emb_length [OF subseq_filter])

lemma subseq_no_connect:
  "subseq xs ys \<Longrightarrow> filter is_connect ys = [] \<Longrightarrow> filter is_connect xs = []"
  using subseq_is_connect [of xs ys] by simp

lemma state_ok_disconnected_drop:
  assumes "state_ok [] VPN_SS_DISCONNECTED v" and "subseq (queued v') (queued v)"
    and "v_executor_running v' = v_executor_running v" and "off v \<Longrightarrow> off v'"
    and "rec_attempts (v_recovery v') = 0"
  shows "state_ok [] VPN_SS_DISCONNECTED v'"
  using assms subseq_is_connect [OF assms(2)] subseq_no_connect [OF assms(2)]
  by (auto simp: state_ok_def)

subsection \<open>Recovery\<close>

lemma initiate_recovery_fields [simp]:
  "v_client_state (initiate_recovery v) = v_client_state v"
  "v_pinger (initiate_recovery v) = v_pinger v"
  "v_selected_endpoint (initiate_recovery v) = v_selected_endpoint v"
  "v_executor_running (initiate_recovery v) = v_executor_running v"
  "v_pending_error (initiate_recovery v) = v_pending_error v"
  "v_connected_once (initiate_recovery v) = v_connected_once v"
  "off (initiate_recovery v) = off v"
  by (simp_all add: initiate_recovery_def vpn_submit_def Let_def off_def split: prod.splits)

lemma schedule_queue:
  assumes "el_state L \<noteq> ELS_BASE_EXITED"
  shows "vpn_event_loop_schedule t L = (el_next_task_id L,
    L\<lparr>el_next_task_id := el_next_task_id L + 1,
      el_deferred_task_queue := el_deferred_task_queue L @ [(el_next_task_id L, t)]\<rparr>)"
  using assms by (cases "el_state L") (simp_all add: vpn_event_loop_schedule_def Let_def)

lemma submit_queued:
  "el_state (v_loop v) \<noteq> ELS_BASE_EXITED \<Longrightarrow> queued (vpn_submit t v) = queued v @ [t]"
  by (cases "el_state (v_loop v)") (simp_all add: vpn_submit_def queued_def el_op_defs Let_def)

text \<open>Scheduling, when the attempts are not used up.\<close>

lemma initiate_recovery_schedules:
  assumes "\<not> rec_attempts (v_recovery v) \<ge> cfg_recovery_attempts (v_upstream_config v)"
    and "el_state (v_loop v) \<noteq> ELS_BASE_EXITED" and "0 \<le> el_next_task_id (v_loop v)"
  shows "\<exists>tm timer. (v_postponement_window_timer v \<longrightarrow> timer) \<and> initiate_recovery v =
    v\<lparr>v_loop := auto_task_reset (rec_task (v_recovery v)) (snd (vpn_event_loop_schedule DoRecoveryTask (v_loop v))),
      v_postponement_window_timer := timer,
      v_recovery := \<lparr>rec_time = tm, rec_attempts = rec_attempts (v_recovery v) + 1,
                     rec_task = Some (el_next_task_id (v_loop v))\<rparr>\<rparr>"
  using assms
  by (intro exI [of _ "next_recovery_time v"] exI [of _ "first_attempt v \<or> v_postponement_window_timer v"])
    (simp add: initiate_recovery_def Let_def schedule_queue make_auto_task_id_def)

lemma schedule_base:
  assumes "t = DoRecoveryTask" and "base R v" and "el_state (v_loop v) \<noteq> ELS_BASE_EXITED" and "el_inv (v_loop v)"
  shows "base R (v\<lparr>v_loop := snd (vpn_event_loop_schedule t (v_loop v))\<rparr>)"
proof -
  have "j < el_next_task_id (v_loop v)" if "v_update_exclusions_task v = Some j" for j
    using assms(2) that by (simp add: base_def handles_ok_def)
  then show ?thesis
    using assms(1-3) by (fastforce simp: base_defs schedule_queue deferred_ids_def)
qed

lemma initiate_recovery_base:
  assumes "base R v" and "el_state (v_loop v) \<noteq> ELS_BASE_EXITED" and "el_inv (v_loop v)"
  shows "base R (initiate_recovery v)"
proof (cases "rec_attempts (v_recovery v) \<ge> cfg_recovery_attempts (v_upstream_config v)")
  case True
  then show ?thesis using assms by (simp add: initiate_recovery_def submit_base task_ok_def)
next
  case False
  have "0 \<le> el_next_task_id (v_loop v)" using assms(3) by (simp add: el_inv_def)
  from initiate_recovery_schedules [OF False assms(2) this] obtain tm timer where
    t: "v_postponement_window_timer v \<longrightarrow> timer" and eq: "initiate_recovery v =
      v\<lparr>v_loop := auto_task_reset (rec_task (v_recovery v)) (snd (vpn_event_loop_schedule DoRecoveryTask (v_loop v))),
        v_postponement_window_timer := timer,
        v_recovery := \<lparr>rec_time = tm, rec_attempts = rec_attempts (v_recovery v) + 1,
                       rec_task = Some (el_next_task_id (v_loop v))\<rparr>\<rparr>" by blast
  let ?v1 = "v\<lparr>v_loop := snd (vpn_event_loop_schedule DoRecoveryTask (v_loop v))\<rparr>"
  let ?v2 = "?v1\<lparr>v_loop := auto_task_reset (rec_task (v_recovery v)) (v_loop ?v1)\<rparr>"
  have "base R ?v2"
    by (rule base_cancel) (rule schedule_base [OF refl assms])
  then have "base R (?v2\<lparr>v_postponement_window_timer := timer\<rparr>)"
    using t by (auto simp: base_defs)
  moreover have "rec_attempts (v_recovery v) + 1 \<le> cfg_recovery_attempts (v_upstream_config v)"
    using False by (simp add: inc_le not_le)
  moreover have "el_next_task_id (v_loop v) < el_next_task_id (v_loop ?v2)"
    using assms(2) by (simp add: schedule_queue cancel_queues(3))
  ultimately have "base R (?v2\<lparr>v_postponement_window_timer := timer,
      v_recovery := \<lparr>rec_time = tm, rec_attempts = rec_attempts (v_recovery v) + 1,
                     rec_task = Some (el_next_task_id (v_loop v))\<rparr>\<rparr>)"
    by (intro base_recovery) simp_all
  then show ?thesis by (simp add: eq)
qed

lemma cancel_keeps_other:
  assumes "(i, t) \<in> set (el_deferred_task_queue L)" and "h \<noteq> Some i"
  shows "(i, t) \<in> set (el_deferred_task_queue (auto_task_reset h L))"
proof -
  have "i \<noteq> j \<Longrightarrow> (i, t) \<in> set xs \<Longrightarrow> (i, t) \<in> set (erase_id j xs)" for j xs
    by (induction xs) auto
  with assms show ?thesis
    by (cases h) (auto simp: auto_task_reset_def el_op_defs)
qed

lemma initiate_recovery_armed:
  assumes "base R v" and "el_state (v_loop v) \<noteq> ELS_BASE_EXITED" and "el_inv (v_loop v)"
  shows "attempt_scheduled (initiate_recovery v) \<or> FailedRecoveryTask \<in> set (queued (initiate_recovery v))"
proof (cases "rec_attempts (v_recovery v) \<ge> cfg_recovery_attempts (v_upstream_config v)")
  case True
  then show ?thesis using assms(2) by (simp add: initiate_recovery_def submit_queued)
next
  case False
  have pos: "0 \<le> el_next_task_id (v_loop v)" using assms(3) by (simp add: el_inv_def)
  have "rec_task (v_recovery v) \<noteq> Some (el_next_task_id (v_loop v))"
    using assms(1) by (auto simp: base_def handles_ok_def)
  then have "(el_next_task_id (v_loop v), DoRecoveryTask) \<in> set (el_deferred_task_queue
      (auto_task_reset (rec_task (v_recovery v)) (snd (vpn_event_loop_schedule DoRecoveryTask (v_loop v)))))"
    using assms(2) by (intro cancel_keeps_other) (simp_all add: schedule_queue)
  then show ?thesis
    using initiate_recovery_schedules [OF False assms(2) pos] by (auto simp: attempt_scheduled_def)
qed

lemma initiate_recovery_no_connect:
  assumes "filter is_connect (queued v) = []" and "el_state (v_loop v) \<noteq> ELS_BASE_EXITED"
    and "el_inv (v_loop v)"
  shows "filter is_connect (queued (initiate_recovery v)) = []"
proof (cases "rec_attempts (v_recovery v) \<ge> cfg_recovery_attempts (v_upstream_config v)")
  case True
  then show ?thesis using assms by (simp add: initiate_recovery_def submit_queued is_connect_def)
next
  case False
  have "0 \<le> el_next_task_id (v_loop v)" using assms(3) by (simp add: el_inv_def)
  from initiate_recovery_schedules [OF False assms(2) this]
  have "subseq (queued (initiate_recovery v)) (queued v)"
    using assms(2) cancel_queues(1) [of "rec_task (v_recovery v)" "snd (vpn_event_loop_schedule DoRecoveryTask (v_loop v))"]
    by (auto simp: queued_def schedule_queue subseq_map)
  then show ?thesis using assms(1) by (rule subseq_no_connect)
qed

subsection \<open>The actions\<close>

text \<open>What an action needs of the loop: it is running, so nothing submitted is refused.\<close>

definition loop_ok :: "vpn \<Rightarrow> bool" where
  "loop_ok v \<longleftrightarrow> el_inv (v_loop v) \<and> el_state (v_loop v) \<noteq> ELS_BASE_EXITED"

lemma queue_ids_bound:
  "el_inv L \<Longrightarrow> (i, t) \<in> set (el_task_queue L) \<Longrightarrow> i < el_next_task_id L"
  using issued_bound(2) [of L i] by (force simp: queue_ids_def)

lemma run_ping_result:
  assumes "base R v" and "el_inv (v_loop v)" and "v' = m_ctx (run_ping d m)" and "v = m_ctx m"
  shows "base R v'" and "v_client_state v' = v_client_state v"
    and "v_selected_endpoint v' = None" and "v_executor_running v' = v_executor_running v"
    and "subseq (queued v') (queued v)" and "rec_attempts (v_recovery v') = rec_attempts (v_recovery v)"
proof -
  define v1 where "v1 = (start_pinger (stop_pinging v))\<lparr>v_pending_error := None, v_selected_endpoint := None\<rparr>"
  have "base R (stop_pinging v)" using assms(1) by (rule stop_pinging_base)
  then have b1: "base R v1"
    using queue_ids_bound [OF assms(2)] by (auto simp: v1_def start_pinger_def emit_def base_defs Let_def)
  have f1: "v_client_state v1 = v_client_state v" "v_selected_endpoint v1 = None"
    "v_executor_running v1 = v_executor_running v" "queued v1 = queued v" "v_recovery v1 = v_recovery v"
    by (simp_all add: v1_def start_pinger_def emit_def queued_def Let_def)
  have v': "v' = (case rec_task (v_recovery v1) of None \<Rightarrow> v1
      | Some i \<Rightarrow> v1\<lparr>v_loop := auto_task_reset (Some i) (v_loop v1),
          v_recovery := (v_recovery v1)\<lparr>rec_task := None,
            rec_time := (rec_time (v_recovery v1))\<lparr>rt_attempt_start_ts := vpn_now v1\<rparr>\<rparr>\<rparr>)"
    unfolding assms(3,4) v1_def run_ping_def on_ctx_simps(1) Let_def ..
  have "base R v' \<and> v_client_state v' = v_client_state v \<and> v_selected_endpoint v' = None \<and>
      v_executor_running v' = v_executor_running v \<and> subseq (queued v') (queued v) \<and>
      rec_attempts (v_recovery v') = rec_attempts (v_recovery v)"
  proof (cases "rec_task (v_recovery v1)")
    case None
    with b1 f1 v' show ?thesis by simp
  next
    case (Some i)
    note v'' = v' [unfolded Some option.case]
    have "base R (v1\<lparr>v_loop := auto_task_reset (Some i) (v_loop v1)\<rparr>)" using b1 by (rule base_cancel)
    then have "base R v'"
      unfolding v'' by (rule base_recovery) (use b1 in \<open>simp_all add: base_def config_ok_def\<close>)
    moreover have "subseq (queued v') (queued v)"
      using queued_cancel [where v = v1 and h = "Some i"] f1(4) by (simp add: v'' queued_def)
    ultimately show ?thesis using f1(1-3,5) unfolding v'' by simp
  qed
  then show "base R v'" "v_client_state v' = v_client_state v" "v_selected_endpoint v' = None"
    "v_executor_running v' = v_executor_running v" "subseq (queued v') (queued v)"
    "rec_attempts (v_recovery v') = rec_attempts (v_recovery v)"
    by simp_all
qed

lemma run_client_connect_result:
  assumes "base R v" and "v_selected_endpoint v \<noteq> None" and "el_state (v_loop v) \<noteq> ELS_BASE_EXITED"
    and "v_client_state v = CLIS_DISCONNECTED" and "v' = run_client_connect t v"
  shows "base R v'" and "v_client_state v' \<noteq> CLIS_CONNECTED" and "v_selected_endpoint v' \<noteq> None"
    and "v_executor_running v' = v_executor_running v"
    and "filter is_connect (queued v') = filter is_connect (queued v)"
    and "RetryConnectTask \<in> set (queued v') \<longleftrightarrow> RetryConnectTask \<in> set (queued v)"
proof -
  obtain ep quic where mk: "make_client_upstream_config v = Some (ep, quic)"
    using assms(2) by (auto simp: make_client_upstream_config_def split: option.splits)
  let ?v1 = "emit (ClientConnect ep quic t) v"
  let ?e = "env_connect_result (v_env v) (length (v_out v))"
  have "base R v' \<and> v_client_state v' \<noteq> CLIS_CONNECTED \<and> v_selected_endpoint v' \<noteq> None \<and>
      v_executor_running v' = v_executor_running v \<and>
      filter is_connect (queued v') = filter is_connect (queued v) \<and>
      (RetryConnectTask \<in> set (queued v') \<longleftrightarrow> RetryConnectTask \<in> set (queued v))"
  proof (cases "err_code ?e = VPN_EC_NOERROR")
    case True
    then have "v' = ?v1\<lparr>v_client_state := CLIS_CONNECTING, v_pending_error := None\<rparr>"
      using mk assms(5) by (simp add: run_client_connect_def Let_def)
    with assms(1,2) show ?thesis by (simp add: emit_def queued_def)
  next
    case False
    then have v': "v' = vpn_submit ClientDisconnectedTask (?v1\<lparr>v_pending_error := Some ?e\<rparr>)"
      using mk assms(5) by (simp add: run_client_connect_def Let_def)
    have "base R v'" unfolding v' by (rule submit_base) (use assms(1) in \<open>simp_all add: task_ok_def\<close>)
    moreover have "queued v' = queued v @ [ClientDisconnectedTask]"
      using assms(3) by (simp add: v' submit_queued) (simp add: queued_def)
    moreover have "v_client_state v' = CLIS_DISCONNECTED" "v_selected_endpoint v' = v_selected_endpoint v"
      "v_executor_running v' = v_executor_running v"
      using assms(4) by (simp_all add: v' vpn_submit_def emit_def)
    ultimately show ?thesis using assms(2) by (simp add: is_connect_def)
  qed
  then show "base R v'" "v_client_state v' \<noteq> CLIS_CONNECTED" "v_selected_endpoint v' \<noteq> None"
    "v_executor_running v' = v_executor_running v"
    "filter is_connect (queued v') = filter is_connect (queued v)"
    "RetryConnectTask \<in> set (queued v') \<longleftrightarrow> RetryConnectTask \<in> set (queued v)"
    by simp_all
qed

text \<open>The two ways of going to rest.\<close>

lemma do_disconnect_result:
  assumes "base R v"
  shows "base R (vpn_disconnect (clear_recovery v))" and "off (vpn_disconnect (clear_recovery v))"
    and "rec_attempts (v_recovery (vpn_disconnect (clear_recovery v))) = 0"
    and "subseq (queued (vpn_disconnect (clear_recovery v))) (queued v)"
    and "v_executor_running (vpn_disconnect (clear_recovery v)) = v_executor_running v"
  using assms by (simp_all add: vpn_disconnect_base clear_recovery_base clear_recovery_queued)

lemma prepare_for_recovery_result:
  assumes "base R (m_ctx m)" and "loop_ok (m_ctx m)" and "v' = m_ctx (prepare_for_recovery d m)"
    and "filter is_connect (queued (m_ctx m)) = []" and "v_executor_running (m_ctx m)"
    and "d \<noteq> NetArg VPN_NS_NOT_CONNECTED"
  shows "base R v'" and "state_ok [] VPN_SS_WAITING_RECOVERY v'"
proof -
  let ?v0 = "vpn_disconnect (m_ctx m)"
  let ?v1 = "initiate_recovery ?v0"
  have b0: "base R ?v0" using assms(1) by (rule vpn_disconnect_base)
  have L: "el_inv (v_loop ?v0)" "el_state (v_loop ?v0) \<noteq> ELS_BASE_EXITED"
    using assms(2) by (simp_all add: loop_ok_def)
  have b1: "base R ?v1" by (rule initiate_recovery_base [OF b0 L(2,1)])
  have "state_ok [] VPN_SS_WAITING_RECOVERY ?v1"
    using initiate_recovery_armed [OF b0 L(2,1)] initiate_recovery_no_connect [OF _ L(2,1)] assms(4,5)
    by (simp add: state_ok_def)
  moreover have "\<exists>e. v' = ?v1\<lparr>v_pending_error := e\<rparr>"
  proof (cases "as_error d")
    case None
    then show ?thesis unfolding assms(3)
      by (intro exI [of _ "v_pending_error ?v1"]) (simp add: prepare_for_recovery_def Let_def)
  next
    case (Some e)
    have "d = NetArg s \<Longrightarrow> err_code e = 0" for s
      using Some assms(6) by (cases s) (auto simp: as_error_def network_state_code_def)
    then have "err_code e \<noteq> VPN_EC_NOERROR \<Longrightarrow> flag_ub (case d of NetArg _ \<Rightarrow> True | _ \<Rightarrow> False) v = v" for v
      by (cases d) (auto simp: flag_ub_def)
    then show ?thesis unfolding assms(3)
      by (intro exI [of _ "if v_pending_error ?v1 = None \<and> err_code e \<noteq> VPN_EC_NOERROR then Some e else v_pending_error ?v1"])
        (simp add: prepare_for_recovery_def Let_def Some)
  qed
  ultimately show "base R v'" "state_ok [] VPN_SS_WAITING_RECOVERY v'"
    using b1 by auto
qed

lemma complete_connect_result:
  assumes "base R (m_ctx m)" and "v' = m_ctx (complete_connect d m)"
  shows "base R v'" and "rec_attempts (v_recovery v') = 0" and "subseq (queued v') (queued (m_ctx m))"
    and "v_executor_running v' = v_executor_running (m_ctx m)"
    and "v_selected_endpoint v' = v_selected_endpoint (m_ctx m)"
    and "as_error d = None \<Longrightarrow> v_client_state v' = v_client_state (m_ctx m)"
proof -
  let ?v = "m_ctx m"
  define v1 where "v1 = (case as_error d of
      Some e \<Rightarrow> (if v_pending_error ?v = None \<and> err_code e \<noteq> VPN_EC_NOERROR
                 then (vpn_disconnect ?v)\<lparr>v_pending_error := Some e\<rparr> else ?v)
    | None \<Rightarrow> ?v)"
  have b1: "base R v1" and f1: "queued v1 = queued ?v" "v_executor_running v1 = v_executor_running ?v"
      "v_selected_endpoint v1 = v_selected_endpoint ?v"
    using assms(1) by (auto simp: v1_def vpn_disconnect_base queued_def split: option.splits)
  have c1: "as_error d = None \<Longrightarrow> v_client_state v1 = v_client_state ?v" by (simp add: v1_def)
  define v2 where "v2 = (if v_pending_error v1 \<noteq> None \<and> \<not> is_fatal_error (m\<lparr>m_ctx := v1\<rparr>) d \<and>
        no_connect_attempts (m\<lparr>m_ctx := v1\<rparr>) NullArg
      then v1\<lparr>v_pending_error := Some (VpnError VPN_EC_INITIAL_CONNECT_FAILED
             (Some ''Number of connection attempts exceeded''))\<rparr> else v1)"
  have b2: "base R v2" and f2: "queued v2 = queued ?v" "v_executor_running v2 = v_executor_running ?v"
      "v_selected_endpoint v2 = v_selected_endpoint ?v" "v_client_state v2 = v_client_state v1"
    using b1 f1 by (simp_all add: v2_def queued_def)
  define v3 where "v3 = clear_recovery v2"
  have v': "v' = (if v_pending_error v3 = None then emit ClientHealthCheck v3 else v3)"
    unfolding assms(2) complete_connect_def Let_def v1_def [symmetric] v2_def [symmetric] v3_def [symmetric]
    by simp
  have b3: "base R v3" and q3: "subseq (queued v3) (queued ?v)"
    using b2 clear_recovery_queued [of v2] f2(1) by (simp_all add: v3_def clear_recovery_base)
  have f3: "rec_attempts (v_recovery v3) = 0" "v_executor_running v3 = v_executor_running ?v"
      "v_selected_endpoint v3 = v_selected_endpoint ?v" "v_client_state v3 = v_client_state v1"
    using f2 by (simp_all add: v3_def)
  show "base R v'" "subseq (queued v') (queued ?v)" using b3 q3 by (simp_all add: v')
  show "rec_attempts (v_recovery v') = 0" "v_executor_running v' = v_executor_running ?v"
    "v_selected_endpoint v' = v_selected_endpoint ?v"
    using f3 by (simp_all add: v' emit_def)
  show "as_error d = None \<Longrightarrow> v_client_state v' = v_client_state ?v"
    using f3(4) c1 by (simp add: v' emit_def)
qed

lemma retry_connect_result:
  assumes "base R (m_ctx m)" and "loop_ok (m_ctx m)" and "v' = m_ctx (retry_connect d m)"
    and "filter is_connect (queued (m_ctx m)) = []" and "v_executor_running (m_ctx m)"
  shows "base R v'" and "state_ok [] VPN_SS_CONNECTING v'"
proof -
  define w where "w = (case v_connect_retry_info (m_ctx m) of
      ConnectSeveralAttempts n \<Rightarrow> (m_ctx m)\<lparr>v_connect_retry_info := ConnectSeveralAttempts (n - 1)\<rparr>
    | ConnectFallIntoRecovery \<Rightarrow> m_ctx m)"
  have w: "base R w" "queued w = queued (m_ctx m)" "v_executor_running w = v_executor_running (m_ctx m)"
      "loop_ok w"
    using assms(1,2) by (simp_all add: w_def queued_def loop_ok_def split: connect_retry_info.splits)
  have v': "v' = vpn_submit RetryConnectTask (vpn_disconnect w)"
    by (simp add: assms(3) retry_connect_def Let_def w_def fsm_assert_def split: connect_retry_info.splits)
  let ?v0 = "vpn_disconnect w"
  have b0: "base R ?v0" by (rule vpn_disconnect_base) (rule w)
  have "v_ping_barrier ?v0 = None"
    using base_not_pinging [OF b0] vpn_disconnect_fields(1) by (auto simp: off_def)
  then show "base R v'" unfolding v' by (intro submit_base b0) (simp_all add: task_ok_def)
  have "queued v' = queued (m_ctx m) @ [RetryConnectTask]"
    using w(2,4) by (simp add: v' submit_queued loop_ok_def)
  moreover have "v_client_state v' = CLIS_DISCONNECTED" "v_executor_running v' = v_executor_running (m_ctx m)"
    using vpn_disconnect_fields(1) [of w] w(3) by (auto simp: v' vpn_submit_def off_def)
  ultimately show "state_ok [] VPN_SS_CONNECTING v'"
    using assms(4,5) by (simp add: state_ok_def is_connect_def)
qed

lemma finalize_recovery_result:
  assumes "base R (m_ctx m)" and "v' = m_ctx (finalize_recovery d m)"
  shows "base R v'" and "v_client_state v' = v_client_state (m_ctx m)"
    and "v_selected_endpoint v' = v_selected_endpoint (m_ctx m)"
    and "v_executor_running v' = v_executor_running (m_ctx m)"
    and "subseq (queued v') (queued (m_ctx m))"
proof -
  let ?v1 = "stop_pinging (clear_recovery (emit ClientUpdateBypassIp (m_ctx m)))"
  have v': "v' = reset_bypassed_connections (complete_postponed_requests (?v1\<lparr>v_postponement_window_timer := False\<rparr>))"
    by (simp add: assms(2) finalize_recovery_def Let_def)
  have b: "base R ?v1" by (intro stop_pinging_base clear_recovery_base) (use assms(1) in simp)
  have eq: "\<exists>out. v' = ?v1\<lparr>v_postponement_window_timer := False, v_postponed_requests := [], v_out := out,
      v_bypassed_connection_ids := []\<rparr>"
    unfolding v' reset_bypassed_connections_def complete_postponed_requests_def complete_all_out reset_all_out
    by (auto intro!: exI)
  then show "base R v'" using b by (auto simp: base_defs)
  show "v_client_state v' = v_client_state (m_ctx m)" "v_selected_endpoint v' = v_selected_endpoint (m_ctx m)"
    "v_executor_running v' = v_executor_running (m_ctx m)"
    using eq by (auto simp: emit_def)
  have "queued v' = queued (clear_recovery (emit ClientUpdateBypassIp (m_ctx m)))"
    using eq by (auto simp: queued_def)
  then show "subseq (queued v') (queued (m_ctx m))"
    using clear_recovery_queued [of "emit ClientUpdateBypassIp (m_ctx m)"] by simp
qed

end
