(* ===== verification/Vpn_Events.thy ===== *)
theory Vpn_Events
  imports Vpn_Invariant
begin

section \<open>The events of the session keep its invariant\<close>

text \<open>
  The transition table unfolded, one equation per event (the lemmas \<^verbatim>\<open>on_*\<close>), and for each event the lemma that
  \<^verbatim>\<open>perform_transition\<close> establishes the invariant (\<^verbatim>\<open>inv_*\<close>). The premises are what the callers of
  the event establish; they are weaker than the invariant where a caller changes the session first.
\<close>

subsection \<open>Dispatch\<close>

text \<open>An entry that enters a new state and reports it, and one that stays.\<close>

definition enter :: "fsm_state \<Rightarrow> vpn_action \<Rightarrow> vpn_action" where
  "enter t a d m =
     raise_state d ((a d (m\<lparr>m_recursive := True\<rparr>))\<lparr>m_current_state := t, m_recursive := False\<rparr>)"

definition stay :: "vpn_action \<Rightarrow> vpn_action" where
  "stay a d m = (a d (m\<lparr>m_recursive := True\<rparr>))\<lparr>m_recursive := False\<rparr>"

lemma raise_state_frame [simp]:
  "m_recursive (raise_state d m) = m_recursive m"
  "m_initial_state (raise_state d m) = m_initial_state m"
  "m_current_state (raise_state d m) = m_current_state m"
  "m_asserted (raise_state d m) = m_asserted m"
  by (simp_all add: raise_state_def)

lemma fire_enter:
  assumes "t \<noteq> SAME_TARGET_STATE"
  shows "(fire_entry (tr s ev c (Some a) t (Some raise_state)) d (m\<lparr>m_recursive := True\<rparr>))\<lparr>m_recursive := False\<rparr>
    = enter t a d m"
  using assms by (simp add: fire_entry_def tr_def enter_def Let_def)

lemma fire_stay:
  "(fire_entry (tr s ev c (Some a) SAME_TARGET_STATE None) d (m\<lparr>m_recursive := True\<rparr>))\<lparr>m_recursive := False\<rparr>
    = stay a d m"
  by (simp add: fire_entry_def tr_def stay_def Let_def)

lemma fire_nothing:
  "\<not> m_recursive m \<Longrightarrow>
   (fire_entry (tr s ev c None SAME_TARGET_STATE None) d (m\<lparr>m_recursive := True\<rparr>))\<lparr>m_recursive := False\<rparr> = m"
  by (simp add: fire_entry_def tr_def Let_def)

lemma enabled_tr:
  "entry_enabled (tr s e c b t a) ev d m \<longleftrightarrow>
     (s = m_current_state m \<or> s = ANY_SOURCE_STATE) \<and> e = ev \<and> (case c of None \<Rightarrow> True | Some g \<Rightarrow> g m d)"
  by (simp add: entry_enabled_def tr_def)

lemma targets_differ [simp]:
  "VPN_SS_DISCONNECTED \<noteq> SAME_TARGET_STATE" "VPN_SS_CONNECTING \<noteq> SAME_TARGET_STATE"
  "VPN_SS_CONNECTED \<noteq> SAME_TARGET_STATE" "VPN_SS_WAITING_RECOVERY \<noteq> SAME_TARGET_STATE"
  "VPN_SS_RECOVERING \<noteq> SAME_TARGET_STATE" "VPN_SS_WAITING_FOR_NETWORK \<noteq> SAME_TARGET_STATE"
  "VPN_SS_DISCONNECTED \<noteq> ANY_SOURCE_STATE" "VPN_SS_CONNECTING \<noteq> ANY_SOURCE_STATE"
  "VPN_SS_CONNECTED \<noteq> ANY_SOURCE_STATE" "VPN_SS_WAITING_RECOVERY \<noteq> ANY_SOURCE_STATE"
  "VPN_SS_RECOVERING \<noteq> ANY_SOURCE_STATE" "VPN_SS_WAITING_FOR_NETWORK \<noteq> ANY_SOURCE_STATE"
  by (simp_all add: SAME_TARGET_STATE_def ANY_SOURCE_STATE_def)

text \<open>Guards do not read the re-entrancy flag.\<close>

lemma guards_frame [simp]:
  "is_fatal_error (m\<lparr>m_recursive := b\<rparr>) d = is_fatal_error m d"
  "need_to_ping_on_recovery (m\<lparr>m_recursive := b\<rparr>) d = need_to_ping_on_recovery m d"
  "fall_into_recovery (m\<lparr>m_recursive := b\<rparr>) d = fall_into_recovery m d"
  "no_connect_attempts (m\<lparr>m_recursive := b\<rparr>) d = no_connect_attempts m d"
  "network_lost (m\<lparr>m_recursive := b\<rparr>) d = network_lost m d"
  "connected_once (m\<lparr>m_recursive := b\<rparr>) d = connected_once m d"
  "can_complete (m\<lparr>m_recursive := b\<rparr>) d = can_complete m d"
  "is_kill_switch_on (m\<lparr>m_recursive := b\<rparr>) d = is_kill_switch_on m d"
  "should_postpone (m\<lparr>m_recursive := b\<rparr>) d = should_postpone m d"
  by (simp_all add: is_fatal_error_def need_to_ping_on_recovery_def fall_into_recovery_def
      no_connect_attempts_def network_lost_def connected_once_def can_complete_def
      is_kill_switch_on_def should_postpone_def get_state_def cong: option.case_cong)

text \<open>The entries of one event, tried in order.\<close>

fun dispatch :: "(vpn, vpn_arg) fsm_transition_table \<Rightarrow> fsm_event \<Rightarrow> vpn_action" where
  "dispatch [] ev d m = m"
| "dispatch (e # es) ev d m =
     (if entry_enabled e ev d (m\<lparr>m_recursive := True\<rparr>)
      then (fire_entry e d (m\<lparr>m_recursive := True\<rparr>))\<lparr>m_recursive := False\<rparr>
      else dispatch es ev d m)"

definition entries_for :: "fsm_event \<Rightarrow> (vpn, vpn_arg) fsm_transition_table" where
  "entries_for ev = filter (\<lambda>e. event e = ev) vpn_transition_table"

lemma vpn_transition_dispatch:
  assumes "\<not> m_recursive m"
  shows "vpn_transition ev d m = dispatch (entries_for ev) ev d m"
proof -
  have "(scan_table es ev d (m\<lparr>m_recursive := True\<rparr>))\<lparr>m_recursive := False\<rparr>
      = dispatch (filter (\<lambda>e. event e = ev) es) ev d m" for es
  proof (induction es)
    case Nil
    with assms show ?case by simp
  next
    case (Cons e es)
    then show ?case
      by (cases "event e = ev") (simp_all add: scan_table_Cons entry_enabled_def del: scan_table.simps(2))
  qed
  with assms show ?thesis by (simp add: vpn_transition_def perform_transition_def entries_for_def)
qed

lemma tr_event [simp]: "event (tr s e c b t a) = e"
  by (simp add: tr_def)

lemmas entries_simps = entries_for_def vpn_table_defs

lemmas dispatch_simps =
  vpn_transition_dispatch dispatch.simps enabled_tr fire_enter fire_stay fire_nothing

lemma entries_DO_CONNECT:
  "entries_for CE_DO_CONNECT =
     [tr VPN_SS_DISCONNECTED CE_DO_CONNECT None (Some run_ping) VPN_SS_CONNECTING (Some raise_state),
      tr ANY_SOURCE_STATE CE_DO_CONNECT None (Some on_wrong_connect_state) VPN_SS_DISCONNECTED (Some raise_state)]"
  by (simp add: entries_simps)

lemma on_DO_CONNECT:
  "\<not> m_recursive m \<Longrightarrow> vpn_transition CE_DO_CONNECT d m =
     (if m_current_state m = VPN_SS_DISCONNECTED then enter VPN_SS_CONNECTING run_ping d m
      else enter VPN_SS_DISCONNECTED on_wrong_connect_state d m)"
  by (simp add: dispatch_simps entries_DO_CONNECT)

lemma entries_RETRY_CONNECT:
  "entries_for CE_RETRY_CONNECT =
     [tr VPN_SS_CONNECTING CE_RETRY_CONNECT None (Some run_ping) SAME_TARGET_STATE None]"
  by (simp add: entries_simps)

lemma on_RETRY_CONNECT:
  "\<not> m_recursive m \<Longrightarrow> vpn_transition CE_RETRY_CONNECT d m =
     (if m_current_state m = VPN_SS_CONNECTING then stay run_ping d m else m)"
  by (simp add: dispatch_simps entries_RETRY_CONNECT)

lemma entries_PING_READY:
  "entries_for CE_PING_READY =
     [tr VPN_SS_CONNECTING CE_PING_READY None (Some connect_client) SAME_TARGET_STATE None,
      tr VPN_SS_RECOVERING CE_PING_READY None (Some reconnect_client) SAME_TARGET_STATE None]"
  by (simp add: entries_simps)

lemma on_PING_READY:
  "\<not> m_recursive m \<Longrightarrow> vpn_transition CE_PING_READY d m =
     (if m_current_state m = VPN_SS_CONNECTING then stay connect_client d m
      else if m_current_state m = VPN_SS_RECOVERING then stay reconnect_client d m else m)"
  by (simp add: dispatch_simps entries_PING_READY)

lemma entries_PING_FAIL:
  "entries_for CE_PING_FAIL =
     [tr VPN_SS_CONNECTING CE_PING_FAIL (Some is_fatal_error) (Some complete_connect) VPN_SS_DISCONNECTED (Some raise_state),
      tr VPN_SS_CONNECTING CE_PING_FAIL (Some fall_into_recovery) (Some prepare_for_recovery) VPN_SS_WAITING_RECOVERY (Some raise_state),
      tr VPN_SS_CONNECTING CE_PING_FAIL (Some no_connect_attempts) (Some complete_connect) VPN_SS_DISCONNECTED (Some raise_state),
      tr VPN_SS_CONNECTING CE_PING_FAIL None (Some retry_connect) SAME_TARGET_STATE None,
      tr VPN_SS_RECOVERING CE_PING_FAIL (Some is_fatal_error) (Some do_disconnect) VPN_SS_DISCONNECTED (Some raise_state),
      tr VPN_SS_RECOVERING CE_PING_FAIL None (Some prepare_for_recovery) VPN_SS_WAITING_RECOVERY (Some raise_state)]"
  by (simp add: entries_simps)

lemma on_PING_FAIL:
  "\<not> m_recursive m \<Longrightarrow> vpn_transition CE_PING_FAIL d m =
     (if m_current_state m = VPN_SS_CONNECTING then
        (if is_fatal_error m d then enter VPN_SS_DISCONNECTED complete_connect d m
         else if fall_into_recovery m d then enter VPN_SS_WAITING_RECOVERY prepare_for_recovery d m
         else if no_connect_attempts m d then enter VPN_SS_DISCONNECTED complete_connect d m
         else stay retry_connect d m)
      else if m_current_state m = VPN_SS_RECOVERING then
        (if is_fatal_error m d then enter VPN_SS_DISCONNECTED do_disconnect d m
         else enter VPN_SS_WAITING_RECOVERY prepare_for_recovery d m)
      else m)"
  by (cases "m_current_state m = VPN_SS_CONNECTING", simp add: dispatch_simps entries_PING_FAIL,
      cases "m_current_state m = VPN_SS_CONNECTED", simp add: dispatch_simps entries_PING_FAIL,
      cases "m_current_state m = VPN_SS_RECOVERING", simp add: dispatch_simps entries_PING_FAIL,
      cases "m_current_state m = VPN_SS_WAITING_RECOVERY", simp add: dispatch_simps entries_PING_FAIL,
      cases "m_current_state m = VPN_SS_WAITING_FOR_NETWORK", simp add: dispatch_simps entries_PING_FAIL,
      simp add: dispatch_simps entries_PING_FAIL)

lemma entries_CLIENT_READY:
  "entries_for CE_CLIENT_READY =
     [tr VPN_SS_CONNECTING CE_CLIENT_READY None (Some complete_connect) VPN_SS_CONNECTED (Some raise_state),
      tr VPN_SS_RECOVERING CE_CLIENT_READY None (Some finalize_recovery) VPN_SS_CONNECTED (Some raise_state)]"
  by (simp add: entries_simps)

lemma on_CLIENT_READY:
  "\<not> m_recursive m \<Longrightarrow> vpn_transition CE_CLIENT_READY d m =
     (if m_current_state m = VPN_SS_CONNECTING then enter VPN_SS_CONNECTED complete_connect d m
      else if m_current_state m = VPN_SS_RECOVERING then enter VPN_SS_CONNECTED finalize_recovery d m
      else m)"
  by (simp add: dispatch_simps entries_CLIENT_READY)

lemma entries_CLIENT_DISCONNECTED:
  "entries_for CE_CLIENT_DISCONNECTED =
     [tr VPN_SS_DISCONNECTED CE_CLIENT_DISCONNECTED None None SAME_TARGET_STATE None,
      tr VPN_SS_CONNECTING CE_CLIENT_DISCONNECTED (Some is_fatal_error) (Some complete_connect) VPN_SS_DISCONNECTED (Some raise_state),
      tr VPN_SS_CONNECTING CE_CLIENT_DISCONNECTED (Some fall_into_recovery) (Some prepare_for_recovery) VPN_SS_WAITING_RECOVERY (Some raise_state),
      tr VPN_SS_CONNECTING CE_CLIENT_DISCONNECTED (Some no_connect_attempts) (Some complete_connect) VPN_SS_DISCONNECTED (Some raise_state),
      tr VPN_SS_CONNECTING CE_CLIENT_DISCONNECTED None (Some retry_connect) SAME_TARGET_STATE None,
      tr VPN_SS_WAITING_RECOVERY CE_CLIENT_DISCONNECTED (Some is_fatal_error) (Some do_disconnect) VPN_SS_DISCONNECTED (Some raise_state),
      tr VPN_SS_WAITING_RECOVERY CE_CLIENT_DISCONNECTED None None SAME_TARGET_STATE None,
      tr ANY_SOURCE_STATE CE_CLIENT_DISCONNECTED (Some is_fatal_error) (Some do_disconnect) VPN_SS_DISCONNECTED (Some raise_state),
      tr ANY_SOURCE_STATE CE_CLIENT_DISCONNECTED None (Some prepare_for_recovery) VPN_SS_WAITING_RECOVERY (Some raise_state)]"
  by (simp add: entries_simps)

lemma on_CLIENT_DISCONNECTED:
  "\<not> m_recursive m \<Longrightarrow> vpn_transition CE_CLIENT_DISCONNECTED d m =
     (if m_current_state m = VPN_SS_DISCONNECTED then m
      else if m_current_state m = VPN_SS_CONNECTING then
        (if is_fatal_error m d then enter VPN_SS_DISCONNECTED complete_connect d m
         else if fall_into_recovery m d then enter VPN_SS_WAITING_RECOVERY prepare_for_recovery d m
         else if no_connect_attempts m d then enter VPN_SS_DISCONNECTED complete_connect d m
         else stay retry_connect d m)
      else if is_fatal_error m d then enter VPN_SS_DISCONNECTED do_disconnect d m
      else if m_current_state m = VPN_SS_WAITING_RECOVERY then m
      else enter VPN_SS_WAITING_RECOVERY prepare_for_recovery d m)"
  by (cases "m_current_state m = VPN_SS_CONNECTING", simp add: dispatch_simps entries_CLIENT_DISCONNECTED,
      cases "m_current_state m = VPN_SS_CONNECTED", simp add: dispatch_simps entries_CLIENT_DISCONNECTED,
      cases "m_current_state m = VPN_SS_RECOVERING", simp add: dispatch_simps entries_CLIENT_DISCONNECTED,
      cases "m_current_state m = VPN_SS_WAITING_RECOVERY", simp add: dispatch_simps entries_CLIENT_DISCONNECTED,
      cases "m_current_state m = VPN_SS_WAITING_FOR_NETWORK", simp add: dispatch_simps entries_CLIENT_DISCONNECTED,
      simp add: dispatch_simps entries_CLIENT_DISCONNECTED)

lemma entries_DO_RECOVERY:
  "entries_for CE_DO_RECOVERY =
     [tr VPN_SS_WAITING_RECOVERY CE_DO_RECOVERY (Some need_to_ping_on_recovery) (Some run_ping) VPN_SS_RECOVERING (Some raise_state),
      tr VPN_SS_WAITING_RECOVERY CE_DO_RECOVERY None (Some connect_client) VPN_SS_RECOVERING (Some raise_state)]"
  by (simp add: entries_simps)

lemma on_DO_RECOVERY:
  "\<not> m_recursive m \<Longrightarrow> vpn_transition CE_DO_RECOVERY d m =
     (if m_current_state m = VPN_SS_WAITING_RECOVERY then
        (if need_to_ping_on_recovery m d then enter VPN_SS_RECOVERING run_ping d m
         else enter VPN_SS_RECOVERING connect_client d m)
      else m)"
  by (simp add: dispatch_simps entries_DO_RECOVERY)

lemma entries_SHUTDOWN:
  "entries_for CE_SHUTDOWN =
     [tr VPN_SS_DISCONNECTED CE_SHUTDOWN None (Some do_disconnect) SAME_TARGET_STATE None,
      tr ANY_SOURCE_STATE CE_SHUTDOWN None (Some do_disconnect) VPN_SS_DISCONNECTED (Some raise_state)]"
  by (simp add: entries_simps)

lemma on_SHUTDOWN:
  "\<not> m_recursive m \<Longrightarrow> vpn_transition CE_SHUTDOWN d m =
     (if m_current_state m = VPN_SS_DISCONNECTED then stay do_disconnect d m
      else enter VPN_SS_DISCONNECTED do_disconnect d m)"
  by (simp add: dispatch_simps entries_SHUTDOWN)

lemma entries_NETWORK_CHANGE:
  "entries_for CE_NETWORK_CHANGE =
     [tr VPN_SS_DISCONNECTED CE_NETWORK_CHANGE None None SAME_TARGET_STATE None,
      tr VPN_SS_CONNECTING CE_NETWORK_CHANGE (Some no_connect_attempts) (Some fail_connect_with_no_attempts) VPN_SS_DISCONNECTED (Some raise_state),
      tr VPN_SS_CONNECTING CE_NETWORK_CHANGE (Some network_lost) (Some do_disconnect) VPN_SS_WAITING_FOR_NETWORK (Some raise_state),
      tr VPN_SS_CONNECTING CE_NETWORK_CHANGE (Some fall_into_recovery) (Some prepare_for_recovery) VPN_SS_WAITING_RECOVERY (Some raise_state),
      tr VPN_SS_CONNECTING CE_NETWORK_CHANGE None (Some retry_connect) SAME_TARGET_STATE None,
      tr VPN_SS_CONNECTED CE_NETWORK_CHANGE (Some network_lost) (Some do_disconnect) VPN_SS_WAITING_FOR_NETWORK (Some raise_state),
      tr VPN_SS_CONNECTED CE_NETWORK_CHANGE None (Some prepare_for_recovery_nc) VPN_SS_WAITING_RECOVERY (Some raise_state),
      tr VPN_SS_WAITING_RECOVERY CE_NETWORK_CHANGE (Some network_lost) (Some do_disconnect) VPN_SS_WAITING_FOR_NETWORK (Some raise_state),
      tr VPN_SS_WAITING_RECOVERY CE_NETWORK_CHANGE None (Some run_ping) VPN_SS_RECOVERING (Some raise_state),
      tr VPN_SS_RECOVERING CE_NETWORK_CHANGE (Some network_lost) (Some do_disconnect) VPN_SS_WAITING_FOR_NETWORK (Some raise_state),
      tr VPN_SS_RECOVERING CE_NETWORK_CHANGE None (Some prepare_for_recovery_nc) VPN_SS_WAITING_RECOVERY (Some raise_state),
      tr VPN_SS_WAITING_FOR_NETWORK CE_NETWORK_CHANGE (Some network_lost) None SAME_TARGET_STATE None,
      tr VPN_SS_WAITING_FOR_NETWORK CE_NETWORK_CHANGE (Some connected_once) (Some prepare_for_recovery_nc) VPN_SS_WAITING_RECOVERY (Some raise_state),
      tr VPN_SS_WAITING_FOR_NETWORK CE_NETWORK_CHANGE (Some no_connect_attempts) (Some fail_connect_with_no_attempts) VPN_SS_DISCONNECTED (Some raise_state),
      tr VPN_SS_WAITING_FOR_NETWORK CE_NETWORK_CHANGE None (Some retry_connect) VPN_SS_CONNECTING (Some raise_state)]"
  by (simp add: entries_simps)

lemma on_NETWORK_CHANGE:
  "\<not> m_recursive m \<Longrightarrow> vpn_transition CE_NETWORK_CHANGE d m =
     (if m_current_state m = VPN_SS_CONNECTING then
        (if no_connect_attempts m d then enter VPN_SS_DISCONNECTED fail_connect_with_no_attempts d m
         else if network_lost m d then enter VPN_SS_WAITING_FOR_NETWORK do_disconnect d m
         else if fall_into_recovery m d then enter VPN_SS_WAITING_RECOVERY prepare_for_recovery d m
         else stay retry_connect d m)
      else if m_current_state m = VPN_SS_CONNECTED \<or> m_current_state m = VPN_SS_RECOVERING then
        (if network_lost m d then enter VPN_SS_WAITING_FOR_NETWORK do_disconnect d m
         else enter VPN_SS_WAITING_RECOVERY prepare_for_recovery_nc d m)
      else if m_current_state m = VPN_SS_WAITING_RECOVERY then
        (if network_lost m d then enter VPN_SS_WAITING_FOR_NETWORK do_disconnect d m
         else enter VPN_SS_RECOVERING run_ping d m)
      else if m_current_state m = VPN_SS_WAITING_FOR_NETWORK then
        (if network_lost m d then m
         else if connected_once m d then enter VPN_SS_WAITING_RECOVERY prepare_for_recovery_nc d m
         else if no_connect_attempts m d then enter VPN_SS_DISCONNECTED fail_connect_with_no_attempts d m
         else enter VPN_SS_CONNECTING retry_connect d m)
      else m)"
  by (cases "m_current_state m = VPN_SS_CONNECTING", simp add: dispatch_simps entries_NETWORK_CHANGE,
      cases "m_current_state m = VPN_SS_CONNECTED", simp add: dispatch_simps entries_NETWORK_CHANGE,
      cases "m_current_state m = VPN_SS_RECOVERING", simp add: dispatch_simps entries_NETWORK_CHANGE,
      cases "m_current_state m = VPN_SS_WAITING_RECOVERY", simp add: dispatch_simps entries_NETWORK_CHANGE,
      cases "m_current_state m = VPN_SS_WAITING_FOR_NETWORK", simp add: dispatch_simps entries_NETWORK_CHANGE,
      simp add: dispatch_simps entries_NETWORK_CHANGE)

lemma entries_START_LISTENING:
  "entries_for CE_START_LISTENING =
     [tr VPN_SS_DISCONNECTED CE_START_LISTENING None (Some on_wrong_listen_state) SAME_TARGET_STATE None,
      tr ANY_SOURCE_STATE CE_START_LISTENING None (Some start_listening) SAME_TARGET_STATE None]"
  by (simp add: entries_simps)

lemma on_START_LISTENING:
  "\<not> m_recursive m \<Longrightarrow> vpn_transition CE_START_LISTENING d m =
     (if m_current_state m = VPN_SS_DISCONNECTED then m else stay start_listening d m)"
  by (simp add: dispatch_simps entries_START_LISTENING) (simp add: stay_def on_wrong_listen_state_def)

lemma entries_ABANDON_ENDPOINT:
  "entries_for CE_ABANDON_ENDPOINT =
     [tr VPN_SS_CONNECTING CE_ABANDON_ENDPOINT (Some is_fatal_error) (Some complete_connect) VPN_SS_DISCONNECTED (Some raise_state),
      tr VPN_SS_CONNECTING CE_ABANDON_ENDPOINT None (Some retry_connect) SAME_TARGET_STATE None,
      tr VPN_SS_CONNECTED CE_ABANDON_ENDPOINT (Some is_fatal_error) (Some do_disconnect) VPN_SS_DISCONNECTED (Some raise_state),
      tr VPN_SS_CONNECTED CE_ABANDON_ENDPOINT None (Some prepare_for_recovery) VPN_SS_WAITING_RECOVERY (Some raise_state),
      tr VPN_SS_WAITING_RECOVERY CE_ABANDON_ENDPOINT (Some is_fatal_error) (Some do_disconnect) VPN_SS_DISCONNECTED (Some raise_state),
      tr VPN_SS_RECOVERING CE_ABANDON_ENDPOINT (Some is_fatal_error) (Some do_disconnect) VPN_SS_DISCONNECTED (Some raise_state),
      tr VPN_SS_RECOVERING CE_ABANDON_ENDPOINT None (Some prepare_for_recovery) VPN_SS_WAITING_RECOVERY (Some raise_state)]"
  by (simp add: entries_simps)

lemma on_ABANDON_ENDPOINT:
  "\<not> m_recursive m \<Longrightarrow> vpn_transition CE_ABANDON_ENDPOINT d m =
     (if m_current_state m = VPN_SS_CONNECTING then
        (if is_fatal_error m d then enter VPN_SS_DISCONNECTED complete_connect d m
         else stay retry_connect d m)
      else if m_current_state m = VPN_SS_CONNECTED \<or> m_current_state m = VPN_SS_RECOVERING then
        (if is_fatal_error m d then enter VPN_SS_DISCONNECTED do_disconnect d m
         else enter VPN_SS_WAITING_RECOVERY prepare_for_recovery d m)
      else if m_current_state m = VPN_SS_WAITING_RECOVERY \<and> is_fatal_error m d then
        enter VPN_SS_DISCONNECTED do_disconnect d m
      else m)"
  by (cases "m_current_state m = VPN_SS_CONNECTING", simp add: dispatch_simps entries_ABANDON_ENDPOINT,
      cases "m_current_state m = VPN_SS_CONNECTED", simp add: dispatch_simps entries_ABANDON_ENDPOINT,
      cases "m_current_state m = VPN_SS_RECOVERING", simp add: dispatch_simps entries_ABANDON_ENDPOINT,
      cases "m_current_state m = VPN_SS_WAITING_RECOVERY", simp add: dispatch_simps entries_ABANDON_ENDPOINT,
      cases "m_current_state m = VPN_SS_WAITING_FOR_NETWORK", simp add: dispatch_simps entries_ABANDON_ENDPOINT,
      simp add: dispatch_simps entries_ABANDON_ENDPOINT)

lemma entries_COMPLETE_REQUEST:
  "entries_for CE_COMPLETE_REQUEST =
     [tr ANY_SOURCE_STATE CE_COMPLETE_REQUEST (Some can_complete) (Some complete_request) SAME_TARGET_STATE None,
      tr ANY_SOURCE_STATE CE_COMPLETE_REQUEST (Some should_postpone) (Some postpone_request) SAME_TARGET_STATE None,
      tr ANY_SOURCE_STATE CE_COMPLETE_REQUEST (Some is_kill_switch_on) (Some reject_request) SAME_TARGET_STATE None,
      tr ANY_SOURCE_STATE CE_COMPLETE_REQUEST None (Some bypass_until_connected) SAME_TARGET_STATE None]"
  by (simp add: entries_simps)

lemma on_COMPLETE_REQUEST:
  "\<not> m_recursive m \<Longrightarrow> vpn_transition CE_COMPLETE_REQUEST d m =
     (if can_complete m d then stay complete_request d m
      else if should_postpone m d then stay postpone_request d m
      else if is_kill_switch_on m d then stay reject_request d m
      else stay bypass_until_connected d m)"
  by (simp add: dispatch_simps entries_COMPLETE_REQUEST)

subsection \<open>Entering a state\<close>

lemma action_frame [simp]:
  "m_initial_state (run_ping d m) = m_initial_state m" "m_current_state (run_ping d m) = m_current_state m"
  "m_initial_state (connect_client d m) = m_initial_state m" "m_current_state (connect_client d m) = m_current_state m"
  "m_initial_state (complete_connect d m) = m_initial_state m" "m_current_state (complete_connect d m) = m_current_state m"
  "m_initial_state (retry_connect d m) = m_initial_state m" "m_current_state (retry_connect d m) = m_current_state m"
  "m_initial_state (prepare_for_recovery d m) = m_initial_state m" "m_current_state (prepare_for_recovery d m) = m_current_state m"
  "m_initial_state (reconnect_client d m) = m_initial_state m" "m_current_state (reconnect_client d m) = m_current_state m"
  "m_initial_state (finalize_recovery d m) = m_initial_state m" "m_current_state (finalize_recovery d m) = m_current_state m"
  "m_initial_state (do_disconnect d m) = m_initial_state m" "m_current_state (do_disconnect d m) = m_current_state m"
  "m_initial_state (start_listening d m) = m_initial_state m" "m_current_state (start_listening d m) = m_current_state m"
  by (simp_all add: run_ping_def connect_client_def complete_connect_def retry_connect_def
      prepare_for_recovery_def reconnect_client_def finalize_recovery_def do_disconnect_def
      start_listening_def fsm_assert_def Let_def split: connect_retry_info.splits)

lemma nc_actions:
  "fail_connect_with_no_attempts d m =
     complete_connect (ErrorArg (VpnError VPN_EC_INITIAL_CONNECT_FAILED
       (Some ''Number of connection attempts exceeded''))) m"
  "prepare_for_recovery_nc d m = prepare_for_recovery NullArg m"
  by (simp_all add: fail_connect_with_no_attempts_def prepare_for_recovery_nc_def)

definition machine_ok :: "vpn_machine \<Rightarrow> bool" where
  "machine_ok m \<longleftrightarrow> \<not> m_recursive m \<and> m_initial_state m = VPN_SS_DISCONNECTED"

lemma raise_state_ctx:
  assumes "m_current_state m \<noteq> VPN_SS_CONNECTED"
  shows "base R (m_ctx (raise_state d m)) = base R (m_ctx m)"
    and "state_ok ts s (m_ctx (raise_state d m)) = state_ok ts s (m_ctx m)"
  using assms by (simp_all add: raise_state_def get_state_def Let_def take_pending_error_def)

lemma enter_inv:
  assumes "machine_ok m" and "t \<noteq> VPN_SS_CONNECTED" and "v' = m_ctx (a d (m\<lparr>m_recursive := True\<rparr>))"
    and "base R v'" and "state_ok [] t v'"
    and "m_initial_state (a d (m\<lparr>m_recursive := True\<rparr>)) = m_initial_state m"
  shows "session_inv R [] (enter t a d m)"
  using assms by (simp add: session_inv_def enter_def machine_ok_def raise_state_ctx)

lemma stay_inv:
  assumes "machine_ok m" and "v' = m_ctx (a d (m\<lparr>m_recursive := True\<rparr>))"
    and "base R v'" and "state_ok [] (m_current_state m) v'"
    and "m_initial_state (a d (m\<lparr>m_recursive := True\<rparr>)) = m_initial_state m"
    and "m_current_state (a d (m\<lparr>m_recursive := True\<rparr>)) = m_current_state m"
  shows "session_inv R [] (stay a d m)"
  using assms by (simp add: session_inv_def stay_def machine_ok_def)

text \<open>Reporting \<^verbatim>\<open>VPN_SS_CONNECTED\<close> reads the selected endpoint.\<close>

lemma enter_connected_inv:
  assumes "machine_ok m" and "v' = m_ctx (a d (m\<lparr>m_recursive := True\<rparr>))"
    and "base R v'" and "v_executor_running v'" and "filter is_connect (queued v') = []"
    and "v_client_state v' = CLIS_CONNECTED" and "v_selected_endpoint v' \<noteq> None"
    and "m_initial_state (a d (m\<lparr>m_recursive := True\<rparr>)) = m_initial_state m"
  shows "session_inv R [] (enter VPN_SS_CONNECTED a d m)"
proof -
  obtain s where s: "v_selected_endpoint v' = Some s" using assms(7) by blast
  then have "m_ctx (enter VPN_SS_CONNECTED a d m) =
      emit (StateChanged VPN_SS_CONNECTED (ConnectedInfo (sel_endpoint s) (sel_relay s)))
        (v'\<lparr>v_connected_once := True\<rparr>)"
    using assms(2) by (simp add: enter_def raise_state_def get_state_def Let_def)
  moreover have "state_ok [] VPN_SS_CONNECTED (v'\<lparr>v_connected_once := True\<rparr>)"
    using assms(4-7) by (simp add: state_ok_def queued_def)
  ultimately show ?thesis
    using assms(1,3,8) by (simp add: session_inv_def enter_def machine_ok_def)
qed

subsection \<open>What the states have in common\<close>

definition running :: "fsm_state \<Rightarrow> vpn \<Rightarrow> bool" where
  "running s v \<longleftrightarrow>
     (if s = VPN_SS_DISCONNECTED then state_ok [] s v
      else v_executor_running v \<and> filter is_connect (queued v) = [])"

lemma state_ok_running: "state_ok [] s v \<Longrightarrow> running s v"
  by (auto simp: running_def state_ok_def)

lemma rest_disconnected:
  assumes "v_executor_running v'" and "filter is_connect (queued v') = []"
    and "rec_attempts (v_recovery v') = 0"
  shows "state_ok [] VPN_SS_DISCONNECTED v'"
  using assms by (simp add: state_ok_def)

lemma enter_do_disconnect:
  assumes "machine_ok m" and "base R (m_ctx m)" and "running (m_current_state m) (m_ctx m)"
    and "m_current_state m \<noteq> VPN_SS_DISCONNECTED"
    and "t = VPN_SS_DISCONNECTED \<or> t = VPN_SS_WAITING_FOR_NETWORK"
  shows "session_inv R [] (enter t do_disconnect d m)"
proof (rule enter_inv [OF assms(1)])
  note r = do_disconnect_result [OF assms(2)]
  have no: "filter is_connect (queued (vpn_disconnect (clear_recovery (m_ctx m)))) = []"
    using subseq_no_connect [OF r(4)] assms(3,4) by (simp add: running_def)
  show "state_ok [] t (vpn_disconnect (clear_recovery (m_ctx m)))"
    using r no assms(3-5) by (auto simp: running_def state_ok_def)
  show "base R (vpn_disconnect (clear_recovery (m_ctx m)))" by (rule r)
qed (use assms(5) in \<open>auto simp: do_disconnect_def\<close>)

lemma enter_prepare_for_recovery:
  assumes "machine_ok m" and "base R (m_ctx m)" and "running (m_current_state m) (m_ctx m)"
    and "loop_ok (m_ctx m)" and "m_current_state m \<noteq> VPN_SS_DISCONNECTED"
    and "d \<noteq> NetArg VPN_NS_NOT_CONNECTED"
  shows "session_inv R [] (enter VPN_SS_WAITING_RECOVERY prepare_for_recovery d m)"
proof -
  let ?m = "m\<lparr>m_recursive := True\<rparr>"
  note r = prepare_for_recovery_result [where m = ?m and R = R and d = d, OF _ _ refl]
  show ?thesis
    by (rule enter_inv [where a = prepare_for_recovery and d = d and m = m, OF assms(1) _ refl r(1) r(2)])
      (use assms in \<open>simp_all add: running_def\<close>)
qed

lemma enter_prepare_for_recovery_nc:
  assumes "machine_ok m" and "base R (m_ctx m)" and "running (m_current_state m) (m_ctx m)"
    and "loop_ok (m_ctx m)" and "m_current_state m \<noteq> VPN_SS_DISCONNECTED"
  shows "session_inv R [] (enter VPN_SS_WAITING_RECOVERY prepare_for_recovery_nc d m)"
proof -
  let ?m = "m\<lparr>m_recursive := True\<rparr>"
  note r = prepare_for_recovery_result [where m = ?m and R = R and d = NullArg, OF _ _ refl]
  show ?thesis
    by (rule enter_inv [where a = prepare_for_recovery_nc and d = d and m = m, OF assms(1) _ _ r(1) r(2)])
      (use assms in \<open>simp_all add: running_def nc_actions\<close>)
qed

lemma complete_connect_disconnected:
  assumes "base R (m_ctx m)" and "running (m_current_state m) (m_ctx m)"
    and "m_current_state m \<noteq> VPN_SS_DISCONNECTED" and "v' = m_ctx (complete_connect d m)"
  shows "state_ok [] VPN_SS_DISCONNECTED v'"
  using complete_connect_result [OF assms(1,4)] assms(2,3)
  by (intro rest_disconnected) (auto simp: running_def dest: subseq_no_connect)

lemma enter_complete_connect:
  assumes "machine_ok m" and "base R (m_ctx m)" and "running (m_current_state m) (m_ctx m)"
    and "m_current_state m \<noteq> VPN_SS_DISCONNECTED"
  shows "session_inv R [] (enter VPN_SS_DISCONNECTED complete_connect d m)"
    and "session_inv R [] (enter VPN_SS_DISCONNECTED fail_connect_with_no_attempts d m)"
proof -
  let ?m = "m\<lparr>m_recursive := True\<rparr>"
  have b: "base R (m_ctx ?m)" "running (m_current_state ?m) (m_ctx ?m)"
      "m_current_state ?m \<noteq> VPN_SS_DISCONNECTED"
    using assms by simp_all
  show "session_inv R [] (enter VPN_SS_DISCONNECTED complete_connect d m)"
    by (rule enter_inv [where a = complete_connect and d = d and m = m,
          OF assms(1) _ refl complete_connect_result(1) [OF b(1) refl]
          complete_connect_disconnected [OF b refl]]) simp_all
  show "session_inv R [] (enter VPN_SS_DISCONNECTED fail_connect_with_no_attempts d m)"
    by (rule enter_inv [where a = fail_connect_with_no_attempts and d = d and m = m,
          OF assms(1) _ _ complete_connect_result(1) [OF b(1) refl]
          complete_connect_disconnected [OF b refl]]) (simp_all add: nc_actions)
qed

lemma retry_connect_inv:
  assumes "machine_ok m" and "base R (m_ctx m)" and "running (m_current_state m) (m_ctx m)"
    and "loop_ok (m_ctx m)" and "m_current_state m \<noteq> VPN_SS_DISCONNECTED"
  shows "m_current_state m = VPN_SS_CONNECTING \<Longrightarrow> session_inv R [] (stay retry_connect d m)"
    and "session_inv R [] (enter VPN_SS_CONNECTING retry_connect d m)"
proof -
  let ?m = "m\<lparr>m_recursive := True\<rparr>"
  note r = retry_connect_result [where m = ?m and R = R and d = d, OF _ _ refl]
  show "session_inv R [] (enter VPN_SS_CONNECTING retry_connect d m)"
    by (rule enter_inv [where a = retry_connect and d = d and m = m, OF assms(1) _ refl r(1) r(2)])
      (use assms in \<open>simp_all add: running_def\<close>)
  show "session_inv R [] (stay retry_connect d m)" if "m_current_state m = VPN_SS_CONNECTING"
    by (rule stay_inv [where a = retry_connect and d = d and m = m, OF assms(1) refl r(1)])
      (use assms r(2) that in \<open>simp_all add: running_def\<close>)
qed

lemma run_ping_states:
  assumes "base R (m_ctx m)" and "el_inv (v_loop (m_ctx m))" and "v' = m_ctx (run_ping d m)"
    and "v_client_state (m_ctx m) = CLIS_DISCONNECTED" and "v_executor_running (m_ctx m)"
    and "filter is_connect (queued (m_ctx m)) = []"
  shows "base R v'" and "state_ok [] VPN_SS_CONNECTING v'" and "state_ok [] VPN_SS_RECOVERING v'"
proof -
  note r = run_ping_result [OF assms(1-3) refl]
  show "base R v'" by (rule r)
  show "state_ok [] VPN_SS_CONNECTING v'" "state_ok [] VPN_SS_RECOVERING v'"
    using r(2,4) subseq_no_connect [OF r(5) assms(6)] assms(4,5) by (simp_all add: state_ok_def)
qed

lemma connect_states:
  assumes "base R v" and "v_selected_endpoint v \<noteq> None" and "el_state (v_loop v) \<noteq> ELS_BASE_EXITED"
    and "v_client_state v = CLIS_DISCONNECTED" and "v' = run_client_connect t v"
    and "v_executor_running v" and "filter is_connect (queued v) = []"
  shows "base R v'" and "state_ok [] VPN_SS_RECOVERING v'"
    and "RetryConnectTask \<notin> set (queued v) \<Longrightarrow> state_ok [] VPN_SS_CONNECTING v'"
  using run_client_connect_result [OF assms(1-5)] assms(6,7) by (simp_all add: state_ok_def)

subsection \<open>Every event keeps the invariant\<close>

lemma session_invI:
  "machine_ok m \<Longrightarrow> base R (m_ctx m) \<Longrightarrow> state_ok [] (m_current_state m) (m_ctx m) \<Longrightarrow> session_inv R [] m"
  by (simp add: session_inv_def machine_ok_def)

lemma machine_ok_rec: "machine_ok m \<Longrightarrow> \<not> m_recursive m"
  by (simp add: machine_ok_def)

lemma inv_SHUTDOWN:
  assumes "machine_ok m" and "base R (m_ctx m)" and "running (m_current_state m) (m_ctx m)"
  shows "session_inv R [] (vpn_transition CE_SHUTDOWN d m)"
proof (cases "m_current_state m = VPN_SS_DISCONNECTED")
  case True
  let ?v' = "vpn_disconnect (clear_recovery (m_ctx m))"
  note r = do_disconnect_result [OF assms(2)]
  have "state_ok [] VPN_SS_DISCONNECTED (m_ctx m)" using assms(3) True by (simp add: running_def)
  then have "state_ok [] VPN_SS_DISCONNECTED ?v'"
    by (rule state_ok_disconnected_drop [OF _ r(4) r(5) r(2) r(3)])
  then have "session_inv R [] (stay do_disconnect d m)"
    by (intro stay_inv [where a = do_disconnect and d = d and m = m and v' = ?v'] assms(1) r(1))
      (simp_all add: True do_disconnect_def)
  then show ?thesis using True machine_ok_rec [OF assms(1)] by (simp add: on_SHUTDOWN)
next
  case False
  then show ?thesis
    using enter_do_disconnect [OF assms False] machine_ok_rec [OF assms(1)] by (simp add: on_SHUTDOWN)
qed

lemma inv_CLIENT_DISCONNECTED:
  assumes "machine_ok m" and "base R (m_ctx m)" and "running (m_current_state m) (m_ctx m)"
    and "loop_ok (m_ctx m)" and "d \<noteq> NetArg VPN_NS_NOT_CONNECTED"
    and "m_current_state m = VPN_SS_WAITING_RECOVERY \<Longrightarrow> state_ok [] VPN_SS_WAITING_RECOVERY (m_ctx m)"
  shows "session_inv R [] (vpn_transition CE_CLIENT_DISCONNECTED d m)"
  using enter_complete_connect(1) [OF assms(1-3), where d = d]
    enter_prepare_for_recovery [OF assms(1-4) _ assms(5)] retry_connect_inv(1) [OF assms(1-4), where d = d]
    enter_do_disconnect [OF assms(1-3), where d = d] session_invI [OF assms(1,2)] assms(3,6)
  by (auto simp: on_CLIENT_DISCONNECTED machine_ok_rec [OF assms(1)] running_def)

lemma inv_PING_FAIL:
  assumes "machine_ok m" and "base R (m_ctx m)" and "state_ok [] (m_current_state m) (m_ctx m)"
    and "loop_ok (m_ctx m)" and "d \<noteq> NetArg VPN_NS_NOT_CONNECTED"
  shows "session_inv R [] (vpn_transition CE_PING_FAIL d m)"
proof -
  note run = state_ok_running [OF assms(3)]
  show ?thesis
    using enter_complete_connect(1) [OF assms(1,2) run, where d = d]
      enter_prepare_for_recovery [OF assms(1,2) run assms(4) _ assms(5)]
      retry_connect_inv(1) [OF assms(1,2) run assms(4), where d = d]
      enter_do_disconnect [OF assms(1,2) run, where d = d] session_invI [OF assms(1-3)]
    by (auto simp: on_PING_FAIL machine_ok_rec [OF assms(1)])
qed

lemma run_ping_inv:
  assumes "machine_ok m" and "base R (m_ctx m)" and "loop_ok (m_ctx m)"
    and "v_client_state (m_ctx m) = CLIS_DISCONNECTED" and "v_executor_running (m_ctx m)"
    and "filter is_connect (queued (m_ctx m)) = []"
  shows "m_current_state m = VPN_SS_CONNECTING \<Longrightarrow> session_inv R [] (stay run_ping d m)"
    and "session_inv R [] (enter VPN_SS_CONNECTING run_ping d m)"
    and "session_inv R [] (enter VPN_SS_RECOVERING run_ping d m)"
proof -
  let ?m = "m\<lparr>m_recursive := True\<rparr>"
  have pre: "base R (m_ctx ?m)" "el_inv (v_loop (m_ctx ?m))" "v_client_state (m_ctx ?m) = CLIS_DISCONNECTED"
      "v_executor_running (m_ctx ?m)" "filter is_connect (queued (m_ctx ?m)) = []"
    using assms(2-6) by (simp_all add: loop_ok_def)
  note r = run_ping_states [where d = d, OF pre(1,2) refl pre(3-5)]
  show "session_inv R [] (stay run_ping d m)" if "m_current_state m = VPN_SS_CONNECTING"
    by (rule stay_inv [where a = run_ping and d = d and m = m, OF assms(1) refl r(1)])
      (use that r(2) in simp_all)
  show "session_inv R [] (enter VPN_SS_CONNECTING run_ping d m)"
    by (rule enter_inv [where a = run_ping and d = d and m = m, OF assms(1) _ refl r(1) r(2)]) simp_all
  show "session_inv R [] (enter VPN_SS_RECOVERING run_ping d m)"
    by (rule enter_inv [where a = run_ping and d = d and m = m, OF assms(1) _ refl r(1) r(3)]) simp_all
qed

lemma inv_RETRY_CONNECT:
  assumes "machine_ok m" and "base R (m_ctx m)" and "state_ok [] (m_current_state m) (m_ctx m)"
    and "loop_ok (m_ctx m)"
    and "m_current_state m = VPN_SS_CONNECTING \<Longrightarrow> v_client_state (m_ctx m) = CLIS_DISCONNECTED"
  shows "session_inv R [] (vpn_transition CE_RETRY_CONNECT d m)"
proof (cases "m_current_state m = VPN_SS_CONNECTING")
  case True
  then have "v_executor_running (m_ctx m)" "filter is_connect (queued (m_ctx m)) = []"
    using assms(3) by (simp_all add: state_ok_def)
  then show ?thesis
    using run_ping_inv(1) [OF assms(1,2,4) assms(5) [OF True]] True
    by (simp add: on_RETRY_CONNECT machine_ok_rec [OF assms(1)])
next
  case False
  then show ?thesis
    using session_invI [OF assms(1-3)] by (simp add: on_RETRY_CONNECT machine_ok_rec [OF assms(1)])
qed

lemma inv_DO_CONNECT:
  assumes "machine_ok m" and "base R (m_ctx m)" and "loop_ok (m_ctx m)"
    and "m_current_state m = VPN_SS_DISCONNECTED" and "off (m_ctx m)" and "v_executor_running (m_ctx m)"
    and "filter is_connect (queued (m_ctx m)) = []"
  shows "session_inv R [] (vpn_transition CE_DO_CONNECT d m)"
  using run_ping_inv(2) [OF assms(1-3) _ assms(6,7)] assms(4,5)
  by (simp add: on_DO_CONNECT machine_ok_rec [OF assms(1)] off_def)

lemma inv_PING_READY:
  assumes "machine_ok m" and "base R (m_ctx m)" and "state_ok [] (m_current_state m) (m_ctx m)"
    and "loop_ok (m_ctx m)" and "v_selected_endpoint (m_ctx m) \<noteq> None"
    and "m_current_state m = VPN_SS_CONNECTING \<Longrightarrow>
      v_client_state (m_ctx m) = CLIS_DISCONNECTED \<and> RetryConnectTask \<notin> set (queued (m_ctx m))"
  shows "session_inv R [] (vpn_transition CE_PING_READY d m)"
proof -
  let ?v = "m_ctx m"
  have L: "el_state (v_loop ?v) \<noteq> ELS_BASE_EXITED" using assms(4) by (simp add: loop_ok_def)
  have "session_inv R [] (stay connect_client d m)" if s: "m_current_state m = VPN_SS_CONNECTING"
  proof (rule stay_inv [where a = connect_client and d = d and m = m and v' = "run_client_connect None ?v"])
    have x: "v_executor_running ?v" "filter is_connect (queued ?v) = []"
      using assms(3) s by (simp_all add: state_ok_def)
    note r = connect_states [OF assms(2,5) L _ refl x]
    show "base R (run_client_connect None ?v)" "state_ok [] (m_current_state m) (run_client_connect None ?v)"
      using r(1,3) assms(6) [OF s] by (simp_all add: s)
  qed (simp_all add: assms(1) connect_client_def)
  moreover have "session_inv R [] (stay reconnect_client d m)" if s: "m_current_state m = VPN_SS_RECOVERING"
  proof (rule stay_inv [where a = reconnect_client and d = d and m = m])
    let ?d = "disconnect_client ?v"
    let ?t = "Some (min (rt_between_attempts (rec_time (v_recovery ?d))) (uint (cfg_timeout_ms (v_upstream_config ?d))))"
    show "run_client_connect ?t ?d = m_ctx (reconnect_client d (m\<lparr>m_recursive := True\<rparr>))"
      by (simp add: reconnect_client_def)
    have x: "v_executor_running ?d" "filter is_connect (queued ?d) = []" "base R ?d"
        "v_selected_endpoint ?d \<noteq> None" "el_state (v_loop ?d) \<noteq> ELS_BASE_EXITED"
        "v_client_state ?d = CLIS_DISCONNECTED"
      using assms(2,3,5) s L by (simp_all add: state_ok_def)
    show "base R (run_client_connect ?t ?d)" "state_ok [] (m_current_state m) (run_client_connect ?t ?d)"
      using connect_states(1,2) [OF x(3-6) refl x(1,2)] by (simp_all add: s)
  qed (simp_all add: assms(1))
  ultimately show ?thesis
    using session_invI [OF assms(1-3)] by (auto simp: on_PING_READY machine_ok_rec [OF assms(1)])
qed

lemma inv_CLIENT_READY:
  assumes "machine_ok m" and "base R (m_ctx m)" and "running (m_current_state m) (m_ctx m)"
    and "m_current_state m = VPN_SS_DISCONNECTED \<or> m_current_state m = VPN_SS_CONNECTING \<or>
      m_current_state m = VPN_SS_RECOVERING"
    and "v_client_state (m_ctx m) = CLIS_CONNECTED"
    and "m_current_state m \<noteq> VPN_SS_DISCONNECTED \<Longrightarrow> v_selected_endpoint (m_ctx m) \<noteq> None"
  shows "session_inv R [] (vpn_transition CE_CLIENT_READY NullArg m)"
proof -
  let ?m = "m\<lparr>m_recursive := True\<rparr>"
  have b: "base R (m_ctx ?m)" using assms(2) by simp
  have "session_inv R [] (enter VPN_SS_CONNECTED complete_connect NullArg m)"
    if "m_current_state m = VPN_SS_CONNECTING"
  proof -
    note r = complete_connect_result [OF b, where d = NullArg, OF refl]
    show ?thesis
      by (rule enter_connected_inv [where a = complete_connect and d = NullArg and m = m, OF assms(1) refl r(1)])
        (use that assms(3,5,6) r(4,5,6) subseq_no_connect [OF r(3)]
         in \<open>simp_all add: running_def as_error_def\<close>)
  qed
  moreover have "session_inv R [] (enter VPN_SS_CONNECTED finalize_recovery NullArg m)"
    if "m_current_state m = VPN_SS_RECOVERING"
  proof -
    note r = finalize_recovery_result [OF b, where d = NullArg, OF refl]
    show ?thesis
      by (rule enter_connected_inv [where a = finalize_recovery and d = NullArg and m = m, OF assms(1) refl r(1)])
        (use that assms(3,5,6) r(2,3,4) subseq_no_connect [OF r(5)] in \<open>simp_all add: running_def\<close>)
  qed
  moreover have "m_current_state m = VPN_SS_DISCONNECTED \<Longrightarrow> session_inv R [] m"
    using session_invI [OF assms(1,2)] assms(3) by (simp add: running_def)
  ultimately show ?thesis
    using assms(4) by (auto simp: on_CLIENT_READY machine_ok_rec [OF assms(1)])
qed

lemma inv_DO_RECOVERY:
  assumes "machine_ok m" and "base R (m_ctx m)" and "running (m_current_state m) (m_ctx m)"
    and "loop_ok (m_ctx m)"
    and "m_current_state m = VPN_SS_WAITING_RECOVERY \<Longrightarrow> off (m_ctx m)"
    and "m_current_state m \<noteq> VPN_SS_WAITING_RECOVERY \<Longrightarrow> state_ok [] (m_current_state m) (m_ctx m)"
  shows "session_inv R [] (vpn_transition CE_DO_RECOVERY d m)"
proof (cases "m_current_state m = VPN_SS_WAITING_RECOVERY")
  case True
  let ?v = "m_ctx m"
  have x: "v_executor_running ?v" "filter is_connect (queued ?v) = []" "v_client_state ?v = CLIS_DISCONNECTED"
      "el_state (v_loop ?v) \<noteq> ELS_BASE_EXITED"
    using assms(3,4) assms(5) [OF True] by (simp_all add: running_def True off_def loop_ok_def)
  have "session_inv R [] (enter VPN_SS_RECOVERING connect_client d m)" if "\<not> need_to_ping_on_recovery m d"
  proof (rule enter_inv [where a = connect_client and d = d and m = m and v' = "run_client_connect None ?v"])
    have "v_selected_endpoint ?v \<noteq> None" using that by (auto simp: need_to_ping_on_recovery_def Let_def)
    from connect_states(1,2) [OF assms(2) this x(4,3) refl x(1,2)]
    show "base R (run_client_connect None ?v)" "state_ok [] VPN_SS_RECOVERING (run_client_connect None ?v)"
      by simp_all
  qed (simp_all add: assms(1) connect_client_def)
  with run_ping_inv(3) [OF assms(1,2,4) x(3,1,2)] show ?thesis
    by (simp add: on_DO_RECOVERY machine_ok_rec [OF assms(1)] True)
next
  case False
  then show ?thesis
    using session_invI [OF assms(1,2) assms(6)] by (simp add: on_DO_RECOVERY machine_ok_rec [OF assms(1)])
qed

lemma inv_NETWORK_CHANGE:
  assumes "machine_ok m" and "base R (m_ctx m)" and "state_ok [] (m_current_state m) (m_ctx m)"
    and "loop_ok (m_ctx m)"
  shows "session_inv R [] (vpn_transition CE_NETWORK_CHANGE (NetArg n) m)"
proof -
  let ?d = "NetArg n"
  note run = state_ok_running [OF assms(3)]
  have lost: "\<not> network_lost m ?d \<Longrightarrow> ?d \<noteq> NetArg VPN_NS_NOT_CONNECTED" by (auto simp: network_lost_def)
  have "session_inv R [] (enter VPN_SS_RECOVERING run_ping ?d m)" if "m_current_state m = VPN_SS_WAITING_RECOVERY"
    using assms(3) that by (intro run_ping_inv(3) assms(1,2,4)) (simp_all add: state_ok_def off_def)
  with enter_complete_connect(2) [OF assms(1,2) run, where d = ?d]
    enter_prepare_for_recovery [OF assms(1,2) run assms(4), where d = ?d]
    enter_prepare_for_recovery_nc [OF assms(1,2) run assms(4), where d = ?d]
    retry_connect_inv [OF assms(1,2) run assms(4), where d = ?d]
    enter_do_disconnect [OF assms(1,2) run, where d = ?d] session_invI [OF assms(1-3)] lost
  show ?thesis
    by (auto simp: on_NETWORK_CHANGE machine_ok_rec [OF assms(1)])
qed

lemma inv_ABANDON_ENDPOINT:
  assumes "machine_ok m" and "base R (m_ctx m)" and "running (m_current_state m) (m_ctx m)"
    and "loop_ok (m_ctx m)"
    and "m_current_state m \<notin> {VPN_SS_CONNECTING, VPN_SS_CONNECTED, VPN_SS_RECOVERING}
      \<Longrightarrow> state_ok [] (m_current_state m) (m_ctx m)"
  shows "session_inv R [] (vpn_transition CE_ABANDON_ENDPOINT NullArg m)"
  using enter_complete_connect(1) [OF assms(1-3), where d = NullArg]
    enter_prepare_for_recovery [OF assms(1-4), where d = NullArg]
    retry_connect_inv(1) [OF assms(1-4), where d = NullArg]
    enter_do_disconnect [OF assms(1-3), where d = NullArg] session_invI [OF assms(1,2)] assms(5)
  by (auto simp: on_ABANDON_ENDPOINT machine_ok_rec [OF assms(1)])

text \<open>Submitting a task no state speaks about.\<close>

lemma submit_state_ok:
  assumes "state_ok [] s v" and "\<not> is_connect t" and "t \<noteq> RetryConnectTask"
  shows "state_ok [] s (vpn_submit t v)"
proof -
  have q: "queued (vpn_submit t v) = queued v \<or> queued (vpn_submit t v) = queued v @ [t]"
    by (cases "el_state (v_loop v)") (simp_all add: vpn_submit_def queued_def el_op_defs Let_def)
  have d: "attempt_scheduled (vpn_submit t v) = attempt_scheduled v" "off (vpn_submit t v) = off v"
    by (simp_all add: attempt_scheduled_def vpn_submit_def submit_queue(2) off_def)
  have f: "filter is_connect (queued (vpn_submit t v)) = filter is_connect (queued v)"
    "RetryConnectTask \<in> set (queued (vpn_submit t v)) \<longleftrightarrow> RetryConnectTask \<in> set (queued v)"
    "FailedRecoveryTask \<in> set (queued v) \<longrightarrow> FailedRecoveryTask \<in> set (queued (vpn_submit t v))"
    using q assms(2,3) by auto
  have g: "v_client_state (vpn_submit t v) = v_client_state v"
    "v_selected_endpoint (vpn_submit t v) = v_selected_endpoint v"
    "v_executor_running (vpn_submit t v) = v_executor_running v"
    "v_connected_once (vpn_submit t v) = v_connected_once v" "v_recovery (vpn_submit t v) = v_recovery v"
    by (simp_all add: vpn_submit_def)
  show ?thesis
  proof (cases "s = VPN_SS_DISCONNECTED")
    case True
    then show ?thesis using assms(1) by (simp add: state_ok_def d f(1) g)
  next
    case False
    then show ?thesis using assms(1) f(3) by (simp add: state_ok_def d f(1,2) g) blast
  qed
qed

lemma inv_START_LISTENING:
  assumes "machine_ok m" and "base R (m_ctx m)" and "state_ok [] (m_current_state m) (m_ctx m)"
  shows "session_inv R [] (vpn_transition CE_START_LISTENING ListenArg m)"
proof -
  let ?e = "env_listen_result (v_env (m_ctx m)) (length (v_out (m_ctx m)))"
  let ?v = "emit ClientListen (m_ctx m)"
  have "session_inv R [] (stay start_listening ListenArg m)"
  proof (rule stay_inv [where a = start_listening and d = ListenArg and m = m])
    let ?v' = "if err_code ?e \<noteq> VPN_EC_NOERROR then vpn_submit (ListenFailedTask ?e) ?v else ?v"
    show "?v' = m_ctx (start_listening ListenArg (m\<lparr>m_recursive := True\<rparr>))"
      by (simp add: start_listening_def Let_def)
    show "base R ?v'" using assms(2) by (simp add: submit_base task_ok_def)
    show "state_ok [] (m_current_state m) ?v'"
      using assms(3) by (simp add: submit_state_ok is_connect_def)
  qed (simp_all add: assms(1))
  with session_invI [OF assms] show ?thesis
    by (simp add: on_START_LISTENING machine_ok_rec [OF assms(1)])
qed

lemma inv_COMPLETE_REQUEST:
  assumes "machine_ok m" and "base R (m_ctx m)" and "state_ok [] (m_current_state m) (m_ctx m)"
  shows "session_inv R [] (vpn_transition CE_COMPLETE_REQUEST (RequestArg r) m)"
proof -
  note nr = machine_ok_rec [OF assms(1)]
  have "session_inv R [] (stay complete_request (RequestArg r) m)"
    "session_inv R [] (stay reject_request (RequestArg r) m)"
    using assms by (auto simp: stay_def complete_request_def reject_request_def as_request_def
        session_inv_def machine_ok_def)
  moreover have "session_inv R [] (stay postpone_request (RequestArg r) m)"
    if "\<not> can_complete m (RequestArg r)" "should_postpone m (RequestArg r)"
  proof -
    have "base R ((m_ctx m)\<lparr>v_postponed_requests := v_postponed_requests (m_ctx m) @ [r]\<rparr>)"
      using assms(2) that by (simp add: base_defs can_complete_def as_request_def should_postpone_def)
    then show ?thesis
      using assms(1,3) by (simp add: stay_def postpone_request_def as_request_def session_inv_def machine_ok_def)
  qed
  moreover have "session_inv R [] (stay bypass_until_connected (RequestArg r) m)"
    if "\<not> is_kill_switch_on m (RequestArg r)"
  proof -
    have "base R ((m_ctx m)\<lparr>v_bypassed_connection_ids := v_bypassed_connection_ids (m_ctx m) @ [crr_id r]\<rparr>)"
      using assms(2) that by (simp add: base_defs is_kill_switch_on_def)
    then show ?thesis
      using assms(1,3) by (simp add: stay_def bypass_until_connected_def as_request_def session_inv_def machine_ok_def)
  qed
  ultimately show ?thesis by (simp add: on_COMPLETE_REQUEST nr)
qed

end
