(* ===== verification/Vpn_Tasks.thy ===== *)
theory Vpn_Tasks
  imports Vpn_Events
begin

section \<open>The tasks and callbacks of the session keep its invariant\<close>

text \<open>
  Each closure the session submits, and each callback it registers, establishes the invariant when it
  held with the task still queued.
\<close>

subsection \<open>Every task keeps the invariant\<close>

lemma state_ok_task_done:
  assumes "state_ok [t] s v" and "t \<noteq> FailedRecoveryTask \<and> t \<noteq> DoRecoveryTask \<or> s \<noteq> VPN_SS_WAITING_RECOVERY"
  shows "state_ok [] s v"
proof (cases "s = VPN_SS_DISCONNECTED")
  case True
  with assms(1) show ?thesis by (auto simp: state_ok_def split: if_splits)
next
  case False
  with assms show ?thesis by (auto simp: state_ok_def split: if_splits)
qed

lemma state_ok_task_running:
  assumes "state_ok [t] s v"
  shows "running s v"
proof (cases "s = VPN_SS_DISCONNECTED")
  case True
  with state_ok_task_done [OF assms] show ?thesis by (simp add: running_def)
next
  case False
  with assms show ?thesis by (auto simp: running_def state_ok_def split: if_splits)
qed

lemma session_inv_parts:
  assumes "session_inv R ts m"
  shows "machine_ok m" and "base R (m_ctx m)" and "state_ok ts (m_current_state m) (m_ctx m)"
    and "list_all (task_ok R) ts"
  using assms by (simp_all add: session_inv_def machine_ok_def)

lemma session_inv_task_done:
  "session_inv R [t] m \<Longrightarrow> t \<noteq> FailedRecoveryTask \<Longrightarrow> t \<noteq> DoRecoveryTask \<Longrightarrow> session_inv R [] m"
  by (auto simp: session_inv_def intro: state_ok_task_done)

lemma machine_ok_ctx [simp]: "machine_ok (on_ctx f m) = machine_ok m" "machine_ok (m\<lparr>m_ctx := v\<rparr>) = machine_ok m"
  by (simp_all add: machine_ok_def)

lemma running_cong:
  assumes "queued v' = queued v" and "v_executor_running v' = v_executor_running v"
    and "off v' = off v" and "rec_attempts (v_recovery v') = rec_attempts (v_recovery v)"
  shows "running s v' = running s v"
  using assms by (simp add: running_def state_ok_def)

lemma failed_recovery_inv:
  assumes "session_inv R [FailedRecoveryTask] m"
  shows "session_inv R [] (failed_recovery_task m)"
  unfolding failed_recovery_task_def
proof (rule inv_SHUTDOWN)
  note p = session_inv_parts [OF assms]
  let ?v = "m_ctx m"
  show "machine_ok (on_ctx (\<lambda>v. (clear_recovery v)\<lparr>v_pending_error := Some (VpnError VPN_EC_LOCATION_UNAVAILABLE
      (Some ''Maximum number of recovery attempts has been made''))\<rparr>) m)"
    using p(1) by simp
  show "base R (m_ctx (on_ctx (\<lambda>v. (clear_recovery v)\<lparr>v_pending_error := Some (VpnError VPN_EC_LOCATION_UNAVAILABLE
      (Some ''Maximum number of recovery attempts has been made''))\<rparr>) m))"
    using p(2) by (simp add: clear_recovery_base)
  have q: "subseq (queued (clear_recovery ?v)) (queued ?v)" by (rule clear_recovery_queued)
  have run: "running (m_current_state m) ?v" using p(3) by (rule state_ok_task_running)
  have "running (m_current_state m) (clear_recovery ?v)"
  proof (cases "m_current_state m = VPN_SS_DISCONNECTED")
    case True
    then show ?thesis
      using run state_ok_disconnected_drop [OF _ q] by (simp add: running_def)
  next
    case False
    then show ?thesis using run subseq_no_connect [OF q] by (simp add: running_def)
  qed
  then show "running (m_current_state (on_ctx (\<lambda>v. (clear_recovery v)\<lparr>v_pending_error :=
        Some (VpnError VPN_EC_LOCATION_UNAVAILABLE
          (Some ''Maximum number of recovery attempts has been made''))\<rparr>) m))
      (m_ctx (on_ctx (\<lambda>v. (clear_recovery v)\<lparr>v_pending_error := Some (VpnError VPN_EC_LOCATION_UNAVAILABLE
          (Some ''Maximum number of recovery attempts has been made''))\<rparr>) m))"
    by (subst running_cong) (simp_all add: queued_def off_def)
qed

lemma do_recovery_inv:
  assumes "session_inv R [DoRecoveryTask] m" and "loop_ok (m_ctx m)"
  shows "session_inv R [] (do_recovery_task m)"
proof -
  note p = session_inv_parts [OF assms(1)]
  let ?v = "m_ctx m"
  define v' where "v' = ?v\<lparr>v_recovery := (v_recovery ?v)\<lparr>rec_task := None,
      rec_time := (rec_time (v_recovery ?v))\<lparr>rt_attempt_start_ts := vpn_now ?v\<rparr>\<rparr>\<rparr>"
  have s: "state_ok [] (m_current_state m) ?v" if "m_current_state m \<noteq> VPN_SS_WAITING_RECOVERY"
    using state_ok_task_done [OF p(3)] that by simp
  have f: "queued v' = queued ?v" "v_executor_running v' = v_executor_running ?v" "off v' = off ?v"
      "rec_attempts (v_recovery v') = rec_attempts (v_recovery ?v)"
    by (simp_all add: v'_def queued_def off_def)
  have "session_inv R [] (vpn_transition CE_DO_RECOVERY NullArg (m\<lparr>m_ctx := v'\<rparr>))"
  proof (rule inv_DO_RECOVERY)
    show "base R (m_ctx (m\<lparr>m_ctx := v'\<rparr>))"
      unfolding v'_def using p(2) by (simp add: base_defs)
    show "running (m_current_state (m\<lparr>m_ctx := v'\<rparr>)) (m_ctx (m\<lparr>m_ctx := v'\<rparr>))"
      using state_ok_task_running [OF p(3)] running_cong [OF f] by simp
    show "loop_ok (m_ctx (m\<lparr>m_ctx := v'\<rparr>))" using assms(2) by (simp add: loop_ok_def v'_def)
    show "off (m_ctx (m\<lparr>m_ctx := v'\<rparr>))" if "m_current_state (m\<lparr>m_ctx := v'\<rparr>) = VPN_SS_WAITING_RECOVERY"
      using that p(3) f(3) by (simp add: state_ok_def)
    show "state_ok [] (m_current_state (m\<lparr>m_ctx := v'\<rparr>)) (m_ctx (m\<lparr>m_ctx := v'\<rparr>))"
      if "m_current_state (m\<lparr>m_ctx := v'\<rparr>) \<noteq> VPN_SS_WAITING_RECOVERY"
      using that s by (auto simp: state_ok_def v'_def queued_def off_def split: if_splits)
  qed (use p(1) in simp)
  then show ?thesis by (simp add: do_recovery_task_def on_ctx_def v'_def)
qed

lemma normalise_upstream_config_endpoints [simp]:
  "cfg_endpoints (normalise_upstream_config c) = cfg_endpoints c"
  by (simp add: normalise_upstream_config_def Let_def)

lemma connect_task_inv:
  assumes "session_inv R [ConnectTask cfg ri] m" and "loop_ok (m_ctx m)"
  shows "session_inv R [] (connect_task cfg ri m)"
proof -
  note p = session_inv_parts [OF assms(1)]
  let ?v = "m_ctx m"
  have s: "m_current_state m = VPN_SS_DISCONNECTED"
    using p(3) by (auto simp: state_ok_def is_connect_def split: if_splits)
  then have x: "off ?v" "v_executor_running ?v" "filter is_connect (queued ?v) = []"
      "rec_attempts (v_recovery ?v) = 0"
    using p(3) by (auto simp: state_ok_def is_connect_def)
  have ep: "list_all (ep_ok R) (cfg_endpoints cfg)" using p(4) by (simp add: task_ok_def)
  define v' where "v' = (update_upstream_config cfg (emit ClientUpdateParameters ?v))
      \<lparr>v_connect_retry_info := (case ri of ConnectSeveralAttempts n \<Rightarrow> ConnectSeveralAttempts (n - 1)
         | ConnectFallIntoRecovery \<Rightarrow> ConnectFallIntoRecovery)\<rparr>"
  have "session_inv R [] (vpn_transition CE_DO_CONNECT NullArg (m\<lparr>m_ctx := v'\<rparr>))"
  proof (rule inv_DO_CONNECT)
    show "base R (m_ctx (m\<lparr>m_ctx := v'\<rparr>))"
      using p(2) ep x(4) by (simp add: v'_def update_upstream_config_def emit_def base_defs)
    show "loop_ok (m_ctx (m\<lparr>m_ctx := v'\<rparr>))"
      using assms(2) by (simp add: loop_ok_def v'_def update_upstream_config_def emit_def)
    show "off (m_ctx (m\<lparr>m_ctx := v'\<rparr>))" "v_executor_running (m_ctx (m\<lparr>m_ctx := v'\<rparr>))"
      "filter is_connect (queued (m_ctx (m\<lparr>m_ctx := v'\<rparr>))) = []"
      using x by (simp_all add: v'_def update_upstream_config_def emit_def off_def queued_def)
  qed (use p(1) s in simp_all)
  then show ?thesis by (simp add: connect_task_def on_ctx_def v'_def)
qed

lemma ep_ok_equals:
  "ep_ok R a \<Longrightarrow> ep_ok R b \<Longrightarrow> vpn_endpoint_equals a b =
     Some (ep_address a = ep_address b \<and> ep_name a = ep_name b \<and> ep_remote_id a = ep_remote_id b)"
  by (rule vpn_endpoint_equals_comparable) (auto simp: endpoint_comparable_def ep_ok_def)

text \<open>Abandoning only shrinks the list of endpoints and may forget the selected one.\<close>

lemma base_abandon:
  assumes "base R v" and "set es \<subseteq> set (cfg_endpoints (v_upstream_config v))"
    and "v_ping_barrier v \<noteq> None \<Longrightarrow> sel = None"
    and "sel = None \<or> sel = v_selected_endpoint v"
  shows "base R (v\<lparr>v_selected_endpoint := sel,
    v_upstream_config := (v_upstream_config v)\<lparr>cfg_endpoints := es\<rparr>\<rparr>)"
  using assms by (auto simp: base_defs list_all_iff)

lemma state_ok_config [simp]: "state_ok ts s (v\<lparr>v_upstream_config := c\<rparr>) = state_ok ts s v"
  by (simp add: state_ok_def off_def queued_def attempt_scheduled_def)

lemma state_ok_unselected:
  assumes "state_ok [] s v" and "s \<notin> {VPN_SS_CONNECTING, VPN_SS_CONNECTED, VPN_SS_RECOVERING}"
  shows "state_ok [] s (v\<lparr>v_selected_endpoint := x\<rparr>)"
  using assms by (auto simp: state_ok_def off_def queued_def attempt_scheduled_def split: if_splits)

lemma running_unselected [simp]:
  "running s (v\<lparr>v_selected_endpoint := x\<rparr>) = running s v"
  "running s (v\<lparr>v_upstream_config := c\<rparr>) = running s v"
  "running s (v\<lparr>v_pending_error := e\<rparr>) = running s v"
  "running s (v\<lparr>v_ping_failure_induces_location_unavailable := b\<rparr>) = running s v"
  by (rule running_cong; simp add: queued_def off_def)+

lemma abandon_transition_inv:
  assumes "machine_ok m" and "base R v'" and "state_ok [] (m_current_state m) v" and "loop_ok v"
    and "v' = v\<lparr>v_selected_endpoint := sel, v_upstream_config := c, v_pending_error := e,
      v_ping_failure_induces_location_unavailable := b\<rparr>"
  shows "session_inv R [] (vpn_transition CE_ABANDON_ENDPOINT NullArg (m\<lparr>m_ctx := v'\<rparr>))"
proof (rule inv_ABANDON_ENDPOINT)
  show "running (m_current_state (m\<lparr>m_ctx := v'\<rparr>)) (m_ctx (m\<lparr>m_ctx := v'\<rparr>))"
    using state_ok_running [OF assms(3)] by (simp add: assms(5))
  show "loop_ok (m_ctx (m\<lparr>m_ctx := v'\<rparr>))" using assms(4) by (simp add: assms(5) loop_ok_def)
  show "state_ok [] (m_current_state (m\<lparr>m_ctx := v'\<rparr>)) (m_ctx (m\<lparr>m_ctx := v'\<rparr>))"
    if "m_current_state (m\<lparr>m_ctx := v'\<rparr>) \<notin> {VPN_SS_CONNECTING, VPN_SS_CONNECTED, VPN_SS_RECOVERING}"
    using that assms(3) by (simp add: assms(5) state_ok_unselected)
qed (use assms(1,2) in simp_all)

lemma swap_remove_subset:
  "swap_remove_if p xs = (k, ys) \<Longrightarrow> set (take k ys) \<subseteq> set xs"
  using swap_remove_if_partition(2) [of p xs k ys] by auto

lemma abandon_endpoint_inv:
  assumes "session_inv R [AbandonEndpointTask ep] m" and "loop_ok (m_ctx m)"
  shows "session_inv R [] (abandon_endpoint_task ep m)"
proof -
  note p = session_inv_parts [OF assms(1)]
  let ?v = "m_ctx m"
  let ?es = "cfg_endpoints (v_upstream_config ?v)"
  have s: "state_ok [] (m_current_state m) ?v" using state_ok_task_done [OF p(3)] by simp
  have ep: "ep_ok R ep" using p(4) by (simp add: task_ok_def)
  have es: "e \<in> set ?es \<Longrightarrow> ep_ok R e" for e
    using p(2) by (simp add: base_def config_ok_def list_all_iff)
  then have "\<not> (\<exists>e\<in>set ?es. vpn_endpoint_equals ep e = None)"
    using ep_ok_equals [OF ep] by auto
  moreover have "is_selected_endpoint ep ?v \<noteq> None"
    using p(2) ep ep_ok_equals [of R _ ep]
    by (auto simp: is_selected_endpoint_def base_def config_ok_def split: option.splits)
  ultimately have defined: "(is_selected_endpoint ep ?v = None \<or>
      (\<exists>e\<in>set ?es. vpn_endpoint_equals ep e = None)) = False" by simp
  define sel where "sel = (if is_selected_endpoint ep ?v = Some True then None else v_selected_endpoint ?v)"
  obtain k es' where k: "swap_remove_if (\<lambda>e. vpn_endpoint_equals ep e = Some True) ?es = (k, es')"
    by (cases "swap_remove_if (\<lambda>e. vpn_endpoint_equals ep e = Some True) ?es")
  have sub: "set (take k es') \<subseteq> set ?es" using k by (rule swap_remove_subset)
  have nosel: "v_ping_barrier ?v \<noteq> None \<Longrightarrow> sel = None"
    using p(2) by (auto simp: base_def ping_ok_def sel_def)
  define v2 where "v2 = remove_endpoint ep ?v"
  have v2: "v2 = ?v\<lparr>v_selected_endpoint := sel,
      v_upstream_config := (v_upstream_config ?v)\<lparr>cfg_endpoints := take k es'\<rparr>\<rparr>"
    by (simp add: v2_def remove_endpoint_def k sel_def)
  have b2: "base R v2" unfolding v2
    by (rule base_abandon [OF p(2) sub nosel]) (simp_all add: sel_def)
  have b0: "base R (?v\<lparr>v_selected_endpoint := sel, v_upstream_config := (v_upstream_config ?v)\<lparr>cfg_endpoints := []\<rparr>\<rparr>)"
    by (rule base_abandon [OF p(2) _ nosel]) (simp_all add: sel_def)
  have exhausted: "session_inv R [] (vpn_transition CE_ABANDON_ENDPOINT NullArg
      (m\<lparr>m_ctx := v2\<lparr>v_pending_error := e, v_upstream_config := (v_upstream_config v2)\<lparr>cfg_endpoints := []\<rparr>\<rparr>\<rparr>))" for e
    by (rule abandon_transition_inv [OF p(1) _ s assms(2), where sel = sel and e = e
          and c = "(v_upstream_config ?v)\<lparr>cfg_endpoints := []\<rparr>" and b = "v_ping_failure_induces_location_unavailable ?v"])
      (use b0 in \<open>simp_all add: v2 base_defs\<close>)
  have current: "session_inv R [] (vpn_transition CE_ABANDON_ENDPOINT NullArg
      (m\<lparr>m_ctx := v2\<lparr>v_pending_error := e, v_ping_failure_induces_location_unavailable := True\<rparr>\<rparr>))" for e
    by (rule abandon_transition_inv [OF p(1) _ s assms(2), where sel = sel and e = e and b = True
          and c = "(v_upstream_config ?v)\<lparr>cfg_endpoints := take k es'\<rparr>"])
      (use b2 in \<open>simp_all add: v2\<close>)
  have kept: "session_inv R [] (m\<lparr>m_ctx := v2\<rparr>)" if "is_selected_endpoint ep ?v \<noteq> Some True"
    using p(1) b2 s that by (intro session_invI) (simp_all add: v2 sel_def)
  show ?thesis
    unfolding abandon_endpoint_task_def Let_def defined if_False v2_def [symmetric]
    using exhausted current kept by (simp only: split: if_split) blast
qed

lemma session_inv_field:
  assumes "session_inv R [] m"
  shows "session_inv R [] (on_ctx (\<lambda>v. emit e v) m)"
  using assms by (simp add: session_inv_def)

lemma submit_inv:
  assumes "session_inv R [] m" and "task_ok R t" and "\<not> is_connect t" and "t \<noteq> RetryConnectTask"
  shows "session_inv R [] (on_ctx (vpn_submit t) m)"
  using assms by (simp add: session_inv_def submit_base submit_state_ok)

lemma base_exclusions [simp]: "base R v \<Longrightarrow> base R (v\<lparr>v_update_exclusions_task := None\<rparr>)"
  by (simp add: base_defs)

lemma state_ok_exclusions [simp]: "state_ok ts s (v\<lparr>v_update_exclusions_task := x\<rparr>) = state_ok ts s v"
  by (simp add: state_ok_def off_def queued_def attempt_scheduled_def)

lemma run_task_inv:
  assumes "session_inv R [t] m" and "loop_ok (m_ctx m)"
  shows "session_inv R [] (run_task t m)"
proof (cases "t = FailedRecoveryTask \<or> t = DoRecoveryTask")
  case True
  with assms show ?thesis by (auto simp: run_task_def failed_recovery_inv do_recovery_inv)
next
  case False
  then have i: "session_inv R [] m" using session_inv_task_done [OF assms(1)] by simp
  note p = session_inv_parts [OF i]
  note run = state_ok_running [OF p(3)]
  show ?thesis
  proof (cases t)
    case ClientDisconnectedTask
    then show ?thesis
      using p(3) by (auto simp: run_task_def intro!: inv_CLIENT_DISCONNECTED p(1,2) run assms(2))
  next
    case RetryConnectTask
    have "v_client_state (m_ctx m) = CLIS_DISCONNECTED" if "m_current_state m = VPN_SS_CONNECTING"
      using session_inv_parts(3) [OF assms(1)] RetryConnectTask that
      by (cases "v_client_state (m_ctx m)") (auto simp: state_ok_def)
    then show ?thesis
      using inv_RETRY_CONNECT [OF p(1-3) assms(2)] RetryConnectTask by (simp add: run_task_def)
  next
    case (ListenFailedTask e)
    then show ?thesis
      using p run by (simp add: run_task_def shutdown_cb_def inv_SHUTDOWN)
  next
    case (ConnectTask c r)
    with assms show ?thesis by (simp add: run_task_def connect_task_inv)
  next
    case ForceReconnectTask
    have "off (m_ctx m)" if "m_current_state m = VPN_SS_WAITING_RECOVERY"
      using p(3) that by (simp add: state_ok_def)
    then show ?thesis
      using inv_DO_RECOVERY [OF p(1,2) run assms(2)] p(3) ForceReconnectTask by (simp add: run_task_def)
  next
    case (ForceDisconnectTask b)
    then show ?thesis
      using p run by (simp add: run_task_def shutdown_cb_def inv_SHUTDOWN)
  next
    case StopTask
    then show ?thesis
      using p run by (simp add: run_task_def shutdown_cb_def inv_SHUTDOWN)
  next
    case (CompleteRequestTask r)
    then show ?thesis
      using p by (simp add: run_task_def vpn_complete_connect_request_task_def inv_COMPLETE_REQUEST)
  next
    case (UpdateExclusionsTask e)
    then show ?thesis using i by (simp add: run_task_def session_inv_def)
  next
    case (NetworkChangeTask n)
    have "loop_ok ((emit ClientOnNetworkChange (m_ctx m))\<lparr>v_network_changed_before_recovery := True\<rparr>)"
      using assms(2) by (simp add: loop_ok_def emit_def)
    then show ?thesis
      using p NetworkChangeTask by (simp add: run_task_def inv_NETWORK_CHANGE)
  next
    case (AbandonEndpointTask ep)
    with assms show ?thesis by (simp add: run_task_def abandon_endpoint_inv)
  next
    case SleepTask
    have "session_inv R [] (on_ctx (vpn_submit CompletionTask) (on_ctx (\<lambda>v. emit ClientHandleSleep v) m))"
      by (rule submit_inv [OF session_inv_field [OF i]]) (simp_all add: task_ok_def is_connect_def)
    with SleepTask show ?thesis by (simp add: run_task_def on_ctx_def)
  next
    case ListenTask
    then show ?thesis using p by (simp add: run_task_def inv_START_LISTENING)
  qed (use i False in \<open>simp_all add: run_task_def session_inv_def\<close>)
qed

subsection \<open>Every callback keeps the invariant\<close>

lemma endpoint_known_defined:
  assumes "ep_ok R seek" and "list_all (ep_ok R) es"
  shows "endpoint_known seek es \<noteq> None"
  using assms(2)
proof (induction es)
  case Nil
  then show ?case by simp
next
  case (Cons e es)
  then show ?case using ep_ok_equals [OF assms(1), of e] by (auto split: bool.splits)
qed

lemma client_off_while_pinging:
  assumes "base R v" and "state_ok [] s v" and "v_ping_barrier v \<noteq> None"
    and "s = VPN_SS_CONNECTING \<or> s = VPN_SS_RECOVERING"
  shows "v_client_state v = CLIS_DISCONNECTED"
  using assms by (cases "v_client_state v") (auto simp: state_ok_def base_def ping_ok_def)

text \<open>
  A result of the pinger is due when it was started and not stopped since, and everything that was
  queued when it was started has run: the pinger itself reports through the loop.
\<close>

definition ping_due :: "vpn \<Rightarrow> bool" where
  "ping_due v \<longleftrightarrow>
     (case v_ping_barrier v of
        None \<Rightarrow> False
      | Some b \<Rightarrow> list_all (\<lambda>i. b \<le> i) (queue_ids (v_loop v)))"

lemma ping_due_no_retry:
  "base R v \<Longrightarrow> ping_due v \<Longrightarrow> RetryConnectTask \<notin> set (queued v)"
  by (force simp: base_def ping_ok_def ping_due_def queued_def queue_ids_def list_all_iff split: option.splits)

lemma state_ok_select:
  assumes "state_ok [] s v" and "s \<noteq> VPN_SS_CONNECTING" and "s \<noteq> VPN_SS_RECOVERING" and "s \<noteq> VPN_SS_CONNECTED"
  shows "state_ok [] s (v\<lparr>v_selected_endpoint := x\<rparr>)"
  using assms by (intro state_ok_unselected) auto

lemma select_same: "v_selected_endpoint v = x \<Longrightarrow> v\<lparr>v_selected_endpoint := x\<rparr> = v"
  by auto

lemma state_ok_ping_fields [simp]:
  "state_ok ts s (v\<lparr>v_ping_barrier := x\<rparr>) = state_ok ts s v"
  by (simp add: state_ok_def off_def queued_def attempt_scheduled_def)

lemma pinger_handler_inv:
  assumes "session_inv R [] m" and "loop_ok (m_ctx m)" and "ping_due (m_ctx m)"
    and "ep_ok R (pr_endpoint r)"
  shows "session_inv R [] (pinger_handler (Some r) m)"
proof -
  note p = session_inv_parts [OF assms(1)]
  let ?v = "m_ctx m"
  obtain b where b: "v_ping_barrier ?v = Some b" using assms(3) by (auto simp: ping_due_def split: option.splits)
  have sel: "v_selected_endpoint ?v = None" and pinging: "v_pinger ?v"
    using p(2) b by (auto simp: base_def ping_ok_def)
  have off: "m_current_state m = VPN_SS_CONNECTING \<or> m_current_state m = VPN_SS_RECOVERING \<Longrightarrow>
      v_client_state ?v = CLIS_DISCONNECTED"
    using client_off_while_pinging [OF p(2,3)] b by simp
  have notconn: "m_current_state m \<noteq> VPN_SS_CONNECTED"
    using p(3) sel by (auto simp: state_ok_def)
  define v1 where "v1 = (emit (ClientAdoptConnection None) ?v)\<lparr>v_selected_endpoint := None,
      v_ping_failure_induces_location_unavailable := False, v_ping_barrier := None\<rparr>"
  have b1: "base R v1" using p(2) by (simp add: v1_def emit_def base_defs)
  have s1: "state_ok [] (m_current_state m) v1"
  proof -
    have "v_selected_endpoint (emit (ClientAdoptConnection None) ?v) = None" using sel by (simp add: emit_def)
    from select_same [OF this] p(3) show ?thesis by (simp add: v1_def)
  qed
  have l1: "loop_ok v1" using assms(2) by (simp add: v1_def loop_ok_def emit_def)
  have m1: "on_ctx (\<lambda>v. (emit (ClientAdoptConnection None) v)\<lparr>v_selected_endpoint := None,
        v_ping_failure_induces_location_unavailable := False, v_ping_barrier := None\<rparr>)
      (fsm_assert (v_selected_endpoint (m_ctx m) = None) m) = m\<lparr>m_ctx := v1\<rparr>"
    by (simp add: fsm_assert_def sel on_ctx_def v1_def)
  have fail: "session_inv R [] (vpn_transition CE_PING_FAIL (ErrorArg e)
      (m\<lparr>m_ctx := v1\<lparr>v_ping_failure_induces_location_unavailable := x\<rparr>\<rparr>))" for e x
    using p(1) b1 s1 l1 by (intro inv_PING_FAIL) (simp_all add: loop_ok_def)
  have fail0: "session_inv R [] (vpn_transition CE_PING_FAIL (ErrorArg e) (m\<lparr>m_ctx := v1\<rparr>))" for e
    using p(1) b1 s1 l1 by (intro inv_PING_FAIL) simp_all
  define v2 where "v2 = emit ClientUpdateBypassIp (emit (ClientAdoptConnection (Some (pr_is_quic r)))
      (v1\<lparr>v_selected_endpoint := Some \<lparr>sel_endpoint = pr_endpoint r, sel_relay = pr_relay r\<rparr>\<rparr>))"
  have q: "queued v2 = queued ?v" by (simp add: v2_def v1_def queued_def emit_def)
  have ready: "session_inv R [] (vpn_transition CE_PING_READY NullArg (m\<lparr>m_ctx := v2\<rparr>))"
  proof (rule inv_PING_READY)
    show "base R (m_ctx (m\<lparr>m_ctx := v2\<rparr>))"
      using b1 assms(4) by (simp add: v2_def) (simp add: v1_def base_defs emit_def)
    show "state_ok [] (m_current_state (m\<lparr>m_ctx := v2\<rparr>)) (m_ctx (m\<lparr>m_ctx := v2\<rparr>))"
    proof (cases "m_current_state m = VPN_SS_CONNECTING \<or> m_current_state m = VPN_SS_RECOVERING")
      case True
      then show ?thesis
        using s1 off by (auto simp: v2_def v1_def emit_def state_ok_def queued_def)
    next
      case False
      then show ?thesis using state_ok_select [OF s1] notconn by (simp add: v2_def)
    qed
    show "loop_ok (m_ctx (m\<lparr>m_ctx := v2\<rparr>))" using l1 by (simp add: v2_def loop_ok_def)
    show "v_selected_endpoint (m_ctx (m\<lparr>m_ctx := v2\<rparr>)) \<noteq> None" by (simp add: v2_def emit_def)
    show "v_client_state (m_ctx (m\<lparr>m_ctx := v2\<rparr>)) = CLIS_DISCONNECTED \<and>
        RetryConnectTask \<notin> set (queued (m_ctx (m\<lparr>m_ctx := v2\<rparr>)))"
      if "m_current_state (m\<lparr>m_ctx := v2\<rparr>) = VPN_SS_CONNECTING"
      using that off q ping_due_no_retry [OF p(2) assms(3)] by (simp add: v2_def v1_def emit_def)
  qed (use p(1) in simp)
  have "endpoint_known (pr_endpoint r) (cfg_endpoints (v_upstream_config v1)) \<noteq> None"
    using endpoint_known_defined [OF assms(4)] b1 by (simp add: base_def config_ok_def)
  then show ?thesis
    unfolding pinger_handler_def option.case Let_def m1
    using fail fail0 ready by (auto simp: on_ctx_def v2_def split: option.splits bool.splits)
qed

lemma client_handler_inv:
  assumes "session_inv R [] m" and "loop_ok (m_ctx m)"
    and "what = EVENT_CONNECTED \<Longrightarrow> v_client_state (m_ctx m) = CLIS_CONNECTING"
  shows "session_inv R [] (client_handler what m)"
proof -
  note p = session_inv_parts [OF assms(1)]
  note run = state_ok_running [OF p(3)]
  let ?v = "m_ctx m"
  have gone: "session_inv R [] (vpn_transition CE_CLIENT_DISCONNECTED d
      (on_ctx (\<lambda>v. v\<lparr>v_client_state := CLIS_DISCONNECTED\<rparr>) m))" if "d \<noteq> NetArg VPN_NS_NOT_CONNECTED" for d
  proof (rule inv_CLIENT_DISCONNECTED)
    show "running (m_current_state (on_ctx (\<lambda>v. v\<lparr>v_client_state := CLIS_DISCONNECTED\<rparr>) m))
        (m_ctx (on_ctx (\<lambda>v. v\<lparr>v_client_state := CLIS_DISCONNECTED\<rparr>) m))"
      using run by (auto simp: running_def state_ok_def queued_def off_def split: if_splits)
    show "state_ok [] VPN_SS_WAITING_RECOVERY (m_ctx (on_ctx (\<lambda>v. v\<lparr>v_client_state := CLIS_DISCONNECTED\<rparr>) m))"
      if "m_current_state (on_ctx (\<lambda>v. v\<lparr>v_client_state := CLIS_DISCONNECTED\<rparr>) m) = VPN_SS_WAITING_RECOVERY"
      using p(3) that by (simp add: state_ok_def queued_def off_def attempt_scheduled_def)
  qed (use p assms(2) that in \<open>simp_all add: loop_ok_def\<close>)
  have ready: "session_inv R [] (vpn_transition CE_CLIENT_READY NullArg
      (on_ctx (\<lambda>v. v\<lparr>v_client_state := CLIS_CONNECTED\<rparr>) m))" if c: "v_client_state ?v = CLIS_CONNECTING"
  proof (rule inv_CLIENT_READY)
    show "running (m_current_state (on_ctx (\<lambda>v. v\<lparr>v_client_state := CLIS_CONNECTED\<rparr>) m))
        (m_ctx (on_ctx (\<lambda>v. v\<lparr>v_client_state := CLIS_CONNECTED\<rparr>) m))"
      using run c by (auto simp: running_def state_ok_def queued_def off_def split: if_splits)
    show "m_current_state (on_ctx (\<lambda>v. v\<lparr>v_client_state := CLIS_CONNECTED\<rparr>) m) = VPN_SS_DISCONNECTED \<or>
        m_current_state (on_ctx (\<lambda>v. v\<lparr>v_client_state := CLIS_CONNECTED\<rparr>) m) = VPN_SS_CONNECTING \<or>
        m_current_state (on_ctx (\<lambda>v. v\<lparr>v_client_state := CLIS_CONNECTED\<rparr>) m) = VPN_SS_RECOVERING"
      using p(3) c by (auto simp: state_ok_def off_def split: if_splits)
    show "v_selected_endpoint (m_ctx (on_ctx (\<lambda>v. v\<lparr>v_client_state := CLIS_CONNECTED\<rparr>) m)) \<noteq> None"
      if "m_current_state (on_ctx (\<lambda>v. v\<lparr>v_client_state := CLIS_CONNECTED\<rparr>) m) \<noteq> VPN_SS_DISCONNECTED"
      using p(3) c that by (auto simp: state_ok_def off_def)
  qed (use p in simp_all)
  show ?thesis
    using gone ready assms(3) by (cases what) (auto simp: client_handler_def split: option.splits)
qed

lemma answer_expired_result:
  "answer_expired rs v =
     (if v_kill_switch_on v
      then v\<lparr>v_out := v_out v @ map (\<lambda>r. RejectRequest (crr_id r)) rs\<rparr>
      else v\<lparr>v_out := v_out v @ map (\<lambda>r. CompleteRequest (crr_id r) (Some VPN_CA_FORCE_BYPASS)) rs,
             v_bypassed_connection_ids := v_bypassed_connection_ids v @ map crr_id rs\<rparr>)"
  by (induction rs arbitrary: v) (simp_all add: emit_def)

lemma timer_cb_inv:
  assumes "session_inv R [] m"
  shows "session_inv R [] (postponement_window_timer_cb m)"
proof -
  note p = session_inv_parts [OF assms]
  show ?thesis
  proof (rule session_invI)
    show "machine_ok (postponement_window_timer_cb m)"
      using p(1) by (simp add: postponement_window_timer_cb_def)
    show "base R (m_ctx (postponement_window_timer_cb m))"
      using p(2) by (simp add: postponement_window_timer_cb_def answer_expired_result base_defs)
    show "state_ok [] (m_current_state (postponement_window_timer_cb m)) (m_ctx (postponement_window_timer_cb m))"
      using p(3) by (simp add: postponement_window_timer_cb_def answer_expired_result)
  qed
qed

end
