(* ===== verification/Vpn_Reach.thy ===== *)
theory Vpn_Reach
  imports Vpn_Tasks
begin

section \<open>Reachable sessions\<close>

text \<open>
  The step relation \<open>vpn_step\<close> interleaves the API functions of \<^verbatim>\<open>core/src/vpn_manager.cpp\<close>, the
  loop's callbacks and the reports of the pinger and of the client; every step keeps \<open>vpn_inv\<close>, the
  invariant of the session together with that of its loop, so every reachable session satisfies it.
\<close>

subsection \<open>Opening a session\<close>

definition vpn_fresh :: "bool \<Rightarrow> vpn_env \<Rightarrow> vpn" where
  "vpn_fresh kill_switch env =
     \<lparr>v_pending_error = None, v_loop = vpn_event_loop_create, v_ev_loop_alive = True,
      v_recovery = recovery_info_init,
      v_upstream_config = \<lparr>cfg_location_id = [], cfg_endpoints = [], cfg_location_ping_timeout_ms = 0,
        cfg_timeout_ms = 0, cfg_health_check_timeout_ms = 0, cfg_username = None, cfg_password = None,
        cfg_backoff_rate = 0, cfg_location_update_period_ms = 0, cfg_recovery_attempts = 0\<rparr>,
      v_selected_endpoint = None, v_network_changed_before_recovery = False, v_connected_once = False,
      v_pinger = False, v_ping_barrier = None, v_ping_failure_induces_location_unavailable = False,
      v_client_state = CLIS_DISCONNECTED,
      v_connect_retry_info = ConnectSeveralAttempts VPN_DEFAULT_CONNECT_ATTEMPTS_NUM,
      v_bypassed_connection_ids = [], v_postponed_requests = [], v_postponement_window_timer = False,
      v_executor_running = False, v_update_exclusions_task = None, v_kill_switch_on = kill_switch,
      v_env = env, v_out = [], v_ub = False\<rparr>"

text \<open>\<^verbatim>\<open>new Vpn{}\<close>; \<open>None\<close> if the transition table did not validate.\<close>

definition vpn_open :: "bool \<Rightarrow> vpn_env \<Rightarrow> vpn_machine option" where
  "vpn_open kill_switch env =
     make_fsm VPN_SS_DISCONNECTED vpn_transition_table (vpn_fresh kill_switch env)"

subsection \<open>Steps\<close>

text \<open>
  One step of a session and its environment. \<open>R\<close> tells whether the endpoints in use carry a
  \<^verbatim>\<open>remote_id\<close>: comparing two endpoints of which only one does is undefined. \<open>P\<close> restricts the
  retry policies the application uses. The premises are
  the contracts of the parties that call in: callbacks run while the loop runs, the pinger reports
  once per start and through the loop (\<open>ping_due\<close>), the client reports a connection once per
  \<^verbatim>\<open>connect\<close>, and the three functions that do not check for a loop are called while there is one.
\<close>

abbreviation loop_running :: "vpn_machine \<Rightarrow> bool" where
  "loop_running m \<equiv> el_state (v_loop (m_ctx m)) = ELS_RUNNING"

inductive vpn_step ::
  "bool \<Rightarrow> (connect_retry_policy \<Rightarrow> bool) \<Rightarrow> vpn_machine \<Rightarrow> vpn_machine \<Rightarrow> bool" for R P where
  step_env: "vpn_step R P m (on_ctx (\<lambda>v. v\<lparr>v_env := e\<rparr>) m)"
| step_drain: "loop_running m \<Longrightarrow> 0 < el_pending_runs (v_loop (m_ctx m)) \<Longrightarrow> vpn_step R P m (drain_queue m)"
| step_deferred: "loop_running m \<Longrightarrow> vpn_step R P m (fire_deferred i m)"
| step_ping: "loop_running m \<Longrightarrow> ping_due (m_ctx m) \<Longrightarrow> ep_ok R (pr_endpoint r)
    \<Longrightarrow> vpn_step R P m (pinger_handler (Some r) m)"
| step_client: "loop_running m
    \<Longrightarrow> (what = EVENT_CONNECTED \<Longrightarrow> v_client_state (m_ctx m) = CLIS_CONNECTING)
    \<Longrightarrow> vpn_step R P m (client_handler what m)"
| step_timer: "loop_running m \<Longrightarrow> v_postponement_window_timer (m_ctx m)
    \<Longrightarrow> vpn_step R P m (postponement_window_timer_cb m)"
| step_connect: "how \<noteq> LoopNotStarted \<Longrightarrow> list_all (ep_ok R) (cfg_endpoints cfg)
    \<Longrightarrow> P policy \<Longrightarrow> vpn_step R P m (snd (vpn_connect how cfg policy m))"
| step_force_reconnect: "v_ev_loop_alive (m_ctx m) \<Longrightarrow> vpn_step R P m (vpn_force_reconnect m)"
| step_force_disconnect: "v_ev_loop_alive (m_ctx m) \<Longrightarrow> vpn_step R P m (vpn_force_disconnect fatal m)"
| step_abandon: "v_ev_loop_alive (m_ctx m) \<Longrightarrow> ep_ok R ep \<Longrightarrow> vpn_step R P m (vpn_abandon_endpoint ep m)"
| step_listen: "vpn_step R P m (snd (vpn_listen has_listener has_config m))"
| step_request: "vpn_step R P m (vpn_complete_connect_request r m)"
| step_exclusions: "vpn_step R P m (vpn_update_exclusions exiting s m)"
| step_reset_connections: "vpn_step R P m (vpn_reset_connections exiting uid m)"
| step_network_change: "vpn_step R P m (vpn_notify_network_change exiting n m)"
| step_stats: "vpn_step R P m (vpn_request_endpoint_connection_stats exiting m)"
| step_sleep: "vpn_step R P m (vpn_notify_sleep exiting m)"
| step_wake: "vpn_step R P m (vpn_notify_wake exiting m)"
| step_packets: "vpn_step R P m (snd (vpn_process_client_packets n m))"
| step_stop_begin: "vpn_step R P m (vpn_stop_begin m)"
| step_stop_end: "\<not> loop_running m \<Longrightarrow> vpn_step R P m (vpn_stop_end m)"
| step_executor_exit: "loop_running m \<Longrightarrow> vpn_step R P m (executor_exit m)"
| step_executor_failure: "loop_running m \<Longrightarrow> vpn_step R P m (executor_failure m)"

text \<open>The full invariant: of the session, and of its loop.\<close>

definition loop_present :: "vpn \<Rightarrow> bool" where
  "loop_present v \<longleftrightarrow>
     v_ev_loop_alive v \<or> v_loop v = vpn_event_loop_create \<and> \<not> v_executor_running v"

definition vpn_inv :: "bool \<Rightarrow> vpn_machine \<Rightarrow> bool" where
  "vpn_inv R m \<longleftrightarrow>
     session_inv R [] m \<and> el_inv (v_loop (m_ctx m)) \<and> el_wake False (v_loop (m_ctx m)) \<and>
     loop_present (m_ctx m)"

lemma running_alive: "loop_present v \<Longrightarrow> el_state (v_loop v) = ELS_RUNNING \<Longrightarrow> v_ev_loop_alive v"
  by (auto simp: loop_present_def vpn_event_loop_create_def)

lemma api_part_alive: "api_part v' = api_part v \<Longrightarrow> v_ev_loop_alive v' = v_ev_loop_alive v"
  by (simp add: api_part_def)

subsection \<open>Draining the queue\<close>

lemma with_loop_same: "with_loop (v_loop (m_ctx m)) m = m"
  by (simp add: with_loop_def on_ctx_def)

lemma with_loop_simps [simp]:
  "m_ctx (with_loop L m) = (m_ctx m)\<lparr>v_loop := L\<rparr>" "with_loop L (with_loop L' m) = with_loop L m"
  by (simp_all add: with_loop_def on_ctx_def)

lemma state_ok_transfer:
  assumes "state_ok ts s v" and q: "ts' @ queued v' = ts @ queued v"
    and f: "v_client_state v' = v_client_state v" "v_pinger v' = v_pinger v"
      "v_selected_endpoint v' = v_selected_endpoint v" "v_executor_running v' = v_executor_running v"
      "v_connected_once v' = v_connected_once v" "v_recovery v' = v_recovery v"
    and a: "attempt_scheduled v \<Longrightarrow> attempt_scheduled v' \<or> DoRecoveryTask \<in> set ts'"
    and d: "DoRecoveryTask \<in> set ts \<Longrightarrow> DoRecoveryTask \<in> set ts'"
  shows "state_ok ts' s v'"
proof (cases "s = VPN_SS_DISCONNECTED")
  case True
  with assms(1) show ?thesis unfolding state_ok_def q off_def f by simp
next
  case False
  with assms(1) a d show ?thesis unfolding state_ok_def q off_def f by auto
qed

lemma session_inv_loop_cong:
  assumes "session_inv R ts (with_loop L m)" and "el_task_queue L' = el_task_queue L"
    and "el_deferred_task_queue L' = el_deferred_task_queue L" and "el_next_task_id L' = el_next_task_id L"
  shows "session_inv R ts (with_loop L' m)"
proof -
  let ?v = "(m_ctx m)\<lparr>v_loop := L\<rparr>" and ?v' = "(m_ctx m)\<lparr>v_loop := L'\<rparr>"
  have b: "base R ?v" and s: "state_ok ts (m_current_state m) ?v"
    using assms(1) by (simp_all add: session_inv_def with_loop_def)
  have "base R (?v\<lparr>v_loop := L'\<rparr>)"
    by (rule base_drop [OF b]) (simp_all add: assms(2-4))
  moreover have "state_ok ts (m_current_state m) ?v'"
    using s by (rule state_ok_transfer) (simp_all add: assms(2-4) queued_def attempt_scheduled_def)
  ultimately show ?thesis
    using assms(1) by (simp add: session_inv_def) (simp add: with_loop_def)
qed

lemma session_inv_pop:
  assumes "session_inv R [] (with_loop L m)" and "el_task_queue L = (i, t) # q"
  shows "session_inv R [t] (with_loop (L\<lparr>el_task_queue := q\<rparr>) m)"
proof -
  let ?v = "(m_ctx m)\<lparr>v_loop := L\<rparr>" and ?v' = "(m_ctx m)\<lparr>v_loop := L\<lparr>el_task_queue := q\<rparr>\<rparr>"
  have b: "base R ?v" and s: "state_ok [] (m_current_state m) ?v"
    using assms(1) by (simp_all add: session_inv_def with_loop_def)
  have "base R (?v\<lparr>v_loop := L\<lparr>el_task_queue := q\<rparr>\<rparr>)"
    by (rule base_drop [OF b]) (simp_all add: assms(2) list_emb_Cons)
  then have b': "base R ?v'" by simp
  have "state_ok [t] (m_current_state m) ?v'"
    using s by (rule state_ok_transfer) (simp_all add: queued_def assms(2) attempt_scheduled_def)
  moreover have "task_ok R t" using b by (simp add: base_def config_ok_def queued_def assms(2))
  ultimately show ?thesis
    using assms(1) b' by (simp add: session_inv_def) (simp add: with_loop_def)
qed

lemma session_inv_pop_deferred:
  assumes "session_inv R [] (with_loop L m)" and "map_of (el_deferred_task_queue L) i = Some t"
  shows "session_inv R [t] (with_loop (L\<lparr>el_deferred_task_queue := erase_id i (el_deferred_task_queue L)\<rparr>) m)"
proof -
  let ?L' = "L\<lparr>el_deferred_task_queue := erase_id i (el_deferred_task_queue L)\<rparr>"
  let ?v = "(m_ctx m)\<lparr>v_loop := L\<rparr>" and ?v' = "(m_ctx m)\<lparr>v_loop := ?L'\<rparr>"
  have b: "base R ?v" and s: "state_ok [] (m_current_state m) ?v"
    using assms(1) by (simp_all add: session_inv_def with_loop_def)
  have t: "t = DoRecoveryTask"
    using b map_of_SomeD [OF assms(2)] by (auto simp: base_def deferred_ok_def)
  have "subseq (erase_id i xs) xs" for xs :: "(task_id \<times> vpn_task) list" by (induction xs) auto
  then have "base R (?v\<lparr>v_loop := ?L'\<rparr>)" by (intro base_drop [OF b]) simp_all
  then have b': "base R ?v'" by simp
  have "state_ok [t] (m_current_state m) ?v'"
  proof -
    have "queued ?v' = queued ?v" by (simp add: queued_def)
    then show ?thesis
      using s by (auto simp: t state_ok_def off_def is_connect_def split: if_splits)
  qed
  then show ?thesis
    using assms(1) b' t by (simp add: session_inv_def task_ok_def) (simp add: with_loop_def)
qed

definition task_invariant :: "bool \<Rightarrow> vpn_task list \<Rightarrow> vpn_task event_loop \<Rightarrow> vpn_machine \<Rightarrow> bool" where
  "task_invariant R ts L m \<longleftrightarrow>
     session_inv R ts (with_loop L m) \<and> el_state L = ELS_RUNNING \<and> v_ev_loop_alive (m_ctx m)"

interpretation vpn_session: event_loop_invariant vpn_act "task_invariant R" for R
proof unfold_locales
  fix ts L L' and w :: vpn_machine
  assume "task_invariant R ts L w" and "same_tasks L L'"
  then show "task_invariant R ts L' w"
    by (auto intro: session_inv_loop_cong simp: same_tasks_def task_invariant_def)
next
  fix L i t q and w :: vpn_machine
  assume "task_invariant R [] L w" "el_task_queue L = (i, t) # q"
  then show "task_invariant R [t] (L\<lparr>el_task_queue := q\<rparr>) w"
    by (auto intro: session_inv_pop simp: task_invariant_def)
next
  fix L i t and w :: vpn_machine
  assume "task_invariant R [] L w" "map_of (el_deferred_task_queue L) i = Some t"
  then show "task_invariant R [t] (L\<lparr>el_deferred_task_queue := erase_id i (el_deferred_task_queue L)\<rparr>) w"
    by (auto intro: session_inv_pop_deferred simp: task_invariant_def)
next
  fix t i L L' and w w' :: vpn_machine
  assume I: "task_invariant R [t] L w" and inv: "el_inv L" and act: "vpn_act t i (L, w) = (L', w')"
  have "session_inv R [] (run_task t (with_loop L w))"
    by (rule run_task_inv) (use I inv in \<open>simp_all add: loop_ok_def task_invariant_def\<close>)
  moreover have w': "w' = run_task t (with_loop L w)" and L': "L' = v_loop (m_ctx w')"
    using act by (auto simp: vpn_act_def Let_def vpn_loop_of_def)
  moreover have "el_state L' = el_state L"
    using el_calls_extends [OF run_task_calls [of "with_loop L w" t]] by (simp add: L' w' el_extends_def)
  moreover have "v_ev_loop_alive (m_ctx w') = v_ev_loop_alive (m_ctx w)"
    by (rule api_part_alive) (simp add: w' run_task_api)
  ultimately show "task_invariant R [] L' w'"
    using I by (simp add: task_invariant_def with_loop_same)
qed

lemma drain_queue_inv:
  assumes "vpn_inv R m" and "loop_running m" and "0 < el_pending_runs (v_loop (m_ctx m))"
  shows "vpn_inv R (drain_queue m)"
proof -
  let ?L = "v_loop (m_ctx m)"
  obtain L' m' where r: "run_task_queue vpn_act (?L, m) = (L', m')"
    by (cases "run_task_queue vpn_act (?L, m)")
  have i: "session_inv R [] m" "el_inv ?L" "el_wake False ?L" "loop_present (m_ctx m)"
    using assms(1) by (simp_all add: vpn_inv_def)
  have "task_invariant R [] L' m'"
    using vpn_session.run_task_queue_I [OF _ i(2) r, of R] i(1) assms(2) running_alive [OF i(4)]
    by (simp add: with_loop_same task_invariant_def)
  moreover have "el_inv L'" "el_wake False L'"
    using vpn_loop.run_task_queue_inv [OF i(2), of m] vpn_loop.run_task_queue_wake [OF i(3) assms(3), of m]
    by (simp_all add: r)
  ultimately show ?thesis
    by (simp add: vpn_inv_def drain_queue_def loop_callback_def vpn_loop_of_def r task_invariant_def
        loop_present_def)
qed

lemma fire_deferred_inv:
  assumes "vpn_inv R m" and "loop_running m"
  shows "vpn_inv R (fire_deferred i m)"
proof -
  let ?L = "v_loop (m_ctx m)"
  obtain L' m' where r: "run_deferred_task vpn_act i (?L, m) = (L', m')"
    by (cases "run_deferred_task vpn_act i (?L, m)")
  have i: "session_inv R [] m" "el_inv ?L" "el_wake False ?L" "loop_present (m_ctx m)"
    using assms(1) by (simp_all add: vpn_inv_def)
  have "task_invariant R [] L' m'"
    using vpn_session.run_deferred_task_I [OF _ i(2) r, of R] i(1) assms(2) running_alive [OF i(4)]
    by (simp add: with_loop_same task_invariant_def)
  moreover have "el_inv L'" "el_wake False L'"
    using vpn_loop.run_deferred_task_inv [OF i(2), of i m] vpn_loop.run_deferred_task_wake [OF i(3), of i m]
    by (simp_all add: r)
  ultimately show ?thesis
    by (simp add: vpn_inv_def fire_deferred_def loop_callback_def vpn_loop_of_def r task_invariant_def
        loop_present_def)
qed

subsection \<open>Steps of the session\<close>

subsection \<open>Every step keeps the invariant\<close>

text \<open>A step that touches the loop through its operations.\<close>

lemma vpn_invI:
  assumes "vpn_inv R m" and "session_inv R [] m'" and "loop_calls (m_ctx m) (m_ctx m')"
    and "v_ev_loop_alive (m_ctx m)" and "api_part (m_ctx m') = api_part (m_ctx m)"
  shows "vpn_inv R m'"
  using assms el_calls_inv el_calls_wake api_part_alive [OF assms(5)]
  by (auto simp: vpn_inv_def loop_present_def)

text \<open>A step that only changes bookkeeping of the loop.\<close>

lemma vpn_inv_loop:
  assumes "vpn_inv R m" and "el_task_queue L' = el_task_queue (v_loop (m_ctx m))"
    and "el_deferred_task_queue L' = el_deferred_task_queue (v_loop (m_ctx m))"
    and "el_next_task_id L' = el_next_task_id (v_loop (m_ctx m))"
    and "el_running L' = el_running (v_loop (m_ctx m))" "el_finalized L' = el_finalized (v_loop (m_ctx m))"
    and "el_task_queue_scheduled L' = el_task_queue_scheduled (v_loop (m_ctx m))"
    and "el_pending_runs L' = el_pending_runs (v_loop (m_ctx m))"
    and "v_ev_loop_alive (m_ctx m)"
  shows "vpn_inv R (with_loop L' m)"
proof -
  have "session_inv R [] (with_loop L' m)"
    by (rule session_inv_loop_cong [where L = "v_loop (m_ctx m)"])
      (use assms in \<open>simp_all add: vpn_inv_def with_loop_same\<close>)
  then show ?thesis
    using assms by (auto simp: vpn_inv_def el_inv_defs el_wake_def loop_present_def split: if_splits)
qed

lemma vpn_inv_running: "vpn_inv R m \<Longrightarrow> loop_running m \<Longrightarrow> v_ev_loop_alive (m_ctx m)"
  by (simp add: vpn_inv_def running_alive)

lemma session_loop_ok: "vpn_inv R m \<Longrightarrow> loop_running m \<Longrightarrow> loop_ok (m_ctx m)"
  by (simp add: vpn_inv_def loop_ok_def)

lemma submit_step:
  assumes "vpn_inv R m" and "v_ev_loop_alive (m_ctx m)"
    and "task_ok R t" and "\<not> is_connect t" and "t \<noteq> RetryConnectTask"
  shows "vpn_inv R (on_ctx (vpn_submit t) m)"
  by (rule vpn_invI [OF assms(1)])
    (use assms in \<open>simp_all add: vpn_inv_def submit_inv submit_calls\<close>)

lemma submit_if:
  assumes "vpn_inv R m" and "task_ok R t" and "\<not> is_connect t" and "t \<noteq> RetryConnectTask"
    and "\<not> P (m_ctx m) \<Longrightarrow> v_ev_loop_alive (m_ctx m)"
  shows "vpn_inv R (on_ctx (\<lambda>v. if P v then v else vpn_submit t v) m)"
  using submit_step [OF assms(1) _ assms(2-4)] assms(1,5) by (auto simp: on_ctx_def)

lemma emit_step: "vpn_inv R m \<Longrightarrow> vpn_inv R (on_ctx (emit e) m)"
  by (simp add: vpn_inv_def session_inv_def) (simp add: loop_present_def emit_def)

lemma client_handler_step:
  assumes "vpn_inv R m" and "loop_running m"
    and "what = EVENT_CONNECTED \<Longrightarrow> v_client_state (m_ctx m) = CLIS_CONNECTING"
  shows "vpn_inv R (client_handler what m)"
proof (rule vpn_invI [OF assms(1)])
  show "session_inv R [] (client_handler what m)"
    using client_handler_inv [OF _ session_loop_ok [OF assms(1,2)] assms(3)] assms(1) by (simp add: vpn_inv_def)
  show "loop_calls (m_ctx m) (m_ctx (client_handler what m))"
    by (cases what) (auto simp: client_handler_def intro!: transition_calls_after)
  show "v_ev_loop_alive (m_ctx m)" by (rule vpn_inv_running [OF assms(1,2)])
  show "api_part (m_ctx (client_handler what m)) = api_part (m_ctx m)"
    by (cases what) (simp_all add: client_handler_def)
qed

lemma pinger_handler_step:
  assumes "vpn_inv R m" and "loop_running m" and "ping_due (m_ctx m)" and "ep_ok R (pr_endpoint r)"
  shows "vpn_inv R (pinger_handler (Some r) m)"
proof (rule vpn_invI [OF assms(1)])
  show "session_inv R [] (pinger_handler (Some r) m)"
    using pinger_handler_inv [OF _ session_loop_ok [OF assms(1,2)] assms(3,4)] assms(1) by (simp add: vpn_inv_def)
  show "loop_calls (m_ctx m) (m_ctx (pinger_handler (Some r) m))"
    by (auto simp: pinger_handler_def Let_def fsm_assert_def intro!: transition_calls_after
        split: option.splits bool.splits)
  show "v_ev_loop_alive (m_ctx m)" by (rule vpn_inv_running [OF assms(1,2)])
  show "api_part (m_ctx (pinger_handler (Some r) m)) = api_part (m_ctx m)"
    by (simp add: pinger_handler_def Let_def fsm_assert_def split: option.splits bool.splits)
qed

lemma timer_step:
  assumes "vpn_inv R m" and "loop_running m"
  shows "vpn_inv R (postponement_window_timer_cb m)"
proof (rule vpn_invI [OF assms(1)])
  show "session_inv R [] (postponement_window_timer_cb m)"
    by (rule timer_cb_inv) (use assms in \<open>simp add: vpn_inv_def\<close>)
  show "loop_calls (m_ctx m) (m_ctx (postponement_window_timer_cb m))"
    unfolding postponement_window_timer_cb_def on_ctx_simps answer_expired_result by simp
  show "v_ev_loop_alive (m_ctx m)" by (rule vpn_inv_running [OF assms])
  show "api_part (m_ctx (postponement_window_timer_cb m)) = api_part (m_ctx m)"
    unfolding postponement_window_timer_cb_def on_ctx_simps answer_expired_result
    by (simp add: api_part_def)
qed

lemma create_loop_inv: "el_inv vpn_event_loop_create" "el_wake False vpn_event_loop_create"
  by (simp_all add: vpn_event_loop_create_def el_inv_defs el_wake_def issued_ids_def)

lemma executor_steps:
  assumes "vpn_inv R m" and "loop_running m"
  shows "vpn_inv R (executor_exit m)" and "vpn_inv R (executor_failure m)"
proof -
  have exit: "executor_exit m' = with_loop (loop_run_end (v_loop (m_ctx m'))) m'" for m'
    by (simp add: executor_exit_def with_loop_def on_ctx_def)
  show i: "vpn_inv R (executor_exit m)"
    unfolding exit
    by (rule vpn_inv_loop [OF assms(1)]) (simp_all add: loop_run_end_def vpn_inv_running [OF assms])
  let ?m = "on_ctx (\<lambda>v. v\<lparr>v_pending_error := Some (VpnError VPN_EC_EVENT_LOOP_FAILURE (Some ''Event loop run error''))\<rparr>)
      (executor_exit m)"
  have "vpn_inv R ?m"
    using i by (simp add: vpn_inv_def session_inv_def) (simp add: loop_present_def)
  moreover have "session_inv R [] (vpn_transition CE_SHUTDOWN NullArg ?m)"
  proof -
    have "session_inv R [] ?m" using \<open>vpn_inv R ?m\<close> by (simp add: vpn_inv_def)
    note p = session_inv_parts [OF this]
    show ?thesis by (rule inv_SHUTDOWN [OF p(1,2) state_ok_running [OF p(3)]])
  qed
  moreover have "v_ev_loop_alive (m_ctx ?m)"
    using vpn_inv_running [OF assms] by (simp add: executor_exit_def)
  ultimately have "vpn_inv R (vpn_transition CE_SHUTDOWN NullArg ?m)"
    by (rule vpn_invI [OF _ _ transition_calls _ transition_api])
  then show "vpn_inv R (executor_failure m)"
    by (simp add: executor_failure_def shutdown_cb_def executor_exit_def on_ctx_def)
qed

lemma stop_steps:
  assumes "vpn_inv R m"
  shows "vpn_inv R (vpn_stop_begin m)" and "vpn_inv R (vpn_stop_end m)"
proof -
  let ?m = "on_ctx (vpn_submit StopTask) m"
  have "vpn_inv R (with_loop (finalize_exit_begin (v_loop (m_ctx ?m))) ?m)" if "v_ev_loop_alive (m_ctx m)"
  proof -
    have "vpn_inv R ?m" by (rule submit_step [OF assms that]) (simp_all add: task_ok_def is_connect_def)
    then show ?thesis
      by (rule vpn_inv_loop) (simp_all add: finalize_exit_begin_def that vpn_submit_def)
  qed
  then show "vpn_inv R (vpn_stop_begin m)"
    using assms by (auto simp: vpn_stop_begin_def with_loop_def on_ctx_def)
  have p: "machine_ok m" "base R (m_ctx m)"
    using assms session_inv_parts(1,2) by (auto simp: vpn_inv_def)
  let ?w = "stop_pinging (emit ClientFinalizeDisconnect ((m_ctx m)\<lparr>v_loop := finalize_exit_end (v_loop (m_ctx m)),
      v_executor_running := False, v_pending_error := None, v_client_state := CLIS_DISCONNECTED\<rparr>))"
  have w: "v_upstream_config ?w = v_upstream_config (m_ctx m)" "v_client_state ?w = CLIS_DISCONNECTED"
      "\<not> v_pinger ?w" "v_ub ?w = v_ub (m_ctx m)" "\<not> v_executor_running ?w" "v_ping_barrier ?w = None"
    using base_not_pinging [OF p(2)] by (auto simp: stop_pinging_def emit_def Let_def)
  have ctx: "m_ctx (vpn_stop_end m) = ?w\<lparr>v_postponement_window_timer := False, v_ev_loop_alive := False,
      v_loop := vpn_event_loop_create, v_recovery := recovery_info_init, v_selected_endpoint := None,
      v_update_exclusions_task := None, v_postponed_requests := [], v_bypassed_connection_ids := []\<rparr>"
    by (simp add: vpn_stop_end_def fsm_reset_def)
  have "base R (m_ctx (vpn_stop_end m))"
    using p(2) w by (simp add: ctx base_defs recovery_info_init_def vpn_event_loop_create_def)
  moreover have "state_ok [] VPN_SS_DISCONNECTED (m_ctx (vpn_stop_end m))"
    using w by (simp add: ctx state_ok_def off_def queued_def recovery_info_init_def vpn_event_loop_create_def)
  moreover have "m_current_state (vpn_stop_end m) = VPN_SS_DISCONNECTED" "machine_ok (vpn_stop_end m)"
    using p(1) by (simp_all add: vpn_stop_end_def fsm_reset_def machine_ok_def)
  ultimately have "session_inv R [] (vpn_stop_end m)" by (intro session_invI) simp_all
  then show "vpn_inv R (vpn_stop_end m)"
    using create_loop_inv w by (simp add: vpn_inv_def ctx loop_present_def)
qed

lemma submit_connect:
  assumes "base R v" and "state_ok [] VPN_SS_DISCONNECTED v" and "off v" and "v_executor_running v"
    and "filter is_connect (queued v) = []" and "list_all (ep_ok R) (cfg_endpoints cfg)"
    and "el_state (v_loop v) \<noteq> ELS_BASE_EXITED" and "v' = vpn_submit (ConnectTask cfg ri) v"
  shows "base R v'" and "state_ok [] VPN_SS_DISCONNECTED v'"
proof -
  show "base R v'" using assms(1,6,8) by (simp add: submit_base task_ok_def)
  have "queued v' = queued v @ [ConnectTask cfg ri]" using assms(7,8) by (simp add: submit_queued)
  moreover have "off v'" "v_executor_running v'" "v_recovery v' = v_recovery v"
    using assms(3,4,8) by (simp_all add: off_def vpn_submit_def)
  ultimately show "state_ok [] VPN_SS_DISCONNECTED v'"
    using assms(2,5) by (simp add: state_ok_def is_connect_def)
qed

text \<open>
  \<^verbatim>\<open>run_event_loop\<close> finds the session at rest; a loop it has to make is in the state of the one
  that is gone.
\<close>

lemma start_loop_inv:
  assumes "vpn_inv R m" and "\<not> v_executor_running (m_ctx m)"
    and "m1 = with_loop (loop_run_begin (v_loop (m_ctx m)))
      (on_ctx (\<lambda>v. v\<lparr>v_ev_loop_alive := True, v_executor_running := True\<rparr>) m)"
  shows "vpn_inv R m1" and "off (m_ctx m1)" and "filter is_connect (queued (m_ctx m1)) = []"
    and "m_current_state m1 = VPN_SS_DISCONNECTED"
proof -
  let ?m0 = "on_ctx (\<lambda>v. v\<lparr>v_ev_loop_alive := True, v_executor_running := True\<rparr>) m"
  have i: "session_inv R [] m" using assms(1) by (simp add: vpn_inv_def)
  note p = session_inv_parts [OF i]
  have s: "m_current_state m = VPN_SS_DISCONNECTED" and o: "off (m_ctx m)"
      and none: "filter is_connect (queued (m_ctx m)) = []" and r: "rec_attempts (v_recovery (m_ctx m)) = 0"
    using p(3) assms(2) by (auto simp: state_ok_def split: if_splits)
  have q0: "queued (m_ctx ?m0) = queued (m_ctx m)" by (simp add: queued_def)
  have "session_inv R [] ?m0"
    using p(1,2) none r s q0
    by (intro session_invI) (simp_all add: base_defs state_ok_def off_def)
  then have "vpn_inv R ?m0" using assms(1) by (simp add: vpn_inv_def loop_present_def)
  then have "vpn_inv R (with_loop (loop_run_begin (v_loop (m_ctx ?m0))) ?m0)"
    by (rule vpn_inv_loop) (simp_all add: loop_run_begin_def)
  then show "vpn_inv R m1" by (simp add: assms(3))
  show "off (m_ctx m1)" using o by (simp add: assms(3) off_def)
  show "filter is_connect (queued (m_ctx m1)) = []"
    using none by (simp add: assms(3) queued_def loop_run_begin_def)
  show "m_current_state m1 = VPN_SS_DISCONNECTED" using s by (simp add: assms(3) with_loop_def)
qed

lemma vpn_connect_step:
  assumes "vpn_inv R m" and "how \<noteq> LoopNotStarted" and "list_all (ep_ok R) (cfg_endpoints cfg)"
  shows "vpn_inv R (snd (vpn_connect how cfg policy m))"
proof (cases "err_code (validate_upstream_config cfg) = VPN_EC_NOERROR \<and> \<not> v_executor_running (m_ctx m) \<and>
    \<not> (\<not> v_ev_loop_alive (m_ctx m) \<and> how = LoopNotCreated)")
  case False
  then show ?thesis
    using assms(1) by (auto simp: vpn_connect_def run_event_loop_def Let_def)
next
  case True
  let ?t = "ConnectTask cfg (make_retry_info policy)"
  define m1 where "m1 = with_loop (loop_run_begin (v_loop (m_ctx m)))
      (on_ctx (\<lambda>v. v\<lparr>v_ev_loop_alive := True, v_executor_running := True\<rparr>) m)"
  have r: "vpn_inv R m1" "off (m_ctx m1)" "filter is_connect (queued (m_ctx m1)) = []"
      "m_current_state m1 = VPN_SS_DISCONNECTED"
    using start_loop_inv [OF assms(1) _ m1_def] True by simp_all
  have L1: "el_state (v_loop (m_ctx m1)) = ELS_RUNNING" "v_ev_loop_alive (m_ctx m1)" "v_executor_running (m_ctx m1)"
    by (simp_all add: m1_def loop_run_begin_def)
  define m2 where "m2 = on_ctx (vpn_submit CompletionTask) m1"
  have i2: "vpn_inv R m2" unfolding m2_def
    by (rule submit_step [OF r(1) L1(2)]) (simp_all add: task_ok_def is_connect_def)
  have f2: "off (m_ctx m2)" "filter is_connect (queued (m_ctx m2)) = []" "v_executor_running (m_ctx m2)"
      "v_ev_loop_alive (m_ctx m2)" "m_current_state m2 = VPN_SS_DISCONNECTED"
      "el_state (v_loop (m_ctx m2)) = ELS_RUNNING"
    using r L1 submit_queued [of "m_ctx m1" CompletionTask]
    by (simp_all add: m2_def is_connect_def submit_frame) (simp_all add: off_def vpn_submit_def submit_frame)
  have "session_inv R [] m2" using i2 by (simp add: vpn_inv_def)
  note p = session_inv_parts [OF this]
  have i3: "session_inv R [] (on_ctx (vpn_submit ?t) m2)"
    using submit_connect [OF p(2) _ f2(1,3,2) assms(3) _ refl, of "make_retry_info policy"] p(1,3) f2(5,6)
    by (intro session_invI) simp_all
  have "vpn_inv R (on_ctx (vpn_submit ?t) m2)"
    by (rule vpn_invI [OF i2 i3]) (simp_all add: submit_calls f2(4))
  moreover have "snd (vpn_connect how cfg policy m) = on_ctx (vpn_submit ?t) m2"
  proof -
    have "(if v_ev_loop_alive (m_ctx m) then v_loop (m_ctx m) else vpn_event_loop_create) = v_loop (m_ctx m)"
      using assms(1) by (auto simp: vpn_inv_def loop_present_def)
    then show ?thesis
      using True assms(2)
      by (auto simp: vpn_connect_def run_event_loop_def Let_def m2_def m1_def on_ctx_def with_loop_def vpn_submit_def)
  qed
  ultimately show ?thesis by simp
qed

text \<open>
  Replacing the handle of a queued update of the exclusions cancels that update and no other task.
\<close>

lemma state_ok_drop:
  assumes "state_ok [] s v" and sub: "subseq (queued v') (queued v)"
    and f: "v_client_state v' = v_client_state v" "v_pinger v' = v_pinger v"
      "v_selected_endpoint v' = v_selected_endpoint v" "v_executor_running v' = v_executor_running v"
      "v_connected_once v' = v_connected_once v" "v_recovery v' = v_recovery v"
    and a: "attempt_scheduled v \<Longrightarrow> attempt_scheduled v'"
    and d: "FailedRecoveryTask \<in> set (queued v) \<Longrightarrow> FailedRecoveryTask \<in> set (queued v')"
  shows "state_ok [] s v'"
proof (cases "s = VPN_SS_DISCONNECTED")
  case True
  have ok: "state_ok [] VPN_SS_DISCONNECTED v" using assms(1) True by simp
  show ?thesis unfolding True
    by (rule state_ok_disconnected_drop [OF ok sub]) (use f ok in \<open>auto simp: off_def state_ok_def\<close>)
next
  case False
  have "RetryConnectTask \<in> set (queued v') \<Longrightarrow> RetryConnectTask \<in> set (queued v)"
    using subseq_set [OF sub] by auto
  with False assms(1) a d subseq_no_connect [OF sub] show ?thesis
    unfolding state_ok_def off_def f by auto
qed

lemma deferred_ids_bound:
  assumes "el_inv L" and "i \<in> set (deferred_ids L)"
  shows "i < el_next_task_id L"
proof -
  have "i \<in># issued_ids (el_next_task_id L)"
    using assms by (metis el_inv_def set_mset_mset union_iff)
  then show ?thesis by (simp add: set_issued)
qed

lemma cancel_update_keeps:
  assumes "handles_ok v" and "v_update_exclusions_task v = h"
  shows "attempt_scheduled v \<Longrightarrow> attempt_scheduled (v\<lparr>v_loop := auto_task_reset h (v_loop v)\<rparr>)"
    and "FailedRecoveryTask \<in> set (queued v) \<Longrightarrow>
      FailedRecoveryTask \<in> set (queued (v\<lparr>v_loop := auto_task_reset h (v_loop v)\<rparr>))"
proof -
  show "attempt_scheduled (v\<lparr>v_loop := auto_task_reset h (v_loop v)\<rparr>)" if scheduled: "attempt_scheduled v"
  proof -
    obtain i where i: "rec_task (v_recovery v) = Some i"
        "(i, DoRecoveryTask) \<in> set (el_deferred_task_queue (v_loop v))"
      using scheduled by (auto simp: attempt_scheduled_def)
    then have "h \<noteq> Some i" using assms by (force simp: handles_ok_def deferred_ids_def)
    from cancel_keeps_other [OF i(2) this] i(1) show ?thesis by (auto simp: attempt_scheduled_def)
  qed
  show "FailedRecoveryTask \<in> set (queued (v\<lparr>v_loop := auto_task_reset h (v_loop v)\<rparr>))"
    if failed: "FailedRecoveryTask \<in> set (queued v)"
  proof -
    have other: "x \<in> set xs \<Longrightarrow> fst x \<noteq> i \<Longrightarrow> x \<in> set (erase_id i xs)"
      for i and x :: "task_id \<times> vpn_task" and xs by (induction xs) auto
    obtain k where k: "(k, FailedRecoveryTask) \<in> set (el_task_queue (v_loop v))"
      using failed by (auto simp: queued_def)
    then have "h \<noteq> Some k" using assms by (auto simp: handles_ok_def)
    then have "(k, FailedRecoveryTask) \<in> set (el_task_queue (auto_task_reset h (v_loop v)))"
      using k other by (cases h) (auto simp: auto_task_reset_def el_op_defs)
    then show ?thesis by (force simp: queued_def)
  qed
qed

lemma vpn_update_exclusions_step:
  assumes "vpn_inv R m"
  shows "vpn_inv R (vpn_update_exclusions exiting s m)"
proof (cases "vpn_event_loop_is_active exiting (m_ctx m)")
  case False
  then show ?thesis using assms by (simp add: vpn_update_exclusions_def on_ctx_def)
next
  case True
  let ?t = "UpdateExclusionsTask s" and ?v = "m_ctx m" and ?h = "v_update_exclusions_task (m_ctx m)"
  let ?i = "el_next_task_id (v_loop ?v)"
  have alive: "v_ev_loop_alive ?v" and run: "el_state (v_loop ?v) = ELS_RUNNING"
    using True by (simp_all add: vpn_event_loop_is_active_def)
  define m1 where "m1 = on_ctx (vpn_submit ?t) m"
  have i1: "vpn_inv R m1" unfolding m1_def
    by (rule submit_step [OF assms alive]) (simp_all add: task_ok_def is_connect_def)
  have sub: "fst (vpn_event_loop_submit ?t (v_loop ?v)) = ?i"
    using run by (simp add: vpn_event_loop_submit_def Let_def)
  have pos: "0 \<le> ?i" using assms by (simp add: vpn_inv_def el_inv_def)
  define L2 where "L2 = auto_task_reset ?h (v_loop (m_ctx m1))"
  have m': "vpn_update_exclusions exiting s m =
      on_ctx (\<lambda>v. v\<lparr>v_loop := L2, v_update_exclusions_task := Some ?i\<rparr>) m1"
    using True sub pos
    by (simp add: vpn_update_exclusions_def on_ctx_def L2_def m1_def vpn_submit_def make_auto_task_id_def
        case_prod_beta)
  have s1: "session_inv R [] m1" using i1 by (simp add: vpn_inv_def)
  note p = session_inv_parts [OF s1]
  let ?v2 = "(m_ctx m1)\<lparr>v_loop := L2\<rparr>"
  have b2: "base R ?v2" unfolding L2_def using p(2) by (rule base_cancel)
  have q: "(j, t) \<in> set (el_task_queue L2) \<Longrightarrow> (j, t) \<in> set (el_task_queue (v_loop ?v)) \<or> (j, t) = (?i, ?t)" for j t
    using subseq_set [OF cancel_queues(1)] submit_queue(1) [of ?t "v_loop ?v"]
    by (fastforce simp: L2_def m1_def vpn_submit_def)
  have d: "j \<in> set (deferred_ids L2) \<Longrightarrow> j \<in> set (deferred_ids (v_loop ?v))" for j
    using subseq_set [OF cancel_queues(2)]
    by (fastforce simp: L2_def m1_def vpn_submit_def submit_queue(2) deferred_ids_def)
  have inv: "el_inv (v_loop ?v)" using assms by (simp add: vpn_inv_def)
  have n: "el_next_task_id L2 = ?i + 1"
    by (simp add: L2_def cancel_queues(3) m1_def vpn_submit_def submit_frame)
  have b3: "base R (?v2\<lparr>v_update_exclusions_task := Some ?i\<rparr>)"
    using b2 n queue_ids_bound [OF inv] deferred_ids_bound [OF inv]
    by (fastforce simp: base_defs dest!: q d)
  have h: "handles_ok (m_ctx m1)" "v_update_exclusions_task (m_ctx m1) = ?h"
    using p(2) by (simp_all add: base_def m1_def vpn_submit_def)
  have "state_ok [] (m_current_state m1) ?v2"
    using p(3) unfolding L2_def
    by (rule state_ok_drop [OF _ queued_cancel]) (simp_all add: cancel_update_keeps [OF h])
  then have "session_inv R [] (vpn_update_exclusions exiting s m)"
    unfolding m' using p(1) b3 by (intro session_invI) simp_all
  moreover have "loop_calls (m_ctx m1) (m_ctx (vpn_update_exclusions exiting s m))"
    unfolding m' by (simp add: L2_def auto_task_reset_calls)
  ultimately show ?thesis
    using alive by (intro vpn_invI [OF i1]) (simp_all add: m' m1_def vpn_submit_def api_part_def)
qed

lemma submit_unchecked_step:
  assumes "vpn_inv R m" and "v_ev_loop_alive (m_ctx m)" and "task_ok R t" and "\<not> is_connect t" and "t \<noteq> RetryConnectTask"
  shows "vpn_inv R (submit_unchecked t m)"
proof -
  have "submit_unchecked t m = on_ctx (vpn_submit t) m"
    using assms(2) by (simp add: on_ctx_def submit_unchecked_def)
  then show ?thesis using submit_step [OF assms] by simp
qed

text \<open>Every step.\<close>

lemma vpn_step_inv:
  assumes "vpn_step R P m m'" and "vpn_inv R m"
  shows "vpn_inv R m'"
  using assms
proof (induction rule: vpn_step.induct)
  case (step_env m e)
  have "base R ((m_ctx m)\<lparr>v_env := e\<rparr>) = base R (m_ctx m)" by (simp add: base_defs)
  moreover have "state_ok [] s ((m_ctx m)\<lparr>v_env := e\<rparr>) = state_ok [] s (m_ctx m)" for s
    by (simp add: state_ok_def off_def queued_def attempt_scheduled_def)
  ultimately show ?case
    using step_env by (simp add: vpn_inv_def session_inv_def loop_present_def)
next
  case (step_listen m l c)
  then have "v_executor_running (m_ctx m) \<Longrightarrow> v_ev_loop_alive (m_ctx m)"
    by (auto simp: vpn_inv_def loop_present_def)
  with step_listen show ?case
    by (auto simp: vpn_listen_def task_ok_def is_connect_def intro!: submit_step)
next
  case (step_stats m exiting)
  then show ?case
    using submit_step [of R m ConnectionStatsTask] emit_step [of R m]
    by (auto simp: vpn_request_endpoint_connection_stats_def on_ctx_def task_ok_def is_connect_def
        vpn_event_loop_is_active_def)
next
  case (step_packets m n)
  then show ?case
    by (auto simp: vpn_process_client_packets_def task_ok_def is_connect_def intro!: submit_step)
qed (auto simp: drain_queue_inv fire_deferred_inv pinger_handler_step client_handler_step timer_step
    vpn_connect_step executor_steps stop_steps vpn_update_exclusions_step
    vpn_force_reconnect_def vpn_force_disconnect_def vpn_abandon_endpoint_def submit_unchecked_step
    vpn_complete_connect_request_def vpn_reset_connections_def vpn_notify_network_change_def
    vpn_notify_sleep_def vpn_notify_wake_def submit_if_active_def vpn_event_loop_is_active_def
    task_ok_def is_connect_def intro!: submit_if)

subsection \<open>Every reachable session\<close>

definition vpn_start :: "vpn_machine \<Rightarrow> bool" where
  "vpn_start m \<longleftrightarrow> (\<exists>kill env. vpn_open kill env = Some m)"

abbreviation vpn_reachable :: "bool \<Rightarrow> (connect_retry_policy \<Rightarrow> bool) \<Rightarrow> vpn_machine \<Rightarrow> bool" where
  "vpn_reachable R P \<equiv> reach vpn_start (vpn_step R P)"

lemma vpn_open_inv:
  assumes "vpn_open kill env = Some m"
  shows "vpn_inv R m"
proof -
  have m: "m = \<lparr>m_initial_state = VPN_SS_DISCONNECTED, m_current_state = VPN_SS_DISCONNECTED,
      m_recursive = False, m_ctx = vpn_fresh kill env, m_asserted = False\<rparr>"
    using assms by (simp add: vpn_open_def make_fsm_def split: if_splits)
  have l: "v_loop (vpn_fresh kill env) = vpn_event_loop_create" by (simp add: vpn_fresh_def)
  have q: "el_task_queue vpn_event_loop_create = []" "el_deferred_task_queue vpn_event_loop_create = []"
    by (simp_all add: vpn_event_loop_create_def)
  have "base R (vpn_fresh kill env)"
    by (simp add: base_defs l q) (simp add: vpn_fresh_def recovery_info_init_def)
  moreover have "state_ok [] VPN_SS_DISCONNECTED (vpn_fresh kill env)"
    by (simp add: state_ok_def queued_def l q) (simp add: vpn_fresh_def recovery_info_init_def off_def)
  ultimately show ?thesis
    using create_loop_inv by (simp add: vpn_inv_def session_inv_def m l loop_present_def)
      (simp add: vpn_fresh_def)
qed

interpretation vpn_system: transition_invariant vpn_start "vpn_step R P" "vpn_inv R" for R P
  by unfold_locales (auto simp: vpn_start_def intro: vpn_open_inv vpn_step_inv)

end
