(* ===== verification/Vpn_Requests.thy ===== *)
theory Vpn_Requests
  imports Vpn_Reach
begin

section \<open>Answers to connection requests\<close>

text \<open>
  What the session tells the client about connection requests, read off the calls it makes: the
  requests answered so far, and those let past the tunnel. No event loses or repeats an answer
  (\<open>ledger\<close>), and under the kill switch no request is let past the tunnel (\<open>nothing_past\<close>).
\<close>

definition answered :: "vpn_effect list \<Rightarrow> u64 list" where
  "answered es = List.map_filter (\<lambda>e. case e of CompleteRequest i a \<Rightarrow> Some i | RejectRequest i \<Rightarrow> Some i | _ \<Rightarrow> None) es"

definition let_past :: "vpn_effect list \<Rightarrow> u64 list" where
  "let_past es = List.map_filter (\<lambda>e. case e of CompleteRequest i a \<Rightarrow>
     (if a = Some VPN_CA_FORCE_BYPASS then Some i else None) | _ \<Rightarrow> None) es"

definition ledger :: "vpn \<Rightarrow> u64 multiset" where
  "ledger v = mset (answered (v_out v)) + mset (map crr_id (v_postponed_requests v))"

text \<open>The kill switch is on, the domain filter never decides to bypass, and nothing was let past.\<close>

definition never_forces :: "vpn \<Rightarrow> bool" where
  "never_forces v \<longleftrightarrow> (\<forall>r. env_finalize_connect_action (v_env v) r \<noteq> Some VPN_CA_FORCE_BYPASS)"

definition nothing_past :: "vpn \<Rightarrow> bool" where
  "nothing_past v \<longleftrightarrow> v_kill_switch_on v \<and> never_forces v \<and> let_past (v_out v) = [] \<and>
     list_all (\<lambda>r. crr_action r \<noteq> Some VPN_CA_FORCE_BYPASS) (v_postponed_requests v)"

definition trace_part :: "vpn \<Rightarrow> connect_request_result list \<times> bool \<times> vpn_env \<times> u64 list \<times> u64 list" where
  "trace_part v = (v_postponed_requests v, v_kill_switch_on v, v_env v, answered (v_out v), let_past (v_out v))"

lemma answered_simps [simp]:
  "answered [] = []" "answered (xs @ ys) = answered xs @ answered ys"
  "let_past [] = []" "let_past (xs @ ys) = let_past xs @ let_past ys"
  by (simp_all add: answered_def let_past_def map_filter_def)

lemma answered_one [simp]:
  "answered [e] = (case e of CompleteRequest i a \<Rightarrow> [i] | RejectRequest i \<Rightarrow> [i] | _ \<Rightarrow> [])"
  "let_past [e] = (case e of CompleteRequest i a \<Rightarrow> (if a = Some VPN_CA_FORCE_BYPASS then [i] else []) | _ \<Rightarrow> [])"
  by (cases e; simp add: answered_def let_past_def map_filter_def)+

lemma ledger_trace: "trace_part v' = trace_part v \<Longrightarrow> ledger v' = ledger v \<and> nothing_past v' = nothing_past v"
  by (simp add: trace_part_def ledger_def nothing_past_def never_forces_def)

lemma answered_completions:
  "answered (map (\<lambda>r. CompleteRequest (crr_id r) (crr_action r)) rs) = map crr_id rs"
  "list_all (\<lambda>r. crr_action r \<noteq> Some VPN_CA_FORCE_BYPASS) rs \<Longrightarrow>
     let_past (map (\<lambda>r. CompleteRequest (crr_id r) (crr_action r)) rs) = []"
  "answered (map ResetConnection is) = []" "let_past (map ResetConnection is) = []"
  by (induction rs; simp add: answered_def let_past_def map_filter_def)
    (induction rs; simp add: answered_def let_past_def map_filter_def;
     simp add: answered_def let_past_def map_filter_def)+

subsection \<open>What does not answer\<close>

lemma trace_part_fields [simp]:
  "trace_part (v\<lparr>v_pending_error := x1\<rparr>) = trace_part v"
  "trace_part (v\<lparr>v_loop := x2\<rparr>) = trace_part v"
  "trace_part (v\<lparr>v_recovery := x3\<rparr>) = trace_part v"
  "trace_part (v\<lparr>v_selected_endpoint := x4\<rparr>) = trace_part v"
  "trace_part (v\<lparr>v_client_state := x5\<rparr>) = trace_part v"
  "trace_part (v\<lparr>v_connect_retry_info := x6\<rparr>) = trace_part v"
  "trace_part (v\<lparr>v_bypassed_connection_ids := x7\<rparr>) = trace_part v"
  "trace_part (v\<lparr>v_postponement_window_timer := x8\<rparr>) = trace_part v"
  "trace_part (v\<lparr>v_connected_once := x9\<rparr>) = trace_part v"
  "trace_part (v\<lparr>v_network_changed_before_recovery := x10\<rparr>) = trace_part v"
  "trace_part (v\<lparr>v_upstream_config := x11\<rparr>) = trace_part v"
  "trace_part (v\<lparr>v_ping_failure_induces_location_unavailable := x12\<rparr>) = trace_part v"
  "trace_part (v\<lparr>v_update_exclusions_task := x13\<rparr>) = trace_part v"
  "trace_part (v\<lparr>v_ping_barrier := x14\<rparr>) = trace_part v"
  "trace_part (v\<lparr>v_pinger := x15\<rparr>) = trace_part v"
  "trace_part (v\<lparr>v_executor_running := x16\<rparr>) = trace_part v"
  "trace_part (v\<lparr>v_ev_loop_alive := x17\<rparr>) = trace_part v"
  "trace_part (flag_ub b v) = trace_part v"
  by (simp_all add: trace_part_def flag_ub_def)

lemma trace_part_emit:
  "answered [e] = [] \<Longrightarrow> let_past [e] = [] \<Longrightarrow> trace_part (emit e v) = trace_part v"
  by (simp add: trace_part_def emit_def)

lemma trace_part_frame [simp]:
  "trace_part (disconnect_client v) = trace_part v"
  "trace_part (stop_pinging v) = trace_part v"
  "trace_part (start_pinger v) = trace_part v"
  "trace_part (vpn_submit t v) = trace_part v"
  "trace_part (clear_recovery v) = trace_part v"
  "trace_part (initiate_recovery v) = trace_part v"
  "trace_part (update_upstream_config c v) = trace_part v"
  "trace_part (reset_bypassed_connections v) = trace_part v"
  by (simp_all add: disconnect_client_def stop_pinging_def start_pinger_def vpn_submit_def clear_recovery_def
      initiate_recovery_def update_upstream_config_def trace_part_emit Let_def
      split: client_connection_state.splits prod.splits)
    (simp add: trace_part_def reset_bypassed_connections_def reset_all_out answered_completions)

lemma trace_part_disconnect [simp]: "trace_part (vpn_disconnect v) = trace_part v"
  by (simp add: vpn_disconnect_def)

lemma run_client_connect_trace [simp]: "trace_part (run_client_connect t v) = trace_part v"
  by (simp add: run_client_connect_def trace_part_emit Let_def split: option.splits)

definition keeps_trace :: "vpn_action \<Rightarrow> bool" where
  "keeps_trace a \<longleftrightarrow> (\<forall>d m. trace_part (m_ctx (a d m)) = trace_part (m_ctx m))"

lemma complete_connect_trace: "keeps_trace complete_connect"
  by (simp add: keeps_trace_def complete_connect_def trace_part_emit Let_def split: option.splits)

lemma prepare_for_recovery_trace: "keeps_trace prepare_for_recovery"
  by (simp add: keeps_trace_def prepare_for_recovery_def Let_def split: option.splits)

lemma actions_keep_trace:
  "keeps_trace run_ping" "keeps_trace connect_client" "keeps_trace complete_connect"
  "keeps_trace retry_connect" "keeps_trace prepare_for_recovery" "keeps_trace reconnect_client"
  "keeps_trace do_disconnect" "keeps_trace start_listening"
  "keeps_trace raise_state" "keeps_trace fail_connect_with_no_attempts"
  "keeps_trace prepare_for_recovery_nc" "keeps_trace on_wrong_connect_state"
  "keeps_trace on_wrong_listen_state"
  using complete_connect_trace prepare_for_recovery_trace
  by (simp_all add: keeps_trace_def run_ping_def connect_client_def retry_connect_def
      reconnect_client_def do_disconnect_def start_listening_def raise_state_def
      fail_connect_with_no_attempts_def prepare_for_recovery_nc_def on_wrong_connect_state_def
      on_wrong_listen_state_def take_pending_error_def fsm_assert_def trace_part_emit Let_def
      split: option.splits connect_retry_info.splits)

lemma finalize_recovery_answers:
  "ledger (m_ctx (finalize_recovery d m)) = ledger (m_ctx m)"
  "nothing_past (m_ctx m) \<Longrightarrow> nothing_past (m_ctx (finalize_recovery d m))"
proof -
  define v where "v = (stop_pinging (clear_recovery (emit ClientUpdateBypassIp (m_ctx m))))\<lparr>v_postponement_window_timer := False\<rparr>"
  have v: "trace_part v = trace_part (m_ctx m)" by (simp add: v_def trace_part_emit)
  have f: "trace_part (m_ctx (finalize_recovery d m)) = trace_part (complete_postponed_requests v)"
    by (simp add: finalize_recovery_def v_def Let_def)
  have "ledger (complete_postponed_requests v) = ledger v"
    by (simp add: ledger_def complete_postponed_requests_def complete_all_out answered_completions)
  then show "ledger (m_ctx (finalize_recovery d m)) = ledger (m_ctx m)"
    using ledger_trace [OF f] ledger_trace [OF v] by simp
  have "nothing_past v \<Longrightarrow> nothing_past (complete_postponed_requests v)"
    by (simp add: nothing_past_def never_forces_def complete_postponed_requests_def complete_all_out answered_completions)
  then show "nothing_past (m_ctx m) \<Longrightarrow> nothing_past (m_ctx (finalize_recovery d m))"
    using ledger_trace [OF f] ledger_trace [OF v] by simp
qed

subsection \<open>Events other than a request\<close>

definition other_entries :: "(vpn, vpn_arg) fsm_transition_table" where
  "other_entries = filter (\<lambda>e. event e \<noteq> CE_COMPLETE_REQUEST) vpn_transition_table"

definition answers_kept :: "vpn_machine \<Rightarrow> vpn_machine \<Rightarrow> bool" where
  "answers_kept m m' \<longleftrightarrow> ledger (m_ctx m') = ledger (m_ctx m) \<and> (nothing_past (m_ctx m) \<longrightarrow> nothing_past (m_ctx m'))"

lemma trace_answers: "trace_part (m_ctx m') = trace_part (m_ctx m) \<Longrightarrow> answers_kept m m'"
  unfolding answers_kept_def by (blast dest: ledger_trace)

definition answers_safe :: "vpn_action option \<Rightarrow> bool" where
  "answers_safe b \<longleftrightarrow> (\<forall>a. b = Some a \<longrightarrow> keeps_trace a \<or> a = finalize_recovery)"

lemma answers_safe_simps:
  "answers_safe None" "keeps_trace a \<Longrightarrow> answers_safe (Some a)" "answers_safe (Some finalize_recovery)"
  by (simp_all add: answers_safe_def)

lemma other_entries_trace:
  "list_all (\<lambda>e. event e \<noteq> CE_COMPLETE_REQUEST \<longrightarrow>
     answers_safe (before_transition e) \<and> answers_safe (after_transition e)) vpn_transition_table"
  by (simp add: vpn_table_defs tr_def actions_keep_trace answers_safe_simps)

interpretation vpn_answers: fsm_relation other_entries answers_kept
proof unfold_locales
  fix e a m d
  assume "e \<in> set other_entries" and "before_transition e = Some a \<or> after_transition e = Some a"
  then have "keeps_trace a \<or> a = finalize_recovery"
    using other_entries_trace by (auto simp: list_all_iff other_entries_def answers_safe_def)
  then show "answers_kept m (a d m)"
  proof
    assume "keeps_trace a"
    then show ?thesis by (simp add: trace_answers keeps_trace_def)
  qed (simp add: answers_kept_def finalize_recovery_answers)
qed (auto simp: answers_kept_def)

lemma scan_other_entries:
  assumes "ev \<noteq> CE_COMPLETE_REQUEST"
  shows "vpn_transition ev d m = perform_transition other_entries ev d m"
proof -
  have "find (\<lambda>e. entry_enabled e ev d m') (filter (\<lambda>e. event e \<noteq> CE_COMPLETE_REQUEST) t) =
      find (\<lambda>e. entry_enabled e ev d m') t" for m' and t :: "(vpn, vpn_arg) fsm_transition_table"
    using assms by (induction t) (auto simp: entry_enabled_def)
  then show ?thesis
    by (simp add: vpn_transition_def perform_transition_def scan_table_find other_entries_def)
qed

lemma transition_answers:
  assumes "ev \<noteq> CE_COMPLETE_REQUEST"
  shows "answers_kept m (vpn_transition ev d m)"
proof (cases "m_recursive m")
  case True
  then show ?thesis
    by (simp add: vpn_transition_def perform_transition_recursive answers_kept_def)
next
  case False
  then show ?thesis
    using vpn_answers.transition_establishes [of m ev d] by (simp add: scan_other_entries [OF assms])
qed

lemma transition_answers_after:
  assumes "trace_part (m_ctx m') = trace_part (m_ctx m)" and "ev \<noteq> CE_COMPLETE_REQUEST"
  shows "answers_kept m (vpn_transition ev d m')"
  using transition_answers [OF assms(2), of m' d] trace_answers [OF assms(1)] by (auto simp: answers_kept_def)

subsection \<open>A request\<close>

lemma transition_recursive: "m_recursive (vpn_transition ev d m) = m_recursive m"
  by (simp add: vpn_transition_def perform_transition_def)

lemma on_request:
  assumes "\<not> m_recursive m"
  shows "vpn_transition CE_COMPLETE_REQUEST (RequestArg r) m =
    (if can_complete m (RequestArg r) then on_ctx (emit (CompleteRequest (crr_id r) (crr_action r))) m
     else if v_postponement_window_timer (m_ctx m)
     then on_ctx (\<lambda>v. v\<lparr>v_postponed_requests := v_postponed_requests v @ [r]\<rparr>) m
     else if v_kill_switch_on (m_ctx m) then on_ctx (emit (RejectRequest (crr_id r))) m
     else on_ctx (\<lambda>v. emit (CompleteRequest (crr_id r) (Some VPN_CA_FORCE_BYPASS))
            (v\<lparr>v_bypassed_connection_ids := v_bypassed_connection_ids v @ [crr_id r]\<rparr>)) m)"
  using assms
  by (simp add: on_COMPLETE_REQUEST stay_def complete_request_def postpone_request_def reject_request_def
      bypass_until_connected_def should_postpone_def is_kill_switch_on_def as_request_def on_ctx_def)

lemma request_ledger_event:
  assumes "\<not> m_recursive m"
  shows "ledger (m_ctx (vpn_transition CE_COMPLETE_REQUEST (RequestArg r) m)) = add_mset (crr_id r) (ledger (m_ctx m))"
  by (simp add: on_request [OF assms] ledger_def emit_def)

lemma request_nothing_past:
  assumes "\<not> m_recursive m" and "nothing_past (m_ctx m)" and "crr_action r \<noteq> Some VPN_CA_FORCE_BYPASS"
  shows "nothing_past (m_ctx (vpn_transition CE_COMPLETE_REQUEST (RequestArg r) m))"
  using assms(2,3) by (simp add: on_request [OF assms(1)] nothing_past_def never_forces_def emit_def)

subsection \<open>Tasks and callbacks\<close>

lemma abandon_endpoint_answers: "answers_kept m (abandon_endpoint_task ep m)"
proof -
  have r: "trace_part (remove_endpoint ep v) = trace_part v" for v
    by (simp add: remove_endpoint_def split: prod.splits)
  have t: "answers_kept m (m\<lparr>m_ctx := v\<rparr>)"
    "answers_kept m (vpn_transition CE_ABANDON_ENDPOINT NullArg (m\<lparr>m_ctx := v\<rparr>))"
    if "trace_part v = trace_part (m_ctx m)" for v
    using that by (auto intro: trace_answers transition_answers_after)
  show ?thesis
    by (simp add: abandon_endpoint_task_def Let_def r t trace_answers)
qed

lemmas task_defs =
  run_task_def failed_recovery_task_def do_recovery_task_def connect_task_def shutdown_cb_def

lemma run_task_answers:
  assumes "\<forall>r. t \<noteq> CompleteRequestTask r"
  shows "answers_kept m (run_task t m)"
  using assms
  by (cases t) (auto simp: task_defs trace_part_emit abandon_endpoint_answers
      intro!: transition_answers_after intro: trace_answers)

lemma run_task_ledger:
  assumes "\<not> m_recursive m"
  shows "ledger (m_ctx (run_task t m)) =
    ledger (m_ctx m) + (case t of CompleteRequestTask r \<Rightarrow> {#crr_id r#} | _ \<Rightarrow> {#})"
proof (cases "\<exists>r. t = CompleteRequestTask r")
  case True
  with assms show ?thesis
    by (auto simp: run_task_def vpn_complete_connect_request_task_def request_ledger_event)
next
  case False
  then have "ledger (m_ctx (run_task t m)) = ledger (m_ctx m)"
    using run_task_answers [of t m] by (simp add: answers_kept_def)
  with False show ?thesis by (cases t) auto
qed

lemma run_task_nothing_past:
  assumes "\<not> m_recursive m" and "nothing_past (m_ctx m)"
  shows "nothing_past (m_ctx (run_task t m))"
proof (cases "\<exists>r. t = CompleteRequestTask r")
  case True
  moreover have "env_finalize_connect_action (v_env (m_ctx m)) r \<noteq> Some VPN_CA_FORCE_BYPASS" for r
    using assms(2) by (simp add: nothing_past_def never_forces_def)
  ultimately show ?thesis
    using assms by (auto simp: run_task_def vpn_complete_connect_request_task_def intro!: request_nothing_past)
next
  case False
  then show ?thesis
    using run_task_answers [of t m] assms(2) by (simp add: answers_kept_def)
qed

lemma run_task_recursive: "m_recursive (run_task t m) = m_recursive m"
  by (cases t) (simp_all add: task_defs vpn_complete_connect_request_task_def abandon_endpoint_task_def Let_def
      transition_recursive)

lemma pinger_handler_answers: "answers_kept m (pinger_handler r m)"
proof (cases r)
  case None
  then show ?thesis by (simp add: pinger_handler_def answers_kept_def)
next
  case (Some x)
  then show ?thesis
    by (auto simp: pinger_handler_def Let_def fsm_assert_def trace_part_emit split: option.splits bool.splits
        intro!: transition_answers_after intro: trace_answers)
qed

lemma client_handler_answers: "answers_kept m (client_handler what m)"
  by (cases what) (auto simp: client_handler_def intro!: transition_answers_after)

lemma answer_expired_out:
  "answer_expired rs v =
     (if v_kill_switch_on v then v\<lparr>v_out := v_out v @ map (\<lambda>r. RejectRequest (crr_id r)) rs\<rparr>
      else v\<lparr>v_out := v_out v @ map (\<lambda>r. CompleteRequest (crr_id r) (Some VPN_CA_FORCE_BYPASS)) rs,
             v_bypassed_connection_ids := v_bypassed_connection_ids v @ map crr_id rs\<rparr>)"
  by (induction rs arbitrary: v) (simp_all add: emit_def)

lemma timer_answers: "answers_kept m (postponement_window_timer_cb m)"
proof -
  have "answered (map (\<lambda>r. RejectRequest (crr_id r)) rs) = map crr_id rs"
    "let_past (map (\<lambda>r. RejectRequest (crr_id r)) rs) = []"
    "answered (map (\<lambda>r. CompleteRequest (crr_id r) (Some VPN_CA_FORCE_BYPASS)) rs) = map crr_id rs"
    for rs :: "connect_request_result list"
    by (induction rs) (simp_all add: answered_def let_past_def map_filter_def)
  then show ?thesis
    by (auto simp: answers_kept_def postponement_window_timer_cb_def answer_expired_out ledger_def
        nothing_past_def never_forces_def)
qed

subsection \<open>The kill switch\<close>

text \<open>
  Sessions opened with the kill switch on whose domain filter never decides to bypass a connection.
\<close>

definition guarded_start :: "vpn_machine \<Rightarrow> bool" where
  "guarded_start m \<longleftrightarrow> vpn_start m \<and> v_kill_switch_on (m_ctx m) \<and> never_forces (m_ctx m)"

definition guarded_step ::
  "bool \<Rightarrow> (connect_retry_policy \<Rightarrow> bool) \<Rightarrow> vpn_machine \<Rightarrow> vpn_machine \<Rightarrow> bool" where
  "guarded_step R P m m' \<longleftrightarrow> vpn_step R P m m' \<and> never_forces (m_ctx m')"

definition guarded_inv :: "vpn_machine \<Rightarrow> bool" where
  "guarded_inv m \<longleftrightarrow> \<not> m_recursive m \<and> nothing_past (m_ctx m)"

lemma guarded_trace:
  "guarded_inv m \<Longrightarrow> trace_part (m_ctx m') = trace_part (m_ctx m) \<Longrightarrow> m_recursive m' = m_recursive m \<Longrightarrow> guarded_inv m'"
  unfolding guarded_inv_def by (blast dest: ledger_trace)

lemma guarded_answers:
  "guarded_inv m \<Longrightarrow> answers_kept m m' \<Longrightarrow> m_recursive m' = m_recursive m \<Longrightarrow> guarded_inv m'"
  by (simp add: guarded_inv_def answers_kept_def)

lemma guarded_with_loop: "guarded_inv m \<Longrightarrow> guarded_inv (with_loop L m)"
  by (rule guarded_trace) (simp_all add: with_loop_def)

interpretation vpn_guarded: event_loop_invariant vpn_act "\<lambda>ts L m. guarded_inv m"
proof unfold_locales
  fix t i L L' and w w' :: vpn_machine
  assume "guarded_inv w" and act: "vpn_act t i (L, w) = (L', w')"
  then have "guarded_inv (with_loop L w)" by (simp add: guarded_with_loop)
  moreover have "w' = run_task t (with_loop L w)" using act by (auto simp: vpn_act_def Let_def)
  ultimately show "guarded_inv w'"
    by (simp add: guarded_inv_def run_task_nothing_past run_task_recursive)
qed auto

lemma loop_callbacks_guarded:
  assumes "vpn_inv R m" and "guarded_inv m"
  shows "guarded_inv (drain_queue m)" and "guarded_inv (fire_deferred i m)"
proof -
  have inv: "el_inv (v_loop (m_ctx m))" using assms(1) by (simp add: vpn_inv_def)
  obtain L1 m1 where 1: "run_task_queue vpn_act (vpn_loop_of m, m) = (L1, m1)" by fastforce
  obtain L2 m2 where 2: "run_deferred_task vpn_act i (vpn_loop_of m, m) = (L2, m2)" by fastforce
  have "guarded_inv m1" "guarded_inv m2"
    using vpn_guarded.run_task_queue_I [OF assms(2) _ 1] vpn_guarded.run_deferred_task_I [OF assms(2) _ 2] inv
    by (simp_all add: vpn_loop_of_def)
  then show "guarded_inv (drain_queue m)" "guarded_inv (fire_deferred i m)"
    by (simp_all add: drain_queue_def fire_deferred_def loop_callback_def 1 2 guarded_with_loop)
qed

lemma api_trace:
  "trace_part (m_ctx (submit_unchecked t m)) = trace_part (m_ctx m)"
  "trace_part (m_ctx (submit_if_active exiting t m)) = trace_part (m_ctx m)"
  "trace_part (m_ctx (vpn_complete_connect_request r m)) = trace_part (m_ctx m)"
  "trace_part (m_ctx (snd (vpn_listen h c m))) = trace_part (m_ctx m)"
  "trace_part (m_ctx (vpn_update_exclusions exiting s m)) = trace_part (m_ctx m)"
  "trace_part (m_ctx (vpn_request_endpoint_connection_stats exiting m)) = trace_part (m_ctx m)"
  "trace_part (m_ctx (snd (vpn_process_client_packets n m))) = trace_part (m_ctx m)"
  "trace_part (m_ctx (vpn_stop_begin m)) = trace_part (m_ctx m)"
  "trace_part (m_ctx (executor_exit m)) = trace_part (m_ctx m)"
  "trace_part (m_ctx (snd (vpn_connect how cfg policy m))) = trace_part (m_ctx m)"
  by (simp_all add: submit_unchecked_def submit_if_active_def vpn_complete_connect_request_def vpn_listen_def
      vpn_update_exclusions_def vpn_request_endpoint_connection_stats_def vpn_process_client_packets_def
      vpn_stop_begin_def executor_exit_def vpn_connect_def run_event_loop_def fsm_assert_def trace_part_emit
      Let_def split: prod.splits)

lemma api_recursive:
  "m_recursive (submit_unchecked t m) = m_recursive m"
  "m_recursive (submit_if_active exiting t m) = m_recursive m"
  "m_recursive (vpn_complete_connect_request r m) = m_recursive m"
  "m_recursive (snd (vpn_listen h c m)) = m_recursive m"
  "m_recursive (vpn_update_exclusions exiting s m) = m_recursive m"
  "m_recursive (vpn_request_endpoint_connection_stats exiting m) = m_recursive m"
  "m_recursive (snd (vpn_process_client_packets n m)) = m_recursive m"
  "m_recursive (vpn_stop_begin m) = m_recursive m"
  "m_recursive (executor_exit m) = m_recursive m"
  "m_recursive (snd (vpn_connect how cfg policy m)) = m_recursive m"
  by (simp_all add: submit_unchecked_def submit_if_active_def vpn_complete_connect_request_def vpn_listen_def
      vpn_update_exclusions_def vpn_request_endpoint_connection_stats_def vpn_process_client_packets_def
      vpn_stop_begin_def executor_exit_def vpn_connect_def run_event_loop_def fsm_assert_def
      Let_def split: prod.splits)

lemmas api_wrappers =
  vpn_force_reconnect_def vpn_force_disconnect_def vpn_abandon_endpoint_def vpn_reset_connections_def
  vpn_notify_network_change_def vpn_notify_sleep_def vpn_notify_wake_def

lemma callback_recursive:
  "m_recursive (pinger_handler r m) = m_recursive m" "m_recursive (client_handler what m) = m_recursive m"
  "m_recursive (postponement_window_timer_cb m) = m_recursive m" "m_recursive (executor_failure m) = m_recursive m"
  by (simp_all add: pinger_handler_def client_handler_def postponement_window_timer_cb_def executor_failure_def
      shutdown_cb_def transition_recursive fsm_assert_def Let_def
      split: option.splits bool.splits client_event.splits)

lemma executor_failure_answers: "answers_kept m (executor_failure m)"
  by (auto simp: executor_failure_def shutdown_cb_def intro!: transition_answers_after)

lemma vpn_stop_end_guarded: "guarded_inv m \<Longrightarrow> guarded_inv (vpn_stop_end m)"
  by (simp add: guarded_inv_def nothing_past_def never_forces_def vpn_stop_end_def fsm_reset_def
      stop_pinging_def emit_def Let_def) (simp add: let_past_def map_filter_def)

lemma callbacks_guarded:
  assumes "guarded_inv m"
  shows "guarded_inv (pinger_handler r m)" and "guarded_inv (client_handler what m)"
    and "guarded_inv (postponement_window_timer_cb m)" and "guarded_inv (executor_failure m)"
  by (rule guarded_answers [OF assms];
      simp add: callback_recursive pinger_handler_answers client_handler_answers timer_answers
        executor_failure_answers)+

lemma guarded_step_inv:
  assumes "vpn_step R P m m'" and "never_forces (m_ctx m')" and "vpn_inv R m" and "guarded_inv m"
  shows "guarded_inv m'"
  using assms
proof (induction rule: vpn_step.induct)
  case (step_env m e)
  then show ?case by (simp add: guarded_inv_def nothing_past_def never_forces_def)
qed (auto simp: loop_callbacks_guarded callbacks_guarded vpn_stop_end_guarded api_wrappers
    api_trace api_recursive elim!: guarded_trace)

interpretation vpn_kill_switch: transition_invariant guarded_start "guarded_step R P"
  "\<lambda>m. vpn_inv R m \<and> guarded_inv m" for R P
proof unfold_locales
  fix m
  assume "guarded_start m"
  then obtain kill env where o: "vpn_open kill env = Some m" and k: "v_kill_switch_on (m_ctx m)" "never_forces (m_ctx m)"
    by (auto simp: guarded_start_def vpn_start_def)
  have "m_ctx m = vpn_fresh kill env" "\<not> m_recursive m"
    using o by (auto simp: vpn_open_def make_fsm_def split: if_splits)
  then have "guarded_inv m" using k by (simp add: guarded_inv_def nothing_past_def) (simp add: vpn_fresh_def)
  then show "vpn_inv R m \<and> guarded_inv m" using vpn_open_inv [OF o] by simp
next
  fix m m'
  assume "vpn_inv R m \<and> guarded_inv m" and "guarded_step R P m m'"
  then show "vpn_inv R m' \<and> guarded_inv m'"
    by (auto simp: guarded_step_def intro: vpn_step_inv guarded_step_inv)
qed

end
