(* ===== verification/Vpn_Assertions.thy ===== *)
theory Vpn_Assertions
  imports Vpn_Reach
begin

section \<open>Assertions\<close>

text \<open>
  Sessions of applications that ask for a bounded number of connection attempts, the policy
  \<^verbatim>\<open>VPN_CRP_SEVERAL_ATTEMPTS\<close>: none of the \<^verbatim>\<open>assert\<close>s of the session and of the
  engine fails.
\<close>

definition several_task :: "vpn_task \<Rightarrow> bool" where
  "several_task t \<longleftrightarrow> (case t of ConnectTask c r \<Rightarrow> r \<noteq> ConnectFallIntoRecovery | _ \<Rightarrow> True)"

definition loop_tasks :: "vpn_task event_loop \<Rightarrow> vpn_task list" where
  "loop_tasks L = map snd (el_task_queue L @ el_deferred_task_queue L)"

definition several_attempts :: "vpn \<Rightarrow> bool" where
  "several_attempts v \<longleftrightarrow>
     v_connect_retry_info v \<noteq> ConnectFallIntoRecovery \<and> list_all several_task (loop_tasks (v_loop v))"

definition keeps_assertions :: "vpn_machine \<Rightarrow> vpn_machine \<Rightarrow> bool" where
  "keeps_assertions m m' \<longleftrightarrow>
     (\<not> m_asserted m \<and> several_attempts (m_ctx m) \<longrightarrow> \<not> m_asserted m' \<and> several_attempts (m_ctx m'))"

lemma several_fields [simp]:
  "several_attempts (v\<lparr>v_pending_error := x1\<rparr>) = several_attempts v"
  "several_attempts (v\<lparr>v_recovery := x3\<rparr>) = several_attempts v"
  "several_attempts (v\<lparr>v_selected_endpoint := x4\<rparr>) = several_attempts v"
  "several_attempts (v\<lparr>v_client_state := x5\<rparr>) = several_attempts v"
  "several_attempts (v\<lparr>v_bypassed_connection_ids := x7\<rparr>) = several_attempts v"
  "several_attempts (v\<lparr>v_postponement_window_timer := x8\<rparr>) = several_attempts v"
  "several_attempts (v\<lparr>v_connected_once := x9\<rparr>) = several_attempts v"
  "several_attempts (v\<lparr>v_network_changed_before_recovery := x10\<rparr>) = several_attempts v"
  "several_attempts (v\<lparr>v_upstream_config := x11\<rparr>) = several_attempts v"
  "several_attempts (v\<lparr>v_ping_failure_induces_location_unavailable := x12\<rparr>) = several_attempts v"
  "several_attempts (v\<lparr>v_update_exclusions_task := x13\<rparr>) = several_attempts v"
  "several_attempts (v\<lparr>v_ping_barrier := x14\<rparr>) = several_attempts v"
  "several_attempts (v\<lparr>v_pinger := x15\<rparr>) = several_attempts v"
  "several_attempts (v\<lparr>v_executor_running := x16\<rparr>) = several_attempts v"
  "several_attempts (v\<lparr>v_ev_loop_alive := x17\<rparr>) = several_attempts v"
  "several_attempts (v\<lparr>v_env := x18\<rparr>) = several_attempts v"
  "several_attempts (v\<lparr>v_postponed_requests := x19\<rparr>) = several_attempts v"
  "several_attempts (v\<lparr>v_out := x20\<rparr>) = several_attempts v"
  "several_attempts (flag_ub b v) = several_attempts v"
  "several_attempts (emit e v) = several_attempts v"
  by (simp_all add: several_attempts_def flag_ub_def emit_def)

lemma several_loop:
  assumes "several_attempts v" and "set (loop_tasks L) \<subseteq> set (loop_tasks (v_loop v)) \<union> {t. several_task t}"
  shows "several_attempts (v\<lparr>v_loop := L\<rparr>)"
proof -
  have "several_task t" if "t \<in> set (loop_tasks L)" for t
    using subsetD [OF assms(2) that] assms(1) by (auto simp: several_attempts_def list_all_iff)
  with assms(1) show ?thesis by (simp add: several_attempts_def list_all_iff)
qed

lemma cancel_tasks: "set (loop_tasks (auto_task_reset h L)) \<subseteq> set (loop_tasks L)"
  unfolding loop_tasks_def set_map set_append image_Un
  by (intro Un_mono image_mono subseq_set cancel_queues)

lemma submit_tasks: "set (loop_tasks (snd (vpn_event_loop_submit t L))) \<subseteq> insert t (set (loop_tasks L))"
  using submit_queue [of t L] by (fastforce simp: loop_tasks_def)

lemma schedule_tasks: "set (loop_tasks (snd (vpn_event_loop_schedule t L))) \<subseteq> insert t (set (loop_tasks L))"
  by (cases "el_state L") (auto simp: loop_tasks_def el_op_defs Let_def)

lemma several_cancel: "several_attempts v \<Longrightarrow> several_attempts (v\<lparr>v_loop := auto_task_reset h (v_loop v)\<rparr>)"
  using cancel_tasks by (intro several_loop) blast+

lemma several_submit: "several_attempts v \<Longrightarrow> several_task t \<Longrightarrow> several_attempts (vpn_submit t v)"
  unfolding vpn_submit_def using submit_tasks [of t "v_loop v"] by (intro several_loop) blast+

lemma several_frame [simp]:
  "several_attempts (disconnect_client v) = several_attempts v"
  "several_attempts (stop_pinging v) = several_attempts v"
  "several_attempts (start_pinger v) = several_attempts v"
  "several_attempts (update_upstream_config c v) = several_attempts v"
  "several_attempts (reset_bypassed_connections v) = several_attempts v"
  "several_attempts (complete_postponed_requests v) = several_attempts v"
  by (simp_all add: disconnect_client_def stop_pinging_def start_pinger_def update_upstream_config_def
      reset_bypassed_connections_def reset_all_out complete_postponed_requests_def complete_all_out Let_def
      split: client_connection_state.splits)

lemma several_disconnect [simp]: "several_attempts (vpn_disconnect v) = several_attempts v"
  by (simp add: vpn_disconnect_def)

lemma several_clear_recovery: "several_attempts v \<Longrightarrow> several_attempts (clear_recovery v)"
  unfolding clear_recovery_def by (drule several_cancel [of v "rec_task (v_recovery v)"]) simp

lemma several_initiate_recovery: "several_attempts v \<Longrightarrow> several_attempts (initiate_recovery v)"
proof (cases "rec_attempts (v_recovery v) \<ge> cfg_recovery_attempts (v_upstream_config v)")
  case True
  then show "several_attempts v \<Longrightarrow> ?thesis" by (simp add: initiate_recovery_def several_submit several_task_def)
next
  case False
  assume s: "several_attempts v"
  let ?L = "snd (vpn_event_loop_schedule DoRecoveryTask (v_loop v))"
  have "several_task DoRecoveryTask" by (simp add: several_task_def)
  then have "several_attempts (v\<lparr>v_loop := auto_task_reset (rec_task (v_recovery v)) ?L\<rparr>)"
    using s cancel_tasks [of "rec_task (v_recovery v)" ?L] schedule_tasks [of DoRecoveryTask "v_loop v"]
    by (intro several_loop) blast+
  with False show ?thesis by (simp add: initiate_recovery_def Let_def case_prod_beta)
qed

lemma several_run_client_connect: "several_attempts v \<Longrightarrow> several_attempts (run_client_connect t v)"
  by (simp add: run_client_connect_def Let_def several_submit several_task_def split: option.splits)

definition asserts_nothing :: "vpn_action \<Rightarrow> bool" where
  "asserts_nothing a \<longleftrightarrow> (\<forall>d m. keeps_assertions m (a d m))"

lemma asserts_on_ctx:
  "(\<And>d v. several_attempts v \<Longrightarrow> several_attempts (f d v)) \<Longrightarrow> asserts_nothing (\<lambda>d. on_ctx (f d))"
  by (simp add: asserts_nothing_def keeps_assertions_def on_ctx_def)

lemma asserts_run_ping: "asserts_nothing run_ping"
proof -
  have "several_attempts v \<Longrightarrow> several_attempts (v\<lparr>v_loop := auto_task_reset h (v_loop v), v_recovery := r\<rparr>)" for v h r
    using several_cancel [of v h] by simp
  from this [of "(start_pinger (stop_pinging _))\<lparr>v_pending_error := None, v_selected_endpoint := None\<rparr>"]
  show ?thesis
    unfolding run_ping_def by (intro asserts_on_ctx) (auto simp: Let_def split: option.splits)
qed

lemma asserts_actions_1:
  "asserts_nothing connect_client" "asserts_nothing reconnect_client"
  "asserts_nothing finalize_recovery" "asserts_nothing do_disconnect" "asserts_nothing start_listening"
  "asserts_nothing on_wrong_connect_state"
  by (simp_all add: connect_client_def reconnect_client_def finalize_recovery_def do_disconnect_def
      start_listening_def on_wrong_connect_state_def asserts_nothing_def keeps_assertions_def on_ctx_def Let_def
      several_run_client_connect several_clear_recovery several_submit several_task_def)

lemma asserts_actions_2:
  "asserts_nothing on_wrong_listen_state" "asserts_nothing complete_request" "asserts_nothing reject_request"
  "asserts_nothing bypass_until_connected" "asserts_nothing postpone_request" "asserts_nothing raise_state"
  by (simp_all add: asserts_nothing_def keeps_assertions_def on_wrong_listen_state_def complete_request_def
      reject_request_def bypass_until_connected_def postpone_request_def raise_state_def take_pending_error_def
      on_ctx_def Let_def split: option.splits)

lemma asserts_retry_connect: "asserts_nothing retry_connect"
proof -
  have "several_attempts v \<Longrightarrow> several_attempts (v\<lparr>v_connect_retry_info := ConnectSeveralAttempts n\<rparr>)" for v n
    by (simp add: several_attempts_def)
  moreover have "several_attempts v \<Longrightarrow> v_connect_retry_info v \<noteq> ConnectFallIntoRecovery" for v
    by (simp add: several_attempts_def)
  ultimately show ?thesis
    by (auto simp: asserts_nothing_def keeps_assertions_def retry_connect_def on_ctx_def several_task_def
        intro!: several_submit split: connect_retry_info.splits)
qed

lemma asserts_complete_connect: "asserts_nothing complete_connect"
  by (simp add: asserts_nothing_def keeps_assertions_def complete_connect_def Let_def several_clear_recovery
      split: option.splits)

lemma asserts_prepare_for_recovery: "asserts_nothing prepare_for_recovery"
  by (simp add: asserts_nothing_def keeps_assertions_def prepare_for_recovery_def Let_def
      several_initiate_recovery on_ctx_def split: option.splits)

lemma asserts_derived:
  "asserts_nothing fail_connect_with_no_attempts" "asserts_nothing prepare_for_recovery_nc"
  using asserts_complete_connect asserts_prepare_for_recovery
  by (simp_all add: asserts_nothing_def fail_connect_with_no_attempts_def prepare_for_recovery_nc_def)

lemma vpn_table_asserts:
  "list_all (\<lambda>e. pred_option asserts_nothing (before_transition e) \<and>
     pred_option asserts_nothing (after_transition e)) vpn_transition_table"
  by (simp add: vpn_table_defs tr_def asserts_run_ping asserts_actions_1 asserts_actions_2 asserts_retry_connect
      asserts_complete_connect asserts_prepare_for_recovery asserts_derived)

interpretation vpn_asserts: fsm_relation vpn_transition_table keeps_assertions
proof unfold_locales
  fix e a m d
  assume "e \<in> set vpn_transition_table" and "before_transition e = Some a \<or> after_transition e = Some a"
  then have "asserts_nothing a" using vpn_table_asserts by (auto simp: list_all_iff)
  then show "keeps_assertions m (a d m)" by (simp add: asserts_nothing_def)
qed (auto simp: keeps_assertions_def)

definition assert_inv :: "vpn_machine \<Rightarrow> bool" where
  "assert_inv m \<longleftrightarrow> \<not> m_recursive m \<and> \<not> m_asserted m \<and> several_attempts (m_ctx m)"

lemma transition_asserts: "assert_inv m \<Longrightarrow> assert_inv (vpn_transition ev d m)"
  using vpn_asserts.transition_establishes [of m ev d]
  by (simp add: assert_inv_def vpn_transition_def keeps_assertions_def) (simp add: perform_transition_def)

lemma transition_asserts_after:
  "assert_inv m \<Longrightarrow> several_attempts v \<Longrightarrow> assert_inv (vpn_transition ev d (m\<lparr>m_ctx := v\<rparr>))"
  by (rule transition_asserts) (simp add: assert_inv_def)

subsection \<open>Tasks, callbacks and API\<close>

lemma assert_ctx: "assert_inv m \<Longrightarrow> several_attempts (m_ctx m)"
  by (simp add: assert_inv_def)

lemma assert_on_ctx: "assert_inv m \<Longrightarrow> several_attempts (f (m_ctx m)) \<Longrightarrow> assert_inv (on_ctx f m)"
  by (simp add: assert_inv_def)

lemma abandon_endpoint_asserts:
  assumes "assert_inv m"
  shows "assert_inv (abandon_endpoint_task ep m)"
proof -
  have "several_attempts (remove_endpoint ep v) = several_attempts v" for v
    by (simp add: remove_endpoint_def split: prod.splits)
  with assms assert_ctx [OF assms] show ?thesis
    by (auto simp: abandon_endpoint_task_def Let_def on_ctx_def assert_inv_def
        intro!: transition_asserts_after [unfolded assert_inv_def])
qed

lemma connect_task_several:
  "r \<noteq> ConnectFallIntoRecovery \<Longrightarrow> several_attempts v \<Longrightarrow>
     several_attempts (v\<lparr>v_connect_retry_info := (case r of
        ConnectSeveralAttempts n \<Rightarrow> ConnectSeveralAttempts (n - 1) | ConnectFallIntoRecovery \<Rightarrow> ConnectFallIntoRecovery)\<rparr>)"
  by (cases r) (simp_all add: several_attempts_def)

lemma run_task_asserts:
  assumes "assert_inv m" and "several_task t"
  shows "assert_inv (run_task t m)"
  using assms assert_ctx [OF assms(1)]
  by (cases t) (auto simp: run_task_def failed_recovery_task_def do_recovery_task_def connect_task_def shutdown_cb_def
      vpn_complete_connect_request_task_def abandon_endpoint_asserts several_clear_recovery several_submit
      several_task_def connect_task_several intro!: transition_asserts assert_on_ctx)

definition assert_tasks :: "vpn_task list \<Rightarrow> vpn_task event_loop \<Rightarrow> vpn_machine \<Rightarrow> bool" where
  "assert_tasks ts L m \<longleftrightarrow> list_all several_task ts \<and> assert_inv (with_loop L m)"

lemma assert_with_loop:
  "assert_inv (with_loop L m) \<longleftrightarrow>
     \<not> m_recursive m \<and> \<not> m_asserted m \<and> v_connect_retry_info (m_ctx m) \<noteq> ConnectFallIntoRecovery \<and>
     list_all several_task (loop_tasks L)"
  by (simp add: assert_inv_def several_attempts_def) (simp add: with_loop_def)

interpretation vpn_assert_loop: event_loop_invariant vpn_act assert_tasks
proof unfold_locales
  fix t i L L' and w w' :: vpn_machine
  assume "assert_tasks [t] L w" and act: "vpn_act t i (L, w) = (L', w')"
  then have "assert_inv (run_task t (with_loop L w))"
    by (intro run_task_asserts) (simp_all add: assert_tasks_def)
  moreover have "w' = run_task t (with_loop L w)" "L' = v_loop (m_ctx w')"
    using act by (auto simp: vpn_act_def Let_def vpn_loop_of_def)
  ultimately show "assert_tasks [] L' w'" by (simp add: assert_tasks_def with_loop_same)
next
  fix L i t and w :: vpn_machine
  assume a: "assert_tasks [] L w" and t: "map_of (el_deferred_task_queue L) i = Some t"
  let ?q = "el_deferred_task_queue L"
  have all: "\<forall>x\<in>set ?q. several_task (snd x)"
    using a by (simp add: assert_tasks_def assert_with_loop loop_tasks_def list_all_iff)
  have sub: "x \<in> set (erase_id i q) \<Longrightarrow> x \<in> set q" for x and q :: "(task_id \<times> vpn_task) list"
    by (induction q) (auto split: if_splits)
  have "several_task t" using all map_of_SomeD [OF t] by fastforce
  moreover have "\<forall>x\<in>set (erase_id i ?q). several_task (snd x)" using all sub by blast
  ultimately show "assert_tasks [t] (L\<lparr>el_deferred_task_queue := erase_id i ?q\<rparr>) w"
    using a by (simp add: assert_tasks_def assert_with_loop loop_tasks_def list_all_iff ball_Un)
qed (auto simp: assert_tasks_def assert_with_loop same_tasks_def loop_tasks_def)

lemma loop_callbacks_asserts:
  assumes "vpn_inv R m" and "assert_inv m"
  shows "assert_inv (drain_queue m)" and "assert_inv (fire_deferred i m)"
proof -
  have inv: "el_inv (v_loop (m_ctx m))" using assms(1) by (simp add: vpn_inv_def)
  obtain L1 m1 where 1: "run_task_queue vpn_act (vpn_loop_of m, m) = (L1, m1)" by fastforce
  obtain L2 m2 where 2: "run_deferred_task vpn_act i (vpn_loop_of m, m) = (L2, m2)" by fastforce
  have "assert_tasks [] (vpn_loop_of m) m"
    using assms(2) by (simp add: assert_tasks_def vpn_loop_of_def with_loop_same)
  then have "assert_tasks [] L1 m1" "assert_tasks [] L2 m2"
    using vpn_assert_loop.run_task_queue_I [OF _ _ 1] vpn_assert_loop.run_deferred_task_I [OF _ _ 2] inv
    by (simp_all add: vpn_loop_of_def)
  then show "assert_inv (drain_queue m)" "assert_inv (fire_deferred i m)"
    by (simp_all add: drain_queue_def fire_deferred_def loop_callback_def 1 2 assert_tasks_def)
qed

lemma callbacks_asserts:
  assumes "assert_inv m"
  shows "v_selected_endpoint (m_ctx m) = None \<Longrightarrow> assert_inv (pinger_handler r m)"
    and "assert_inv (client_handler what m)" and "assert_inv (executor_failure m)"
    and "assert_inv (postponement_window_timer_cb m)"
proof -
  note ctx = assert_ctx [OF assms]
  have l: "several_attempts v \<Longrightarrow> several_attempts (v\<lparr>v_loop := loop_run_end (v_loop v)\<rparr>)" for v
    by (simp add: several_attempts_def loop_tasks_def loop_run_end_def)
  have e: "several_attempts (answer_expired rs v) = several_attempts v" for rs v
    by (induction rs arbitrary: v) simp_all
  show "assert_inv (pinger_handler r m)" if "v_selected_endpoint (m_ctx m) = None"
    using that assms ctx
    by (auto simp: pinger_handler_def Let_def fsm_assert_def split: option.splits bool.splits
        intro!: transition_asserts assert_on_ctx)
  show "assert_inv (client_handler what m)"
    using assms ctx by (cases what) (auto simp: client_handler_def intro!: transition_asserts assert_on_ctx)
  show "assert_inv (executor_failure m)"
    using assms l [OF ctx]
    by (auto simp: executor_failure_def shutdown_cb_def intro!: transition_asserts assert_on_ctx)
  show "assert_inv (postponement_window_timer_cb m)"
    unfolding postponement_window_timer_cb_def using assms ctx by (intro assert_on_ctx) (simp_all add: e)
qed

lemma several_finalize:
  "several_attempts v \<Longrightarrow> several_attempts (v\<lparr>v_loop := finalize_exit_begin (v_loop v)\<rparr>)"
  "several_attempts v \<Longrightarrow> several_attempts (v\<lparr>v_loop := loop_run_end (v_loop v)\<rparr>)"
  "several_attempts v \<Longrightarrow> several_attempts (v\<lparr>v_loop := vpn_event_loop_create\<rparr>)"
  "several_attempts v \<Longrightarrow> several_attempts (v\<lparr>v_loop := loop_run_begin (v_loop v)\<rparr>)"
  by (simp_all add: several_attempts_def loop_tasks_def loop_run_end_def finalize_exit_begin_def
      vpn_event_loop_create_def loop_run_begin_def)

lemma assert_submit:
  assumes "assert_inv m" and "several_task t"
  shows "assert_inv (submit_unchecked t m)" "assert_inv (submit_if_active exiting t m)"
    "assert_inv (on_ctx (vpn_submit t) m)"
  unfolding submit_unchecked_def submit_if_active_def
  using assms assert_ctx [OF assms(1)] by (auto intro!: assert_on_ctx several_submit)

lemma vpn_connect_asserts:
  assumes "assert_inv m" and "how \<noteq> LoopNotStarted" and "policy \<noteq> VPN_CRP_FALL_INTO_RECOVERY"
  shows "assert_inv (snd (vpn_connect how cfg policy m))"
proof (cases "fst (run_event_loop how m)")
  case False
  then show ?thesis
    using assms(1,2) by (auto simp: vpn_connect_def Let_def run_event_loop_def split: if_splits prod.splits)
next
  case True
  let ?v = "m_ctx m" and ?L = "if v_ev_loop_alive (m_ctx m) then v_loop (m_ctx m) else vpn_event_loop_create"
  have "several_attempts (?v\<lparr>v_loop := ?L\<rparr>)"
    using assert_ctx [OF assms(1)] several_finalize(3) by simp
  from several_finalize(4) [OF this] have "several_attempts (?v\<lparr>v_loop := loop_run_begin ?L\<rparr>)" by simp
  from several_submit [OF this, of CompletionTask]
  have "several_attempts (m_ctx (snd (run_event_loop how m)))"
    using True assms(2)
    by (auto simp: run_event_loop_def Let_def several_task_def vpn_submit_def several_attempts_def split: if_splits)
  then have "assert_inv (snd (run_event_loop how m))"
    using assms(1) True by (auto simp: run_event_loop_def Let_def assert_inv_def split: if_splits)
  moreover have "several_task (ConnectTask cfg (make_retry_info policy))"
    using assms(3) by (cases policy) (simp_all add: several_task_def make_retry_info_def)
  ultimately show ?thesis
    using assms(1) True assert_submit(3)
    by (auto simp: vpn_connect_def Let_def split: prod.splits)
qed

lemma vpn_stop_end_asserts: "assert_inv m \<Longrightarrow> assert_inv (vpn_stop_end m)"
  by (simp add: assert_inv_def vpn_stop_end_def fsm_reset_def several_attempts_def loop_tasks_def
      stop_pinging_def emit_def vpn_event_loop_create_def Let_def)

lemma vpn_update_exclusions_asserts:
  assumes "assert_inv m"
  shows "assert_inv (vpn_update_exclusions exiting s m)"
proof -
  let ?t = "UpdateExclusionsTask s"
  have "several_attempts (vpn_submit ?t (m_ctx m))"
    by (rule several_submit [OF assert_ctx [OF assms]]) (simp add: several_task_def)
  from several_cancel [OF this] assert_ctx [OF assms]
  show ?thesis
    unfolding vpn_update_exclusions_def
    by (intro assert_on_ctx [OF assms]) (simp add: vpn_submit_def case_prod_beta)
qed

lemma vpn_step_asserts:
  assumes "vpn_step R (\<lambda>p. p \<noteq> VPN_CRP_FALL_INTO_RECOVERY) m m'" and "vpn_inv R m" and "assert_inv m"
  shows "assert_inv m'"
  using assms
proof (induction rule: vpn_step.induct)
  case (step_ping m r)
  have "v_selected_endpoint (m_ctx m) = None"
    using step_ping.hyps(2) step_ping.prems(1)
    by (auto simp: vpn_inv_def session_inv_def base_def ping_ok_def ping_due_def split: option.splits)
  with step_ping show ?case by (simp add: callbacks_asserts)
next
  case (step_request m r)
  then show ?case
    unfolding vpn_complete_connect_request_def
    by (intro assert_on_ctx) (simp_all add: assert_ctx several_submit several_task_def)
next
  case (step_stats m exiting)
  then show ?case
    unfolding vpn_request_endpoint_connection_stats_def
    by (intro assert_on_ctx) (simp_all add: assert_ctx several_submit several_task_def)
next
  case (step_stop_begin m)
  have "several_attempts (vpn_submit StopTask (m_ctx m))"
    by (rule several_submit [OF assert_ctx [OF step_stop_begin.prems(2)]]) (simp add: several_task_def)
  then show ?case
    unfolding vpn_stop_begin_def using step_stop_begin.prems(2)
    by (intro assert_on_ctx) (simp_all add: assert_ctx several_finalize)
next
  case (step_executor_exit m)
  then show ?case
    unfolding executor_exit_def by (intro assert_on_ctx) (simp_all add: assert_ctx several_finalize)
next
  case (step_env m e)
  then show ?case by (intro assert_on_ctx) (simp_all add: assert_ctx)
qed (simp_all add: loop_callbacks_asserts callbacks_asserts vpn_connect_asserts vpn_stop_end_asserts
    vpn_update_exclusions_asserts assert_submit several_task_def vpn_listen_def vpn_process_client_packets_def
    vpn_force_reconnect_def vpn_force_disconnect_def vpn_abandon_endpoint_def vpn_reset_connections_def
    vpn_notify_network_change_def vpn_notify_sleep_def vpn_notify_wake_def)

interpretation vpn_assertions: transition_invariant vpn_start
  "vpn_step R (\<lambda>p. p \<noteq> VPN_CRP_FALL_INTO_RECOVERY)" "\<lambda>m. vpn_inv R m \<and> assert_inv m" for R
proof unfold_locales
  fix m
  assume "vpn_start m"
  then obtain kill env where o: "vpn_open kill env = Some m" by (auto simp: vpn_start_def)
  have "m_ctx m = vpn_fresh kill env" "\<not> m_recursive m" "\<not> m_asserted m"
    using o by (auto simp: vpn_open_def make_fsm_def split: if_splits)
  then have "assert_inv m"
    by (simp add: assert_inv_def several_attempts_def loop_tasks_def vpn_fresh_def vpn_event_loop_create_def)
  then show "vpn_inv R m \<and> assert_inv m" using vpn_open_inv [OF o] by simp
next
  fix m m'
  assume "vpn_inv R m \<and> assert_inv m" and "vpn_step R (\<lambda>p. p \<noteq> VPN_CRP_FALL_INTO_RECOVERY) m m'"
  then show "vpn_inv R m' \<and> assert_inv m'" by (auto intro: vpn_step_inv vpn_step_asserts)
qed

end
