(* ===== verification/Vpn_Samples.thy ===== *)
theory Vpn_Samples
  imports Vpn_Reach
begin

section \<open>A sample run\<close>

text \<open>
  A session that connects, loses its connection, is asked about a connection while it waits, and
  recovers: the states at which the properties of reachable sessions are instantiated.
\<close>

definition sample_env :: vpn_env where
  "sample_env =
     \<lparr>env_now = (\<lambda>n. 1000000000), env_connect_result = (\<lambda>n. no_error), env_listen_result = (\<lambda>n. no_error),
      env_quic_connector = (\<lambda>n. False), env_should_complete_immediately = (\<lambda>i. False),
      env_finalize_connect_action = (\<lambda>r. None)\<rparr>"

definition sample_endpoint :: vpn_endpoint where
  "sample_endpoint =
     \<lparr>ep_address = SocketAddress [10, 0, 0, 1] 443, ep_name = Some ''a'', ep_remote_id = Some ''r'', ep_has_ipv6 = False\<rparr>"

definition sample_config :: vpn_upstream_config where
  "sample_config =
     \<lparr>cfg_location_id = ''l'', cfg_endpoints = [sample_endpoint], cfg_location_ping_timeout_ms = 0,
      cfg_timeout_ms = 0, cfg_health_check_timeout_ms = 0, cfg_username = Some ''u'', cfg_password = Some ''p'',
      cfg_backoff_rate = 0, cfg_location_update_period_ms = 0, cfg_recovery_attempts = 0\<rparr>"

definition sample_ping :: locations_pinger_result where
  "sample_ping = \<lparr>pr_ping_ms = 10, pr_endpoint = sample_endpoint, pr_relay = None, pr_is_quic = False\<rparr>"

definition sample_request :: connect_request_result where
  "sample_request = \<lparr>crr_id = 7, crr_action = None, crr_appname = ''x'', crr_uid = 0\<rparr>"

definition sample_opened :: vpn_machine where
  "sample_opened =
     \<lparr>m_initial_state = VPN_SS_DISCONNECTED, m_current_state = VPN_SS_DISCONNECTED, m_recursive = False,
      m_ctx = vpn_fresh True sample_env, m_asserted = False\<rparr>"

definition sample_submitted :: vpn_machine where
  "sample_submitted = snd (vpn_connect LoopStarted sample_config (VPN_CRP_SEVERAL_ATTEMPTS 3) sample_opened)"

definition sample_connecting :: vpn_machine where
  "sample_connecting = drain_queue sample_submitted"

definition sample_pinged :: vpn_machine where
  "sample_pinged = pinger_handler (Some sample_ping) sample_connecting"

definition sample_connected :: vpn_machine where
  "sample_connected = client_handler EVENT_CONNECTED sample_pinged"

definition sample_waiting :: vpn_machine where
  "sample_waiting = client_handler (EVENT_DISCONNECTED None) sample_connected"

definition sample_requested :: vpn_machine where
  "sample_requested = vpn_complete_connect_request sample_request sample_waiting"

definition sample_postponed :: vpn_machine where
  "sample_postponed = drain_queue sample_requested"

definition sample_recovering :: vpn_machine where
  "sample_recovering = fire_deferred 2 sample_postponed"

lemma sample_start: "vpn_start sample_opened"
  using vpn_table_valid unfolding vpn_start_def vpn_open_def make_fsm_def sample_opened_def by auto

lemma sample_steps:
  assumes "P (VPN_CRP_SEVERAL_ATTEMPTS 3)"
  shows "vpn_step True P sample_opened sample_submitted"
    and "vpn_step True P sample_submitted sample_connecting"
    and "vpn_step True P sample_connecting sample_pinged"
    and "vpn_step True P sample_pinged sample_connected"
    and "vpn_step True P sample_connected sample_waiting"
    and "vpn_step True P sample_waiting sample_requested"
    and "vpn_step True P sample_requested sample_postponed"
    and "vpn_step True P sample_postponed sample_recovering"
proof -
  show "vpn_step True P sample_opened sample_submitted"
    unfolding sample_submitted_def
    by (rule step_connect) (simp_all add: assms sample_config_def sample_endpoint_def ep_ok_def)
  have running: "loop_running sample_submitted" "loop_running sample_connecting" "loop_running sample_pinged"
    "loop_running sample_connected" "loop_running sample_requested" "loop_running sample_postponed" by code_simp+
  have pending: "0 < el_pending_runs (v_loop (m_ctx sample_submitted))"
    "0 < el_pending_runs (v_loop (m_ctx sample_requested))" by code_simp+
  have ping: "ping_due (m_ctx sample_connecting)" by code_simp
  have client: "v_client_state (m_ctx sample_pinged) = CLIS_CONNECTING" by code_simp
  show "vpn_step True P sample_submitted sample_connecting" "vpn_step True P sample_requested sample_postponed"
    unfolding sample_connecting_def sample_postponed_def by (rule step_drain; simp add: running pending)+
  show "vpn_step True P sample_connecting sample_pinged"
    unfolding sample_pinged_def
    by (rule step_ping) (simp_all add: running ping sample_ping_def sample_endpoint_def ep_ok_def)
  show "vpn_step True P sample_pinged sample_connected" "vpn_step True P sample_connected sample_waiting"
    unfolding sample_connected_def sample_waiting_def
    by (rule step_client; simp add: running client sample_connected_def [symmetric])+
  show "vpn_step True P sample_waiting sample_requested"
    unfolding sample_requested_def by (rule step_request)
  show "vpn_step True P sample_postponed sample_recovering"
    unfolding sample_recovering_def by (rule step_deferred) (simp add: running)
qed

lemma sample_reachable:
  assumes "P (VPN_CRP_SEVERAL_ATTEMPTS 3)"
  shows "vpn_reachable True P sample_submitted" and "vpn_reachable True P sample_connecting"
    and "vpn_reachable True P sample_connected" and "vpn_reachable True P sample_waiting"
    and "vpn_reachable True P sample_postponed" and "vpn_reachable True P sample_recovering"
proof -
  note steps = sample_steps [of P, OF assms]
  note r = reach_start [of vpn_start, OF sample_start, of "vpn_step True P"]
  note r1 = reach_next [OF r steps(1)]
  note r2 = reach_next [OF r1 steps(2)]
  note r3 = reach_next [OF r2 steps(3)]
  note r4 = reach_next [OF r3 steps(4)]
  note r5 = reach_next [OF r4 steps(5)]
  note r6 = reach_next [OF r5 steps(6)]
  note r7 = reach_next [OF r6 steps(7)]
  note r8 = reach_next [OF r7 steps(8)]
  show "vpn_reachable True P sample_submitted" "vpn_reachable True P sample_connecting"
    "vpn_reachable True P sample_connected" "vpn_reachable True P sample_waiting"
    "vpn_reachable True P sample_postponed" "vpn_reachable True P sample_recovering"
    by (rule r1 r2 r4 r5 r7 r8)+
qed

lemma sample_states:
  "m_current_state sample_connected = VPN_SS_CONNECTED" "m_current_state sample_waiting = VPN_SS_WAITING_RECOVERY"
  "m_current_state sample_recovering = VPN_SS_RECOVERING"
  "map crr_id (v_postponed_requests (m_ctx sample_postponed)) = [7]"
  by code_simp+

end
