(* ===== verification/Vpn_Correct.thy ===== *)
theory Vpn_Correct
  imports Vpn_Requests Vpn_Assertions Vpn_Samples
begin

section \<open>Correctness of the session\<close>

text \<open>
  The properties of the session, each followed by an instance at the sample run where it has
  hypotheses.
\<close>

lemma reachable_parts:
  assumes "vpn_reachable R P m"
  shows "\<not> m_recursive m" "base R (m_ctx m)" "state_ok [] (m_current_state m) (m_ctx m)"
    "el_inv (v_loop (m_ctx m))" "el_wake False (v_loop (m_ctx m))" "m_initial_state m = VPN_SS_DISCONNECTED"
    "loop_present (m_ctx m)"
  using vpn_system.reachable_inv [OF assms] by (simp_all add: vpn_inv_def session_inv_def)



lemma fire_recovery_attempt:
  assumes "\<not> m_recursive m" and "m_current_state m = VPN_SS_WAITING_RECOVERY"
    and "map_of (el_deferred_task_queue (v_loop (m_ctx m))) i = Some DoRecoveryTask"
  shows "m_current_state (fire_deferred i m) = VPN_SS_RECOVERING"
  using assms
  by (simp add: fire_deferred_def loop_callback_def run_deferred_task_def run_one_def vpn_act_def run_task_def
      do_recovery_task_def vpn_loop_of_def with_loop_def on_DO_RECOVERY enter_def Let_def)

lemma deferred_lookup:
  assumes "el_inv L" and "(i, t) \<in> set (el_deferred_task_queue L)"
  shows "map_of (el_deferred_task_queue L) i = Some t"
proof -
  have "mset (deferred_ids L @ queue_ids L @ el_running L @ el_finalized L) = mset (map int [0..<nat (el_next_task_id L)])"
    using assms(1) by (simp add: el_inv_def issued_ids_def ac_simps)
  then have "distinct (deferred_ids L @ queue_ids L @ el_running L @ el_finalized L)"
    using mset_eq_imp_distinct_iff by (fastforce simp: distinct_map)
  then show ?thesis using assms(2) by (simp add: deferred_ids_def)
qed

text \<open>
  (C2) A session that waits for recovery is never stuck: either the delayed attempt whose handle it owns
  is scheduled, and its expiry takes the session to the recovering state, or the task that gives up is
  queued and the loop has exactly one callback pending to run it.
\<close>

theorem recovery_progress:
  assumes "vpn_reachable R P m" and "m_current_state m = VPN_SS_WAITING_RECOVERY"
  shows "(\<exists>i. rec_task (v_recovery (m_ctx m)) = Some i \<and>
            (i, DoRecoveryTask) \<in> set (el_deferred_task_queue (v_loop (m_ctx m))) \<and>
            m_current_state (fire_deferred i m) = VPN_SS_RECOVERING) \<or>
         FailedRecoveryTask \<in> set (map snd (el_task_queue (v_loop (m_ctx m)))) \<and>
         el_pending_runs (v_loop (m_ctx m)) = 1"
proof -
  note p = reachable_parts [OF assms(1)]
  have "attempt_scheduled (m_ctx m) \<or> FailedRecoveryTask \<in> set (queued (m_ctx m))"
    using p(3) assms(2) by (auto simp: state_ok_def)
  then show ?thesis
  proof
    assume "attempt_scheduled (m_ctx m)"
    then obtain i where "rec_task (v_recovery (m_ctx m)) = Some i"
      and i: "(i, DoRecoveryTask) \<in> set (el_deferred_task_queue (v_loop (m_ctx m)))"
      by (auto simp: attempt_scheduled_def)
    then show ?thesis using fire_recovery_attempt [OF p(1) assms(2) deferred_lookup [OF p(4) i]] by blast
  next
    assume "FailedRecoveryTask \<in> set (queued (m_ctx m))"
    then show ?thesis using p(5) by (auto simp: queued_def el_wake_def split: if_splits)
  qed
qed

theorem recovery_progress_witness:
  "m_current_state sample_waiting = VPN_SS_WAITING_RECOVERY \<and> (\<exists>i. m_current_state (fire_deferred i sample_waiting) = VPN_SS_RECOVERING)"
proof -
  have "FailedRecoveryTask \<notin> set (map snd (el_task_queue (v_loop (m_ctx sample_waiting))))" by code_simp
  then show ?thesis
    using recovery_progress [of True "\<lambda>p. True", OF sample_reachable(4) sample_states(2)] sample_states(2) by blast
qed

subsection \<open>Connection requests\<close>




text \<open>
  (C3) The answers given plus the requests kept form a ledger that exactly the arrival of a request
  extends, by that request: no task of the session, ping result, client event or timer expiry loses or
  repeats an answer.
\<close>

theorem request_ledger:
  assumes "vpn_reachable R P m"
  shows "(\<forall>t. ledger (m_ctx (run_task t m)) =
            ledger (m_ctx m) + (case t of CompleteRequestTask r \<Rightarrow> {#crr_id r#} | _ \<Rightarrow> {#})) \<and>
         (\<forall>r. ledger (m_ctx (pinger_handler r m)) = ledger (m_ctx m)) \<and>
         (\<forall>e. ledger (m_ctx (client_handler e m)) = ledger (m_ctx m)) \<and>
         ledger (m_ctx (postponement_window_timer_cb m)) = ledger (m_ctx m)"
  using run_task_ledger [OF reachable_parts(1) [OF assms]] pinger_handler_answers client_handler_answers
    timer_answers by (simp add: answers_kept_def)

theorem request_ledger_witness:
  "ledger (m_ctx sample_postponed) = {#7#} \<and> ledger (m_ctx (postponement_window_timer_cb sample_postponed)) = {#7#}"
proof -
  have "answered (v_out (m_ctx sample_postponed)) = []" by code_simp
  then show ?thesis
    using request_ledger [of True "\<lambda>p. True", OF sample_reachable(5)] sample_states(4) by (simp add: ledger_def)
qed





text \<open>
  (C17) Recovery succeeds: when the client reports its connection the session is connected, the kept
  requests are completed with their own actions in order of arrival, the connections let past the tunnel
  are reset, the window is closed and the application is told the endpoint.
\<close>

theorem recovery_completes:
  assumes "vpn_reachable R P m" and "m_current_state m = VPN_SS_RECOVERING"
    and "v_client_state (m_ctx m) = CLIS_CONNECTING" and "m' = client_handler EVENT_CONNECTED m"
  shows "m_current_state m' = VPN_SS_CONNECTED \<and> v_client_state (m_ctx m') = CLIS_CONNECTED \<and>
    v_postponed_requests (m_ctx m') = [] \<and> v_bypassed_connection_ids (m_ctx m') = [] \<and>
    \<not> v_postponement_window_timer (m_ctx m') \<and> rec_attempts (v_recovery (m_ctx m')) = 0 \<and>
    (\<exists>s. v_selected_endpoint (m_ctx m) = Some s \<and>
      v_out (m_ctx m') = v_out (m_ctx m) @ [ClientUpdateBypassIp] @ (if v_pinger (m_ctx m) then [PingerStop] else []) @
        map (\<lambda>r. CompleteRequest (crr_id r) (crr_action r)) (v_postponed_requests (m_ctx m)) @
        map ResetConnection (v_bypassed_connection_ids (m_ctx m)) @
        [StateChanged VPN_SS_CONNECTED (ConnectedInfo (sel_endpoint s) (sel_relay s))])"
proof -
  note p = reachable_parts [OF assms(1)]
  obtain s where "v_selected_endpoint (m_ctx m) = Some s"
    using p(3) assms(2,3) by (auto simp: state_ok_def)
  then show ?thesis
    using p(1) assms(2)
    by (simp add: assms(4) client_handler_def on_CLIENT_READY enter_def finalize_recovery_def raise_state_def
        get_state_def stop_pinging_def clear_recovery_def complete_postponed_requests_def complete_all_out
        reset_bypassed_connections_def reset_all_out emit_def recovery_info_init_def on_ctx_def Let_def)
qed

theorem recovery_completes_witness:
  "m_current_state (client_handler EVENT_CONNECTED sample_recovering) = VPN_SS_CONNECTED \<and>
   CompleteRequest 7 None \<in> set (v_out (m_ctx (client_handler EVENT_CONNECTED sample_recovering)))"
proof -
  have e: "m_current_state sample_recovering = VPN_SS_RECOVERING"
    "v_client_state (m_ctx sample_recovering) = CLIS_CONNECTING"
    "v_postponed_requests (m_ctx sample_recovering) = [sample_request]" by code_simp+
  then show ?thesis
    using recovery_completes [of True "\<lambda>p. True", OF sample_reachable(6) e(1,2) refl] by (auto simp: sample_request_def)
qed

subsection \<open>State changes\<close>

definition reported :: "vpn_machine \<Rightarrow> vpn_machine \<Rightarrow> bool" where
  "reported m m' \<longleftrightarrow> m_current_state m' = m_current_state m \<or> v_ub (m_ctx m') \<or>
     (\<exists>info es. v_out (m_ctx m') = es @ [StateChanged (m_current_state m') info] \<and>
        (m_current_state m' = VPN_SS_CONNECTED \<longrightarrow>
           (\<exists>s. v_selected_endpoint (m_ctx m') = Some s \<and> info = ConnectedInfo (sel_endpoint s) (sel_relay s))))"

definition keeps_state :: "vpn_action \<Rightarrow> bool" where
  "keeps_state a \<longleftrightarrow> (\<forall>d m. m_current_state (a d m) = m_current_state m)"

lemma actions_keep_state:
  "keeps_state run_ping" "keeps_state connect_client" "keeps_state complete_connect" "keeps_state retry_connect"
  "keeps_state prepare_for_recovery" "keeps_state reconnect_client" "keeps_state finalize_recovery"
  "keeps_state do_disconnect" "keeps_state start_listening" "keeps_state fail_connect_with_no_attempts"
  "keeps_state prepare_for_recovery_nc" "keeps_state on_wrong_connect_state" "keeps_state on_wrong_listen_state"
  "keeps_state complete_request" "keeps_state reject_request" "keeps_state bypass_until_connected"
  "keeps_state postpone_request"
  by (simp_all add: keeps_state_def nc_actions on_wrong_connect_state_def on_wrong_listen_state_def
      complete_request_def reject_request_def bypass_until_connected_def postpone_request_def split: option.splits)

lemma table_reports:
  "list_all (\<lambda>e. (if target_state e = SAME_TARGET_STATE then after_transition e = None
                   else after_transition e = Some raise_state) \<and>
     pred_option keeps_state (before_transition e)) vpn_transition_table"
  by (simp add: vpn_table_defs tr_def actions_keep_state)

lemma raise_state_reports:
  assumes "\<not> v_ub (m_ctx (raise_state d m))"
  shows "\<exists>info es. v_out (m_ctx (raise_state d m)) = es @ [StateChanged (m_current_state m) info] \<and>
        (m_current_state m = VPN_SS_CONNECTED \<longrightarrow>
           (\<exists>s. v_selected_endpoint (m_ctx (raise_state d m)) = Some s \<and> info = ConnectedInfo (sel_endpoint s) (sel_relay s)))"
  using assms
  by (auto simp: raise_state_def get_state_def take_pending_error_def emit_def flag_ub_def Let_def
      split: option.splits if_splits)

interpretation vpn_reports: fsm_table_contract vpn_transition_table "\<lambda>ev d m. \<not> m_recursive m" reported
proof unfold_locales
  fix ev d m e
  assume "find (\<lambda>e. entry_enabled e ev d (m\<lparr>m_recursive := True\<rparr>)) vpn_transition_table = Some e"
  then have e: "if target_state e = SAME_TARGET_STATE then after_transition e = None
      else after_transition e = Some raise_state" "pred_option keeps_state (before_transition e)"
    using table_reports by (auto simp: find_Some_iff list_all_iff)
  let ?m1 = "run_action (before_transition e) d (m\<lparr>m_recursive := True\<rparr>)"
  have s1: "m_current_state ?m1 = m_current_state m"
    using e(2) by (cases "before_transition e") (simp_all add: keeps_state_def)
  show "reported m ((fire_entry e d (m\<lparr>m_recursive := True\<rparr>))\<lparr>m_recursive := False\<rparr>)"
  proof (cases "target_state e = SAME_TARGET_STATE")
    case True
    with e(1) s1 show ?thesis by (simp add: reported_def fire_entry_def Let_def)
  next
    case False
    with e(1) raise_state_reports [of d "?m1\<lparr>m_current_state := target_state e, m_recursive := False\<rparr>"]
    show ?thesis by (simp add: reported_def fire_entry_def Let_def) blast
  qed
qed (auto simp: reported_def)

text \<open>
  (C19) The application learns every change of state: an event that takes the session to another state
  ends by raising the state-changed event for it, and for the connected state the event carries the
  endpoint and the relay in use.
\<close>

theorem state_change_reported:
  assumes "\<not> m_recursive m" and "m' = vpn_transition ev d m" and "m_current_state m' \<noteq> m_current_state m"
    and "\<not> v_ub (m_ctx m')"
  shows "\<exists>info es. v_out (m_ctx m') = es @ [StateChanged (m_current_state m') info] \<and>
    (m_current_state m' = VPN_SS_CONNECTED \<longrightarrow>
       (\<exists>s. v_selected_endpoint (m_ctx m') = Some s \<and> info = ConnectedInfo (sel_endpoint s) (sel_relay s)))"
  using vpn_reports.transition_establishes [of m ev d] assms by (simp add: vpn_transition_def reported_def)

theorem state_change_reported_witness:
  "\<exists>info es. v_out (m_ctx (vpn_transition CE_SHUTDOWN NullArg sample_connected)) = es @ [StateChanged VPN_SS_DISCONNECTED info]"
proof -
  have e: "\<not> m_recursive sample_connected" "m_current_state (vpn_transition CE_SHUTDOWN NullArg sample_connected) = VPN_SS_DISCONNECTED"
    "\<not> v_ub (m_ctx (vpn_transition CE_SHUTDOWN NullArg sample_connected))" by code_simp+
  show ?thesis
    using state_change_reported [OF e(1) refl, of CE_SHUTDOWN NullArg] e sample_states by auto
qed

subsection \<open>Recovery attempts\<close>







end
