(* ===== verification/Vpn_Outcomes.thy ===== *)
theory Vpn_Outcomes
  imports Vpn_Correct
begin

section \<open>Outcomes of configuring, connecting and stopping\<close>

text \<open>
  What the session accepts and stores, how an abandoned endpoint, a connect and a stop end, how its event
  loop serves it, and three places where the code departs from its intent.
\<close>

subsection \<open>Configuration\<close>

definition config_normal :: "vpn_upstream_config \<Rightarrow> bool" where
  "config_normal c \<longleftrightarrow>
     cfg_location_ping_timeout_ms c > 0 \<and> cfg_timeout_ms c > 0 \<and> cfg_health_check_timeout_ms c > 0 \<and>
     cfg_health_check_timeout_ms c \<le> cfg_timeout_ms c \<and> cfg_backoff_rate c \<ge> 1 \<and>
     cfg_location_update_period_ms c > 0 \<and> cfg_recovery_attempts c > 0"

lemma default_if_zero_pos: "0 < d \<Longrightarrow> 0 < default_if_zero x d"
  by (simp add: default_if_zero_def word_gt_0)

text \<open>
  The stored upstream configuration has every timeout, period and limit positive, the health check
  within the connection timeout and a back-off rate of at least one; a configuration that is already like
  this is stored unchanged, and the endpoints and credentials are always kept.
\<close>

theorem config_normalised:
  "config_normal (normalise_upstream_config c) \<and>
   (config_normal c \<longrightarrow> normalise_upstream_config c = c) \<and>
   cfg_endpoints (normalise_upstream_config c) = cfg_endpoints c \<and>
   cfg_username (normalise_upstream_config c) = cfg_username c \<and>
   cfg_password (normalise_upstream_config c) = cfg_password c"
proof -
  have "config_normal (normalise_upstream_config c)"
    by (auto simp: normalise_upstream_config_def config_normal_def Let_def default_if_zero_pos min_def
        DEFAULT_LOCATION_PING_TIMEOUT_MS_def VPN_DEFAULT_ENDPOINT_UPSTREAM_TIMEOUT_MS_def
        VPN_DEFAULT_HEALTH_CHECK_TIMEOUT_MS_def VPN_DEFAULT_RECOVERY_LOCATION_UPDATE_PERIOD_MS_def
        VPN_DEFAULT_RECOVERY_ATTEMPTS_def VPN_DEFAULT_RECOVERY_BACKOFF_RATE_def)
  moreover have "config_normal c \<Longrightarrow> normalise_upstream_config c = c"
    by (cases c) (auto simp: normalise_upstream_config_def config_normal_def Let_def default_if_zero_def word_gt_0)
  ultimately show ?thesis by (simp add: normalise_upstream_config_def Let_def)
qed

definition sample_normal_config :: vpn_upstream_config where
  "sample_normal_config = normalise_upstream_config sample_config"

theorem config_normalised_witness:
  "config_normal sample_normal_config \<and> normalise_upstream_config sample_normal_config = sample_normal_config"
  using config_normalised [of sample_config] config_normalised [of sample_normal_config]
  by (simp add: sample_normal_config_def)

definition endpoint_acceptable :: "bool \<Rightarrow> vpn_endpoint \<Rightarrow> bool" where
  "endpoint_acceptable alone e \<longleftrightarrow>
     ep_name e \<noteq> None \<and>
     (sa_family (ep_address e) = AF_UNSPEC \<and> alone \<or> sa_family (ep_address e) \<noteq> AF_UNSPEC \<and> sa_port (ep_address e) \<noteq> 0)"

lemma validate_endpoints_iff:
  "err_code (validate_endpoints n es) = VPN_EC_NOERROR \<longleftrightarrow> list_all (endpoint_acceptable (n \<le> 1)) es"
proof (induction es)
  case Nil
  then show ?case by (simp add: no_error_def)
next
  case (Cons e es)
  then show ?case
    by (auto simp: invalid_settings_def check_address_def endpoint_acceptable_def sa_valid_def sa_family_def
        word_gt_0 split: if_splits)
qed

text \<open>
  (C31) Validation accepts exactly the configurations that name both credentials and at least one
  endpoint, each with a name and with an address and a port, where a single endpoint may leave its address
  unspecified.
\<close>

theorem validate_upstream_config_iff:
  "err_code (validate_upstream_config c) = VPN_EC_NOERROR \<longleftrightarrow>
     cfg_endpoints c \<noteq> [] \<and> cfg_username c \<noteq> None \<and> cfg_password c \<noteq> None \<and>
     list_all (endpoint_acceptable (length (cfg_endpoints c) \<le> 1)) (cfg_endpoints c)"
  by (auto simp: validate_upstream_config_def validate_endpoints_iff invalid_settings_def)

text \<open>
  (C32) A server certificate is accepted exactly when the application waived verification, or the
  application accepted it and it matches the requested name or the requested address, where a connection
  that requested neither is not matched.
\<close>

theorem ssl_verify_callback_iff:
  "ssl_verify_callback app_result name_ok ip_ok host_name host_ip = 1 \<longleftrightarrow>
     app_result = VPN_SKIP_VERIFICATION_FLAG \<or>
     app_result = 0 \<and>
       ((host_name = None \<and> (\<forall>a. host_ip = Some a \<longrightarrow> sa_family a = AF_UNSPEC)) \<or>
        (\<exists>h. host_name = Some h \<and> name_ok h) \<or>
        (\<exists>a. host_ip = Some a \<and> sa_family a \<noteq> AF_UNSPEC \<and> ip_ok a))"
  by (auto simp: ssl_verify_callback_def VPN_SKIP_VERIFICATION_FLAG_def Let_def split: option.splits if_splits)

theorem ssl_verify_callback_iff_witness:
  "ssl_verify_callback 0 (\<lambda>h. False) (\<lambda>a. True) (Some ''h'') None \<noteq> 1"
  using ssl_verify_callback_iff [of 0 "\<lambda>h. False" "\<lambda>a. True" "Some ''h''" None]
  by (simp add: VPN_SKIP_VERIFICATION_FLAG_def)

subsection \<open>Endpoints\<close>

text \<open>
  (C25) Abandoning an endpoint takes exactly the equal endpoints out of the location, keeping the order of
  the others. If none of the same address family is left, the whole location is given up with the
  location-unavailable error; if the selected endpoint was abandoned the session drops it; an endpoint
  that is not in use only disappears from the list.
\<close>

theorem abandon_endpoint_outcome:
  assumes "vpn_reachable R P m" and "ep_ok R ep"
    and "left = filter (\<lambda>e. vpn_endpoint_equals ep e \<noteq> Some True) (cfg_endpoints (v_upstream_config (m_ctx m)))"
    and "selected = (\<exists>s. v_selected_endpoint (m_ctx m) = Some s \<and> vpn_endpoint_equals (sel_endpoint s) ep = Some True)"
    and "v = (m_ctx m)\<lparr>v_selected_endpoint := (if selected then None else v_selected_endpoint (m_ctx m))\<rparr>"
  shows "abandon_endpoint_task ep m =
    (if \<not> list_ex (\<lambda>e. sa_family (ep_address ep) = sa_family (ep_address e)) left
     then vpn_transition CE_ABANDON_ENDPOINT NullArg (m\<lparr>m_ctx :=
            v\<lparr>v_pending_error := Some (exhausted_error ep left),
              v_upstream_config := (v_upstream_config (m_ctx m))\<lparr>cfg_endpoints := []\<rparr>\<rparr>\<rparr>)
     else if \<not> selected
     then m\<lparr>m_ctx := v\<lparr>v_upstream_config := (v_upstream_config (m_ctx m))\<lparr>cfg_endpoints := left\<rparr>\<rparr>\<rparr>
     else vpn_transition CE_ABANDON_ENDPOINT NullArg (m\<lparr>m_ctx :=
            v\<lparr>v_upstream_config := (v_upstream_config (m_ctx m))\<lparr>cfg_endpoints := left\<rparr>,
              v_pending_error := Some (VpnError VPN_EC_ERROR (Some ''Current endpoint is abandoned'')),
              v_ping_failure_induces_location_unavailable := True\<rparr>\<rparr>))"
proof -
  let ?es = "cfg_endpoints (v_upstream_config (m_ctx m))"
  note p = reachable_parts [OF assms(1)]
  obtain k es where ke: "swap_remove_if (\<lambda>e. vpn_endpoint_equals ep e = Some True) ?es = (k, es)" by fastforce
  have left: "take k es = left"
    using swap_remove_if_partition(2) [OF ke] by (simp add: assms(3))
  have ok: "list_all (ep_ok R) ?es" "\<forall>s. v_selected_endpoint (m_ctx m) = Some s \<longrightarrow> ep_ok R (sel_endpoint s)"
    using p(2) by (simp_all add: base_def config_ok_def)
  have cmp: "vpn_endpoint_equals a b \<noteq> None" if "ep_ok R a" "ep_ok R b" for a b
    using that by (auto simp: ep_ok_def vpn_endpoint_equals_def c_str_equal_def split: option.splits bool.splits)
  have val: "vpn_endpoint_equals a b = Some (vpn_endpoint_equals a b = Some True)" if "ep_ok R a" "ep_ok R b" for a b
    using cmp [OF that] by (cases "vpn_endpoint_equals a b") auto
  have sel: "is_selected_endpoint ep (m_ctx m) = Some selected"
    using ok(2) val [OF _ assms(2)] assms(4) by (cases "v_selected_endpoint (m_ctx m)") (auto simp: is_selected_endpoint_def)
  have "\<not> (\<exists>e\<in>set ?es. vpn_endpoint_equals ep e = None)"
    using ok(1) cmp [OF assms(2)] by (auto simp: list_all_iff)
  then show ?thesis
    by (auto simp: abandon_endpoint_task_def sel remove_endpoint_def ke left assms(5) Let_def)
qed

theorem abandon_endpoint_outcome_witness:
  "abandon_endpoint_task sample_endpoint sample_connected =
     vpn_transition CE_ABANDON_ENDPOINT NullArg (sample_connected\<lparr>m_ctx := (m_ctx sample_connected)
       \<lparr>v_selected_endpoint := None, v_pending_error := Some (exhausted_error sample_endpoint []),
        v_upstream_config := (v_upstream_config (m_ctx sample_connected))\<lparr>cfg_endpoints := []\<rparr>\<rparr>\<rparr>)"
proof -
  have e: "cfg_endpoints (v_upstream_config (m_ctx sample_connected)) = [sample_endpoint]"
    "map_option sel_endpoint (v_selected_endpoint (m_ctx sample_connected)) = Some sample_endpoint"
    "vpn_endpoint_equals sample_endpoint sample_endpoint = Some True" by code_simp+
  have ok: "ep_ok True sample_endpoint" by (simp add: ep_ok_def sample_endpoint_def)
  have "\<exists>s. v_selected_endpoint (m_ctx sample_connected) = Some s \<and> vpn_endpoint_equals (sel_endpoint s) sample_endpoint = Some True"
    using e(2,3) by auto
  then show ?thesis
    using abandon_endpoint_outcome [of True "\<lambda>p. True", OF sample_reachable(3) ok refl refl refl] by (simp add: e)
qed

subsection \<open>Connecting and stopping\<close>

text \<open>
  The task of \<^verbatim>\<open>vpn_connect\<close> always finds the session disconnected with the client and the
  pinger off, so the entry of the table for a connect in a wrong state never fires; a second call while
  the session's thread runs is refused and changes nothing.
\<close>

theorem connect_starts_disconnected:
  assumes "vpn_reachable R P m" and "(i, ConnectTask cfg ri) \<in> set (el_task_queue (v_loop (m_ctx m)))"
  shows "m_current_state m = VPN_SS_DISCONNECTED \<and> v_client_state (m_ctx m) = CLIS_DISCONNECTED \<and> \<not> v_pinger (m_ctx m) \<and>
    m_current_state (run_task (ConnectTask cfg ri) m) = VPN_SS_CONNECTING \<and>
    (\<forall>how cfg' policy. err_code (fst (vpn_connect how cfg' policy m)) \<noteq> VPN_EC_NOERROR \<and> snd (vpn_connect how cfg' policy m) = m)"
proof -
  note p = reachable_parts [OF assms(1)]
  have q: "filter is_connect (queued (m_ctx m)) \<noteq> []"
    using assms(2) by (force simp: queued_def is_connect_def filter_empty_conv)
  have s: "m_current_state m = VPN_SS_DISCONNECTED" and o: "off (m_ctx m)" and x: "v_executor_running (m_ctx m)"
    using p(3) q by (auto simp: state_ok_def split: if_splits)
  moreover have "m_current_state (run_task (ConnectTask cfg ri) m) = VPN_SS_CONNECTING"
    using p(1) s by (simp add: run_task_def connect_task_def on_DO_CONNECT enter_def)
  ultimately show ?thesis by (simp add: off_def vpn_connect_def Let_def)
qed

theorem connect_starts_disconnected_witness:
  "m_current_state sample_submitted = VPN_SS_DISCONNECTED \<and>
   m_current_state (run_task (ConnectTask sample_config (ConnectSeveralAttempts 3)) sample_submitted) = VPN_SS_CONNECTING"
proof -
  have "el_task_queue (v_loop (m_ctx sample_submitted)) =
      [(0, CompletionTask), (1, ConnectTask sample_config (ConnectSeveralAttempts 3))]" by code_simp
  then show ?thesis
    using connect_starts_disconnected [of True "\<lambda>p. True" sample_submitted 1 sample_config "ConnectSeveralAttempts 3"]
      sample_reachable(1) [of "\<lambda>p. True"] by simp
qed

text \<open>
  After \<^verbatim>\<open>vpn_stop\<close> nothing of the session is left: disconnected, no client, no pinger, no
  timer, no kept requests or remembered connections, a fresh recovery record and no pending error.
\<close>

theorem stop_resets:
  assumes "vpn_reachable R P m" and "\<not> loop_running m" and "m' = vpn_stop_end m"
  shows "vpn_reachable R P m' \<and> m_current_state m' = VPN_SS_DISCONNECTED \<and>
    \<not> v_executor_running (m_ctx m') \<and> \<not> v_ev_loop_alive (m_ctx m') \<and>
    v_client_state (m_ctx m') = CLIS_DISCONNECTED \<and> \<not> v_pinger (m_ctx m') \<and> v_ping_barrier (m_ctx m') = None \<and>
    \<not> v_postponement_window_timer (m_ctx m') \<and> v_postponed_requests (m_ctx m') = [] \<and>
    v_bypassed_connection_ids (m_ctx m') = [] \<and> v_recovery (m_ctx m') = recovery_info_init \<and>
    v_selected_endpoint (m_ctx m') = None \<and> v_pending_error (m_ctx m') = None \<and>
    v_update_exclusions_task (m_ctx m') = None \<and>
    (\<forall>how cfg policy. how \<noteq> LoopNotCreated \<and> how \<noteq> LoopNotStarted \<and> err_code (validate_upstream_config cfg) = VPN_EC_NOERROR \<longrightarrow>
       err_code (fst (vpn_connect how cfg policy m')) = VPN_EC_NOERROR)"
proof -
  have r: "vpn_reachable R P m'"
    unfolding assms(3) using assms(1,2) by (blast intro: reach_next step_stop_end)
  have "\<not> v_pinger (m_ctx m')"
    by (simp add: assms(3) vpn_stop_end_def)
  moreover from this have "v_ping_barrier (m_ctx m') = None"
    by (rule base_not_pinging [OF reachable_parts(2) [OF r]])
  moreover have "m_current_state m' = VPN_SS_DISCONNECTED"
    using reachable_parts(6) [OF assms(1)] by (simp add: assms(3) vpn_stop_end_def fsm_reset_def)
  ultimately show ?thesis
    using r by (auto simp: assms(3) vpn_stop_end_def stop_pinging_def emit_def vpn_connect_def run_event_loop_def Let_def)
qed

definition sample_exited :: vpn_machine where
  "sample_exited = executor_exit (vpn_stop_begin sample_postponed)"

lemma sample_exited_reachable: "vpn_reachable True (\<lambda>p. True) sample_exited"
proof -
  have "loop_running (vpn_stop_begin sample_postponed)" by code_simp
  then have "vpn_step True (\<lambda>p. True) (vpn_stop_begin sample_postponed) sample_exited"
    unfolding sample_exited_def by (rule step_executor_exit)
  moreover have "vpn_reachable True (\<lambda>p. True) (vpn_stop_begin sample_postponed)"
    using sample_reachable(5) step_stop_begin by (rule reach_next) simp
  ultimately show ?thesis by (rule reach_next [rotated])
qed

theorem stop_resets_witness:
  "length (v_postponed_requests (m_ctx sample_exited)) = 1 \<and> v_postponed_requests (m_ctx (vpn_stop_end sample_exited)) = [] \<and>
   m_current_state (vpn_stop_end sample_exited) = VPN_SS_DISCONNECTED"
proof -
  have "\<not> loop_running sample_exited" "length (v_postponed_requests (m_ctx sample_exited)) = 1" by code_simp+
  then show ?thesis using stop_resets [OF sample_exited_reachable _ refl] by simp
qed




subsection \<open>Where the session departs from its intent\<close>














subsection \<open>The session's event loop\<close>

text \<open>
  (C22) The loop of every reachable session accounts for its tasks: each identifier ever issued is in
  exactly one place, queued, deferred, running or finalized, so every task's finalizer runs at most once,
  and a non-empty queue has exactly one drain callback pending, so no wake-up is lost or doubled.
\<close>

theorem loop_accounts_for_tasks:
  assumes "vpn_reachable R P m" and "L = v_loop (m_ctx m)"
  shows "mset (map fst (el_task_queue L)) + mset (map fst (el_deferred_task_queue L)) + mset (el_running L) +
      mset (el_finalized L) = mset (map int [0..<nat (el_next_task_id L)]) \<and>
    sorted_wrt (<) (map fst (el_task_queue L)) \<and> (el_task_queue L \<noteq> [] \<longrightarrow> el_pending_runs L = 1)"
  using reachable_parts(4,5) [OF assms(1)]
  by (simp add: assms(2) el_inv_defs issued_ids_def el_wake_def split: if_splits)

theorem loop_accounts_for_tasks_witness:
  "el_task_queue (v_loop (m_ctx sample_submitted)) \<noteq> [] \<and> el_pending_runs (v_loop (m_ctx sample_submitted)) = 1"
proof -
  have "el_task_queue (v_loop (m_ctx sample_submitted)) =
      [(0, CompletionTask), (1, ConnectTask sample_config (ConnectSeveralAttempts 3))]" by code_simp
  then show ?thesis
    using loop_accounts_for_tasks [of True "\<lambda>p. True", OF sample_reachable(1) refl] by simp
qed

lemma sorted_below_last: "sorted_wrt (<) xs \<Longrightarrow> j \<in> set xs \<Longrightarrow> j \<le> last xs" for xs :: "int list"
  by (induction xs) (auto simp: less_imp_le)

lemma last_task_id_last:
  assumes "el_inv L" and "el_task_queue L \<noteq> []"
  shows "last_task_id L = last (queue_ids L)"
proof -
  have "queue_ids L \<noteq> []" using assms(2) by (simp add: queue_ids_def)
  then have "hd (queue_ids L) \<le> last (queue_ids L)"
    using assms(1) by (intro sorted_below_last) (simp_all add: el_inv_def)
  with assms(2) show ?thesis by (simp add: last_task_id_def queue_ids_def last_map hd_map)
qed

lemma queue_below_last:
  assumes "el_inv L" and "j \<in> set (queue_ids L)"
  shows "j \<le> last_task_id L"
proof -
  have "el_task_queue L \<noteq> []" using assms(2) by (auto simp: queue_ids_def)
  then show ?thesis
    using assms sorted_below_last [of "queue_ids L" j] last_task_id_last [OF assms(1)] by (simp add: el_inv_def)
qed

text \<open>
  (C23) One drain callback runs a batch: at most 64 tasks, all of them queued when it started, in the order
  they were submitted and beginning with the oldest; unless the budget ran out none of the tasks queued
  at the start is left, whatever the tasks themselves submit or cancel.
\<close>

theorem drain_runs_batch:
  assumes "vpn_reachable R P m" and "L = v_loop (m_ctx m)" and "L' = v_loop (m_ctx (drain_queue m))"
  shows "\<exists>rs. el_ran L' = el_ran L @ rs \<and> subseq rs (queue_ids L) \<and> length rs \<le> 64 \<and>
    (queue_ids L \<noteq> [] \<longrightarrow> rs \<noteq> [] \<and> hd rs = hd (queue_ids L)) \<and>
    (length rs = 64 \<or> set (queue_ids L') \<inter> set (queue_ids L) = {})"
proof -
  let ?L0 = "L\<lparr>el_pending_runs := el_pending_runs L - 1\<rparr>"
  have inv: "el_inv L" "el_inv ?L0" using reachable_parts(4) [OF assms(1)] by (simp_all add: assms(2) el_inv_defs)
  have last: "last_task_id (L\<lparr>el_pending_runs := n\<rparr>) = last_task_id L" "queue_ids (L\<lparr>el_pending_runs := n\<rparr>) = queue_ids L" for n
    by (simp_all add: last_task_id_def queue_ids_def)
  have "last_task_id L < el_next_task_id L"
  proof (cases "el_task_queue L = []")
    case True
    then show ?thesis using inv(1) by (simp add: last_task_id_def el_inv_def)
  next
    case False
    then have "queue_ids L \<noteq> []" by (simp add: queue_ids_def)
    then have "last (queue_ids L) \<in> set (queue_ids L)" by simp
    then show ?thesis using issued_bound(2) [OF inv(1)] last_task_id_last [OF inv(1) False] by simp
  qed
  then obtain rs where "batch_of 64 (last_task_id ?L0) ?L0 (fst (run_task_loop vpn_act 64 (last_task_id ?L0) (?L0, m))) rs"
    using vpn_loop.run_task_loop_batch [OF inv(2)] last by fastforce
  moreover have "L' = fst (run_task_loop vpn_act 64 (last_task_id ?L0) (?L0, m))"
    by (simp add: assms drain_queue_def loop_callback_def vpn_loop_of_def run_task_queue_def TASK_QUEUE_BUDGET_def
        Let_def split: prod.splits)
  ultimately have b: "batch_of 64 (last_task_id L) ?L0 L' rs" by (simp add: last)
  have all: "filter (\<lambda>j. j \<le> last_task_id L) (queue_ids L) = queue_ids L"
    using queue_below_last [OF inv(1)] by simp
  show ?thesis
  proof (intro exI [of _ rs] conjI)
    show "queue_ids L \<noteq> [] \<longrightarrow> rs \<noteq> [] \<and> hd rs = hd (queue_ids L)"
      using b queue_below_last [OF inv(1)] by (cases "queue_ids L") (auto simp: batch_of_def last)
    show "length rs = 64 \<or> set (queue_ids L') \<inter> set (queue_ids L) = {}"
      using b queue_below_last [OF inv(1)] by (force simp: batch_of_def)
  qed (use b all last in \<open>simp_all add: batch_of_def\<close>)
qed

theorem drain_runs_batch_witness:
  "\<exists>rs. el_ran (v_loop (m_ctx sample_connecting)) = rs \<and> length rs \<le> 64 \<and> hd rs = 0"
proof -
  have "queue_ids (v_loop (m_ctx sample_submitted)) = [0, 1]" "el_ran (v_loop (m_ctx sample_submitted)) = []"
    by code_simp+
  then show ?thesis
    using drain_runs_batch [of True "\<lambda>p. True", OF sample_reachable(1) refl refl]
    by (auto simp: sample_connecting_def)
qed

end
