(* ===== verification/Wire_Bytes.thy ===== *)
theory Wire_Bytes
  imports TT_Prelude "HOL-Library.Monad_Syntax"
begin

section \<open>Big-endian integers and streams of packets\<close>

text \<open>
  What the wire formats of the client and of the endpoint share: the big-endian representation of
  unsigned integers (\<^verbatim>\<open>htons\<close>/\<^verbatim>\<open>ntohs\<close> in the C++ sources,
  \<^verbatim>\<open>to_be_bytes\<close> and the \<^verbatim>\<open>Buf\<close>/\<^verbatim>\<open>BufMut\<close> accessors in the
  Rust sources), and the interface of incremental decoders: a step function that is handed the
  unread part of a chunk and does not depend on where the byte stream was cut.
\<close>

subsection \<open>Big-endian integers\<close>

primrec be_bytes :: "nat \<Rightarrow> nat \<Rightarrow> bytes" where
  "be_bytes 0 n = []"
| "be_bytes (Suc k) n = be_bytes k (n div 256) @ [word_of_nat n]"

definition be_nat :: "bytes \<Rightarrow> nat" where
  "be_nat bs = foldl (\<lambda>a b. a * 256 + unat b) 0 bs"

lemma length_be_bytes [simp]: "length (be_bytes k n) = k"
  by (induction k arbitrary: n) simp_all

lemma be_nat_Nil [simp]: "be_nat [] = 0"
  by (simp add: be_nat_def)

lemma be_nat_snoc [simp]: "be_nat (bs @ [b]) = be_nat bs * 256 + unat b"
  by (simp add: be_nat_def)

lemma unat_byte: "unat (word_of_nat n :: u8) = n mod 256"
  by (simp add: unat_of_nat)

lemma unat_byte_less: "unat (b :: u8) < 256"
  using unsigned_less [of b, where ?'a = nat] by simp

lemma be_nat_be_bytes: "be_nat (be_bytes k n) = n mod 256 ^ k"
proof (induction k arbitrary: n)
  case (Suc k)
  have "be_nat (be_bytes (Suc k) n) = (n div 256) mod 256 ^ k * 256 + n mod 256"
    by (simp add: Suc unat_byte)
  also have "\<dots> = n mod (256 * 256 ^ k)"
    by (simp add: mod_mult2_eq)
  finally show ?case by simp
qed simp

lemma be_nat_less: "be_nat bs < 256 ^ length bs"
proof (induction bs rule: rev_induct)
  case (snoc b bs)
  then have "be_nat bs * 256 + unat b < (be_nat bs + 1) * 256"
    using unat_byte_less [of b] by simp
  also have "\<dots> \<le> 256 ^ length bs * 256"
    using snoc by (intro mult_right_mono) simp_all
  finally show ?case by simp
qed simp

lemma be_bytes_be_nat: "length bs = k \<Longrightarrow> be_bytes k (be_nat bs) = bs"
proof (induction bs arbitrary: k rule: rev_induct)
  case (snoc b bs)
  then obtain j where j: "k = Suc j" "length bs = j" by simp
  have "(be_nat bs * 256 + unat b) div 256 = be_nat bs"
    using unat_byte_less [of b] by simp
  moreover have "(word_of_nat (be_nat bs * 256 + unat b) :: u8) = b"
    by (rule word_unat_eq_iff [THEN iffD2]) (simp only: unat_byte, simp add: unat_byte_less)
  ultimately show ?case using snoc.IH [OF j(2)] j by simp
qed simp

lemma be_nat_be_bytes_word: "LENGTH('a::len) = 8 * k \<Longrightarrow> be_nat (be_bytes k (unat (w :: 'a word))) = unat w"
proof -
  assume "LENGTH('a) = 8 * k"
  then have "(256 :: nat) ^ k = 2 ^ LENGTH('a)" by (simp add: power_mult)
  then show ?thesis using unsigned_less [of w, where ?'a = nat] by (simp add: be_nat_be_bytes)
qed

definition u16_be :: "u16 \<Rightarrow> bytes" where
  "u16_be w = be_bytes 2 (unat w)"

definition u32_be :: "u32 \<Rightarrow> bytes" where
  "u32_be w = be_bytes 4 (unat w)"

definition u64_be :: "u64 \<Rightarrow> bytes" where
  "u64_be w = be_bytes 8 (unat w)"

lemma length_be [simp]: "length (u16_be a) = 2" "length (u32_be b) = 4" "length (u64_be c) = 8"
  by (simp_all add: u16_be_def u32_be_def u64_be_def)

lemma be_nat_u16 [simp]: "be_nat (u16_be w) = unat w"
  by (simp add: u16_be_def be_nat_be_bytes_word)

lemma be_nat_u32 [simp]: "be_nat (u32_be w) = unat w"
  by (simp add: u32_be_def be_nat_be_bytes_word)

lemma be_nat_u64 [simp]: "be_nat (u64_be w) = unat w"
  by (simp add: u64_be_def be_nat_be_bytes_word)

lemma word_be_nat [simp]:
  "(word_of_nat (be_nat (u16_be a)) :: u16) = a" "(word_of_nat (be_nat (u32_be b)) :: u32) = b"
  "(word_of_nat (be_nat (u64_be c)) :: u64) = c"
  by (simp_all add: word_unat_eq_iff)

lemma unat_u32: "n < 2 ^ 32 \<Longrightarrow> unat (word_of_nat n :: u32) = n"
  by (simp add: unat_of_nat)

lemma unat_u8: "n < 256 \<Longrightarrow> unat (word_of_nat n :: u8) = n"
  by (simp add: unat_of_nat)

subsection \<open>Incremental decoders\<close>

text \<open>
  A decoder's step looks at the unread bytes of a chunk (never none) and its state, and gives what it
  reports, the bytes it leaves and the next state; \<open>None\<close> stands for the inputs the contract does not
  speak about. The laws: a step that leaves bytes does the same when more bytes follow; a step that
  takes everything either does the same when more bytes follow, or merges with the step on those
  bytes; and what is within the contract is so for a beginning of the bytes. The lemmas show that the
  reports and the state depend on the bytes only and not on the cuts between chunks.
\<close>

locale stream_decoder =
  fixes step :: "bytes \<Rightarrow> 's \<Rightarrow> ('o list \<times> bytes \<times> 's) option"
  assumes step_more: "step xs s = Some (out, tail, t) \<Longrightarrow> xs \<noteq> [] \<Longrightarrow> tail \<noteq> [] \<Longrightarrow>
      step (xs @ ys) s = Some (out, tail @ ys, t)"
    and step_end: "step xs s = Some (out, [], t) \<Longrightarrow> xs \<noteq> [] \<Longrightarrow> ys \<noteq> [] \<Longrightarrow>
      step (xs @ ys) s = Some (out, ys, t) \<or> (out = [] \<and> step (xs @ ys) s = step ys t)"
    and step_prefix: "step (xs @ ys) s \<noteq> None \<Longrightarrow> xs \<noteq> [] \<Longrightarrow> step xs s \<noteq> None"
begin

inductive feeds :: "'s \<Rightarrow> bytes \<Rightarrow> 'o list \<Rightarrow> 's \<Rightarrow> bool" where
  feeds_end: "feeds s [] [] s"
| feeds_step: "step xs s = Some (out, tail, t) \<Longrightarrow> xs \<noteq> [] \<Longrightarrow> feeds t tail outs u \<Longrightarrow>
    feeds s xs (out @ outs) u"

inductive feeds_chunks :: "'s \<Rightarrow> bytes list \<Rightarrow> 'o list \<Rightarrow> 's \<Rightarrow> bool" where
  chunks_end: "feeds_chunks s [] [] s"
| chunks_step: "feeds s c out t \<Longrightarrow> feeds_chunks t cs outs u \<Longrightarrow> feeds_chunks s (c # cs) (out @ outs) u"

inductive_cases feeds_NilE: "feeds s [] out t"
inductive_cases feeds_nonemptyE: "feeds s (x # xs) out t"

lemma feeds_Nil: "feeds s [] out t \<longleftrightarrow> out = [] \<and> t = s"
  by (auto elim: feeds.cases intro: feeds_end)

lemma feeds_cases:
  assumes "feeds s xs out u" and "xs \<noteq> []"
  obtains o1 tail t o2 where "step xs s = Some (o1, tail, t)" "feeds t tail o2 u" "out = o1 @ o2"
  using assms by (cases rule: feeds.cases) auto

lemma feeds_append: "feeds s xs out t \<Longrightarrow> feeds t ys outs u \<Longrightarrow> feeds s (xs @ ys) (out @ outs) u"
proof (induction arbitrary: ys outs u rule: feeds.induct)
  case (feeds_step xs s out tail t outs1 v)
  show ?case
  proof (cases "tail = [] \<and> ys \<noteq> []")
    case False
    then have "step (xs @ ys) s = Some (out, tail @ ys, t)"
      using step_more [OF feeds_step.hyps(1,2)] feeds_step.hyps(1) by (cases "ys = []") auto
    from feeds.feeds_step [OF this _ feeds_step.IH [OF feeds_step.prems]] feeds_step.hyps(2)
    show ?thesis by simp
  next
    case True
    then have v: "v = t" "outs1 = []" using feeds_step.hyps(3) by (simp_all add: feeds_Nil)
    with feeds_step.prems True obtain o1 tl w o2
      where ys: "step ys t = Some (o1, tl, w)" "feeds w tl o2 u" "outs = o1 @ o2"
      by (blast elim: feeds_cases)
    from step_end [OF feeds_step.hyps(1) [unfolded conjunct1 [OF True]] feeds_step.hyps(2) conjunct2 [OF True]]
    show ?thesis
    proof
      assume "step (xs @ ys) s = Some (out, ys, t)"
      from feeds.feeds_step [OF this _ feeds_step.prems [unfolded v]] feeds_step.hyps(2)
      show ?thesis by (simp add: v)
    next
      assume "out = [] \<and> step (xs @ ys) s = step ys t"
      with feeds.feeds_step [of "xs @ ys" s o1 tl w o2 u] ys feeds_step.hyps(2)
      show ?thesis by (simp add: v)
    qed
  qed
qed simp

lemma feeds_deterministic: "feeds s xs out t \<Longrightarrow> feeds s xs out' t' \<Longrightarrow> out' = out \<and> t' = t"
proof (induction arbitrary: out' t' rule: feeds.induct)
  case (feeds_step xs s o1 tail t1 o2 u)
  from feeds_step.prems feeds_step.hyps(2) obtain o1' tail' t1' o2'
    where "step xs s = Some (o1', tail', t1')" "feeds t1' tail' o2' t'" "out' = o1' @ o2'"
    by (blast elim: feeds_cases)
  with feeds_step.hyps(1) feeds_step.IH show ?case by auto
qed (simp add: feeds_Nil)

lemma feeds_split:
  "feeds s zs out u \<Longrightarrow> zs = xs @ ys \<Longrightarrow> \<exists>o1 t o2. feeds s xs o1 t \<and> feeds t ys o2 u \<and> out = o1 @ o2"
proof (induction arbitrary: xs rule: feeds.induct)
  case (feeds_step zs s out tail t outs u)
  have self: "feeds s zs (out @ outs) u" by (rule feeds.feeds_step [OF feeds_step.hyps(1,2,3)])
  show ?case
  proof (cases "xs = [] \<or> ys = []")
    case True
    with self feeds_step.prems show ?thesis by (metis append.right_neutral append_Nil feeds_end)
  next
    case False
    then obtain o' tail' t' where xs: "step xs s = Some (o', tail', t')"
      using step_prefix [of xs ys s] feeds_step by (cases "step xs s") auto
    show ?thesis
    proof (cases "tail' = []")
      case False
      with step_more [OF xs] \<open>\<not> (xs = [] \<or> ys = [])\<close> feeds_step.hyps(1) feeds_step.prems
      have eq: "o' = out" "tail = tail' @ ys" "t' = t" by simp_all
      from feeds_step.IH [OF eq(2)] obtain o1 v o2
        where "feeds t tail' o1 v" "feeds v ys o2 u" "outs = o1 @ o2" by blast
      with feeds.feeds_step [OF xs] \<open>\<not> (xs = [] \<or> ys = [])\<close> eq show ?thesis by fastforce
    next
      case True
      with xs \<open>\<not> (xs = [] \<or> ys = [])\<close> have f: "feeds s xs o' t'"
        using feeds.feeds_step [OF _ _ feeds_end, of xs s o' t'] by simp
      from step_end [OF xs [unfolded True]] \<open>\<not> (xs = [] \<or> ys = [])\<close>
      have "step zs s = Some (o', ys, t') \<or> (o' = [] \<and> step zs s = step ys t')"
        by (simp add: feeds_step.prems)
      with f feeds_step.hyps \<open>\<not> (xs = [] \<or> ys = [])\<close> feeds.feeds_step [of ys t' out tail t outs u] show ?thesis
        by fastforce
    qed
  qed
qed (auto intro: feeds_end)

text \<open>Cutting the stream into chunks differently changes nothing.\<close>

lemma feeds_chunks_concat: "feeds_chunks s cs out t \<longleftrightarrow> feeds s (concat cs) out t"
proof
  show "feeds_chunks s cs out t \<Longrightarrow> feeds s (concat cs) out t"
    by (induction rule: feeds_chunks.induct) (simp_all add: feeds_end feeds_append)
next
  show "feeds s (concat cs) out t \<Longrightarrow> feeds_chunks s cs out t"
  proof (induction cs arbitrary: s out)
    case Nil
    then show ?case by (simp add: feeds_Nil chunks_end)
  next
    case (Cons c cs)
    then obtain o1 u o2 where "feeds s c o1 u" "feeds u (concat cs) o2 t" "out = o1 @ o2"
      using feeds_split [of s "c @ concat cs" out t c "concat cs"] by auto
    with Cons.IH show ?case by (blast intro: chunks_step)
  qed
qed

end

subsection \<open>Reading datagrams from a stream (\<^verbatim>\<open>http_datagram_codec.rs\<close>, \<^verbatim>\<open>http_downstream.rs\<close>)\<close>

text \<open>
  \<^verbatim>\<open>DatagramDecoder::read\<close> of the endpoint takes chunks from the unread remainder of the last
  one, then from the stream, until its decoder completes a datagram. The stream is the list of
  chunks it will deliver before it ends; \<open>None\<close> is a panic of the decoder, \<open>Inl ()\<close> the error for the
  end of the stream.
\<close>

datatype 'g decode_result = WantMore | Complete 'g bytes

function datagram_read ::
  "(bytes \<Rightarrow> 'd \<Rightarrow> ('g decode_result \<times> 'd) option) \<Rightarrow> bytes list \<Rightarrow> bytes list \<Rightarrow> 'd
    \<Rightarrow> ((unit + 'g) \<times> bytes list \<times> bytes list \<times> 'd) option" where
  "datagram_read decode pending source d =
     (case (case pending of c # p \<Rightarrow> Some (c, p, source)
            | [] \<Rightarrow> (case source of c # cs \<Rightarrow> Some (c, [], cs) | [] \<Rightarrow> None)) of
        None \<Rightarrow> Some (Inl (), pending, source, d)
      | Some (chunk, pending, source) \<Rightarrow>
          (case decode chunk d of
             None \<Rightarrow> None
           | Some (WantMore, d) \<Rightarrow> datagram_read decode pending source d
           | Some (Complete g tail, d) \<Rightarrow>
               Some (Inr g, (if tail = [] then pending else tail # pending), source, d)))"
  by pat_completeness auto

termination
  by (relation "measure (\<lambda>(_, p, s, _). length p + length s)") (auto split: list.splits)

declare datagram_read.simps [simp del]

text \<open>The first \<open>n\<close> reads.\<close>

primrec read_n ::
  "(bytes \<Rightarrow> 'd \<Rightarrow> ('g decode_result \<times> 'd) option) \<Rightarrow> nat \<Rightarrow> bytes list \<Rightarrow> bytes list \<Rightarrow> 'd
    \<Rightarrow> ('g list \<times> bytes list \<times> bytes list \<times> 'd) option" where
  "read_n decode 0 p cs d = Some ([], p, cs, d)"
| "read_n decode (Suc n) p cs d =
     (case datagram_read decode p cs d of
        Some (Inr g, p, cs, d) \<Rightarrow>
          (case read_n decode n p cs d of Some (gs, r) \<Rightarrow> Some (g # gs, r) | None \<Rightarrow> None)
      | _ \<Rightarrow> None)"

text \<open>
  A decoder of the endpoint: its loop runs the step until it has a datagram or no bytes. Between chunks it is
  \<open>ready\<close>: an empty chunk changes nothing.
\<close>

locale datagram_decoder = stream_decoder step
  for step :: "bytes \<Rightarrow> 's \<Rightarrow> ('g list \<times> bytes \<times> 's) option" +
  fixes decode :: "bytes \<Rightarrow> 's \<Rightarrow> ('g decode_result \<times> 's) option" and ready :: "'s \<Rightarrow> bool"
  assumes step_ready: "step xs s = Some (out, tail, t) \<Longrightarrow> xs \<noteq> [] \<Longrightarrow> ready t"
    and decode_empty: "ready s \<Longrightarrow> decode [] s = Some (WantMore, s)"
    and decode_quiet: "step xs s = Some ([], tail, t) \<Longrightarrow> xs \<noteq> [] \<Longrightarrow> decode xs s = decode tail t"
    and decode_report: "step xs s = Some (g # gs, tail, t) \<Longrightarrow> xs \<noteq> [] \<Longrightarrow>
      gs = [] \<and> decode xs s = Some (Complete g tail, t)"
begin

lemma decode_feeds:
  "feeds s xs out u \<Longrightarrow> ready s \<Longrightarrow> ready u \<and>
     (case out of [] \<Rightarrow> decode xs s = Some (WantMore, u)
      | g # gs \<Rightarrow> \<exists>tail t. decode xs s = Some (Complete g tail, t) \<and> feeds t tail gs u \<and> ready t)"
proof (induction rule: feeds.induct)
  case (feeds_step xs s out tail t outs u)
  from step_ready [OF feeds_step.hyps(1,2)] have "ready t" .
  with feeds_step show ?case
    by (cases out) (auto dest: decode_report decode_quiet split: list.splits)
qed (simp add: decode_empty)

lemma read_next:
  "feeds_chunks s (p @ cs) (g # gs) u \<Longrightarrow> ready s \<Longrightarrow> length p \<le> 1 \<Longrightarrow>
     \<exists>p' cs' t. datagram_read decode p cs s = Some (Inr g, p', cs', t) \<and> length p' \<le> 1 \<and>
       feeds_chunks t (p' @ cs') gs u \<and> ready t"
proof (induction "length p + length cs" arbitrary: p cs s)
  case 0
  then show ?case by (auto elim: feeds_chunks.cases)
next
  case (Suc n)
  obtain c rest where nxt: "(case p of c # p \<Rightarrow> Some (c, p, cs)
      | [] \<Rightarrow> (case cs of c # cs \<Rightarrow> Some (c, [], cs) | [] \<Rightarrow> None)) = Some (c, [], rest)"
      "p @ cs = c # rest"
    using Suc by (cases p; cases cs) auto
  from Suc.prems(1) nxt(2) obtain o1 t o2
    where c: "feeds s c o1 t" "feeds_chunks t rest o2 u" "g # gs = o1 @ o2"
    by (auto elim: feeds_chunks.cases)
  show ?case
  proof (cases o1)
    case Nil
    have "n = length ([] :: bytes list) + length rest"
      using Suc.hyps(2) nxt(2) by (metis Suc_inject length_Cons length_append list.size(3) plus_nat.add_0)
    from Suc.hyps(1) [OF this, of t] c Nil obtain p' cs' v
      where "datagram_read decode [] rest t = Some (Inr g, p', cs', v)" "length p' \<le> 1" "feeds_chunks v (p' @ cs') gs u" "ready v"
      using decode_feeds [OF c(1) Suc.prems(2)] by auto
    with decode_feeds [OF c(1) Suc.prems(2)] Nil nxt(1) show ?thesis
      by (subst datagram_read.simps) simp
  next
    case (Cons h hs)
    with c(3) have h: "h = g" "gs = hs @ o2" by simp_all
    from decode_feeds [OF c(1) Suc.prems(2)] Cons h obtain tail v
      where d: "decode c s = Some (Complete g tail, v)" "feeds v tail hs t" "ready v" by auto
    have "feeds_chunks v ((if tail = [] then [] else [tail]) @ rest) gs u"
      using chunks_step [OF d(2) c(2)] d(2) c(2) h by (auto simp: feeds_Nil)
    with d nxt(1) show ?thesis
      by (subst datagram_read.simps) simp
  qed
qed

text \<open>Reading delivers what the byte stream contains, wherever the chunks are cut.\<close>

lemma read_n_feeds:
  assumes "feeds_chunks s (p @ cs) gs u" and "ready s" and "length p \<le> 1"
  shows "\<exists>r. read_n decode (length gs) p cs s = Some (gs, r)"
  using assms
proof (induction gs arbitrary: s p cs)
  case (Cons g gs)
  from read_next [OF Cons.prems] obtain p' cs' t
    where "datagram_read decode p cs s = Some (Inr g, p', cs', t)" "length p' \<le> 1" "feeds_chunks t (p' @ cs') gs u" "ready t"
    by blast
  with Cons.IH [of t p' cs'] show ?case by auto
qed simp

end

subsection \<open>Frames of a fixed size\<close>

text \<open>
  Decoders of packets of \<open>n\<close> bytes collect an incomplete packet in a buffer, a part \<open>buf\<close> of their state
  that \<open>set_buf\<close> replaces, and parse a packet once it is complete, which may change the rest of the state.
\<close>

locale frame_decoder =
  fixes n :: nat and buf :: "'s \<Rightarrow> bytes" and set_buf :: "bytes \<Rightarrow> 's \<Rightarrow> 's" and parse :: "bytes \<Rightarrow> 's \<Rightarrow> 'o \<times> 's"
  assumes size: "0 < n"
    and buf_set: "buf (set_buf b s) = b"
    and set_set: "set_buf b (set_buf c s) = set_buf b s"
    and set_same: "buf s = b \<Longrightarrow> set_buf b s = s"
begin

definition frame_step :: "bytes \<Rightarrow> 's \<Rightarrow> ('o list \<times> bytes \<times> 's) option" where
  "frame_step xs s =
     (if n \<le> length (buf s) then None
      else if length (buf s) + length xs < n then Some ([], [], set_buf (buf s @ xs) s)
      else let (out, t) = parse (buf s @ take (n - length (buf s)) xs) (set_buf [] s)
           in Some ([out], drop (n - length (buf s)) xs, t))"

lemma frame_step_more:
  "frame_step xs s = Some (out, tail, t) \<Longrightarrow> tail \<noteq> [] \<Longrightarrow> frame_step (xs @ ys) s = Some (out, tail @ ys, t)"
  by (auto simp: frame_step_def Let_def split: if_splits prod.splits)

lemma frame_step_end:
  assumes "frame_step xs s = Some (out, [], t)" and "ys \<noteq> []"
  shows "frame_step (xs @ ys) s = Some (out, ys, t) \<or> (out = [] \<and> frame_step (xs @ ys) s = frame_step ys t)"
proof (cases "length (buf s) + length xs < n")
  case True
  then have t: "out = []" "t = set_buf (buf s @ xs) s" using assms(1) by (auto simp: frame_step_def)
  have "n - length (buf s) - length xs = n - (length (buf s) + length xs)" by simp
  then have "frame_step (xs @ ys) s = frame_step ys t"
    using True by (auto simp: frame_step_def t buf_set set_set)
  with t show ?thesis by simp
next
  case False
  with assms show ?thesis by (auto simp: frame_step_def Let_def split: if_splits prod.splits)
qed

end

sublocale frame_decoder \<subseteq> frames: stream_decoder frame_step
proof
  show "frame_step xs s \<noteq> None" if "frame_step (xs @ ys) s \<noteq> None" for xs ys s
    using that by (auto simp: frame_step_def split: if_splits prod.splits)
qed (erule (1) frame_step_more frame_step_end)+

text \<open>Whole packets are parsed one by one, with the state handed on.\<close>

context frame_decoder
begin

primrec parse_all :: "bytes list \<Rightarrow> 's \<Rightarrow> 'o list \<times> 's" where
  "parse_all [] s = ([], s)"
| "parse_all (p # ps) s = (let (out, t) = parse p s; (outs, u) = parse_all ps t in (out # outs, u))"

lemma feeds_packets:
  assumes "\<And>p s. buf s = [] \<Longrightarrow> buf (snd (parse p s)) = []"
    and "list_all (\<lambda>p. length p = n) ps" and "buf s = []"
  shows "frames.feeds s (concat ps) (fst (parse_all ps s)) (snd (parse_all ps s))"
  using assms(2,3)
proof (induction ps arbitrary: s)
  case (Cons p ps)
  obtain out t where p: "parse p s = (out, t)" by force
  with Cons.prems assms(1) [of s p] have "buf t = []" by simp
  then have "frames.feeds t (concat ps) (fst (parse_all ps t)) (snd (parse_all ps t))"
    using Cons by simp
  moreover have "frame_step (p @ concat ps) s = Some ([out], concat ps, t)"
    using Cons.prems p size set_same [of s "[]"] by (simp add: frame_step_def)
  moreover have "p @ concat ps \<noteq> []" using Cons.prems size by auto
  ultimately show ?case using frames.feeds_step [of "p @ concat ps" s "[out]" "concat ps" t] p
    by (simp add: case_prod_unfold Let_def)
qed (simp add: frames.feeds_end)

end

end
