(* ===== verification/Wire_Utils.thy ===== *)
theory Wire_Utils
  imports Wire_Bytes Net_Types
begin

section \<open>Wire reader and writer of the client (\<^verbatim>\<open>core/include/vpn/internal/wire_utils.h\<close>)\<close>

text \<open>
  \<^verbatim>\<open>Writer\<close> is a position in a buffer of fixed size; \<open>None\<close> is a failed assertion (the
  value does not fit). \<^verbatim>\<open>Reader\<close> is the unread rest of its buffer; \<open>None\<close> is
  \<^verbatim>\<open>std::nullopt\<close>, which leaves the reader as it was. Addresses travel in 16 bytes: an IPv4
  address is preceded by 12 zero bytes, and the reader has to tell the two families apart by them.
\<close>

subsection \<open>Writer\<close>

definition IPV4_ADDR_SIZE :: nat where "IPV4_ADDR_SIZE = 4"
definition IPV6_ADDR_SIZE :: nat where "IPV6_ADDR_SIZE = 16"
definition PADDED_IP_SIZE :: nat where "PADDED_IP_SIZE = IPV6_ADDR_SIZE"
definition IPV4_6_SIZE_DIFF :: nat where "IPV4_6_SIZE_DIFF = IPV6_ADDR_SIZE - IPV4_ADDR_SIZE"

lemmas ip_sizes [simp] = IPV4_ADDR_SIZE_def IPV6_ADDR_SIZE_def PADDED_IP_SIZE_def IPV4_6_SIZE_DIFF_def

datatype writer = Writer (wr_buffer: bytes) (wr_pos: nat)

definition put_data :: "bytes \<Rightarrow> writer \<Rightarrow> writer option" where
  "put_data d w =
     (let b = wr_buffer w; p = wr_pos w
      in if length b - p < length d then None
         else Some (Writer (take p b @ d @ drop (p + length d) b) (p + length d)))"

definition put_u8 :: "u8 \<Rightarrow> writer \<Rightarrow> writer option" where
  "put_u8 v = put_data [v]"

definition put_u16 :: "u16 \<Rightarrow> writer \<Rightarrow> writer option" where
  "put_u16 v = put_data (u16_be v)"

definition put_u32 :: "u32 \<Rightarrow> writer \<Rightarrow> writer option" where
  "put_u32 v = put_data (u32_be v)"

definition put_ip :: "socket_address \<Rightarrow> writer \<Rightarrow> writer option" where
  "put_ip a = put_data (sa_addr a)"

definition put_ip_padded :: "socket_address \<Rightarrow> writer \<Rightarrow> writer option" where
  "put_ip_padded a w =
     do {
       w \<leftarrow> (if is_ipv4 a then put_data (replicate IPV4_6_SIZE_DIFF 0) w else Some w);
       put_ip a w
     }"

subsection \<open>Reader\<close>

definition drain :: "nat \<Rightarrow> bytes \<Rightarrow> bytes" where
  "drain n r = drop (min n (length r)) r"

definition get_u8 :: "bytes \<Rightarrow> (u8 \<times> bytes) option" where
  "get_u8 r = (if length r < 1 then None else Some (hd r, drop 1 r))"

definition get_u16 :: "bytes \<Rightarrow> (u16 \<times> bytes) option" where
  "get_u16 r = (if length r < 2 then None else Some (word_of_nat (be_nat (take 2 r)), drop 2 r))"

definition get_u32 :: "bytes \<Rightarrow> (u32 \<times> bytes) option" where
  "get_u32 r = (if length r < 4 then None else Some (word_of_nat (be_nat (take 4 r)), drop 4 r))"

definition get_ip :: "address_family \<Rightarrow> bytes \<Rightarrow> (socket_address \<times> bytes) option" where
  "get_ip family r =
     (let n = (if family = AF_INET then IPV4_ADDR_SIZE else IPV6_ADDR_SIZE)
      in if length r < n then None else Some (SocketAddress (take n r) 0, drop n r))"

definition in6addr_loopback :: bytes where
  "in6addr_loopback = replicate 15 0 @ [1]"

definition get_ip_padded :: "bytes \<Rightarrow> (socket_address \<times> bytes) option" where
  "get_ip_padded r =
     (if length r < PADDED_IP_SIZE then None
      else if list_all (\<lambda>b. b = 0) (take IPV4_6_SIZE_DIFF r) \<and> take IPV6_ADDR_SIZE r \<noteq> in6addr_loopback
      then get_ip AF_INET (drop IPV4_6_SIZE_DIFF r)
      else get_ip AF_INET6 r)"

definition get_bytes :: "nat \<Rightarrow> bytes \<Rightarrow> (bytes \<times> bytes) option" where
  "get_bytes n r = (if length r < n then None else Some (take n r, drop n r))"

subsection \<open>Lemmas\<close>

text \<open>A writer that has written \<open>p\<close> and has \<open>q\<close> left.\<close>

lemma put_data_ok:
  "length d \<le> length q \<Longrightarrow>
     put_data d (Writer (p @ q) (length p)) = Some (Writer (p @ d @ drop (length d) q) (length p + length d))"
  by (simp add: put_data_def Let_def)

lemma put_data_next:
  assumes "length d \<le> length q" and "n = length p"
  shows "put_data d (Writer (p @ q) n) = Some (Writer ((p @ d) @ drop (length d) q) (length (p @ d)))"
  using assms put_data_ok [of d q p] by simp

definition padded :: "socket_address \<Rightarrow> bytes" where
  "padded a = (if is_ipv4 a then replicate 12 0 else []) @ sa_addr a"

lemma length_padded: "sa_valid a \<Longrightarrow> length (padded a) = 16"
  by (auto simp: padded_def sa_valid_def sa_family_def is_ipv4_def is_ipv6_def split: if_splits)

lemma put_ip_padded_next:
  assumes "length (padded a) \<le> length q" and "n = length p"
  shows "put_ip_padded a (Writer (p @ q) n) =
    Some (Writer ((p @ padded a) @ drop (length (padded a)) q) (length (p @ padded a)))"
proof (cases "is_ipv4 a")
  case True
  then have l: "length (sa_addr a) = 4" "16 \<le> length q"
    using assms by (simp_all add: padded_def is_ipv4_def)
  with True put_data_next [of "sa_addr a" "drop 12 q" _ "p @ replicate 12 0"] assms(2) show ?thesis
    by (simp add: put_ip_padded_def put_ip_def padded_def put_data_next del: append_assoc)
next
  case False
  then show ?thesis using assms put_data_next [of "sa_addr a" q n p]
    by (simp add: put_ip_padded_def put_ip_def padded_def)
qed

lemmas put_next = put_u8_def put_u16_def put_u32_def put_data_next put_ip_padded_next

text \<open>A writer whose rest is still zero.\<close>

lemma put_data_fill:
  "n = length p \<Longrightarrow> put_data d (Writer (p @ replicate (length d + k) 0) n) =
     Some (Writer ((p @ d) @ replicate k 0) (length (p @ d)))"
  using put_data_next [of d "replicate (length d + k) 0" n p] by simp

lemma put_ip_padded_fill:
  "n = length p \<Longrightarrow> length (padded a) = 16 \<Longrightarrow> put_ip_padded a (Writer (p @ replicate (16 + k) 0) n) =
     Some (Writer ((p @ padded a) @ replicate k 0) (length (p @ padded a)))"
  using put_ip_padded_next [of a "replicate (16 + k) 0" n p] by simp

lemma get_u8_Cons [simp]: "get_u8 (b # r) = Some (b, r)"
  by (simp add: get_u8_def)

lemma get_u16_be [simp]: "get_u16 (u16_be v @ r) = Some (v, r)"
  by (simp add: get_u16_def)

lemma get_u32_be [simp]: "get_u32 (u32_be v @ r) = Some (v, r)"
  by (simp add: get_u32_def)

lemma get_bytes_append [simp]: "length d = n \<Longrightarrow> get_bytes n (d @ r) = Some (d, r)"
  by (simp add: get_bytes_def)

text \<open>What the reader makes of a padded address.\<close>

definition unpadded :: "socket_address \<Rightarrow> bytes" where
  "unpadded a =
     (if sa_addr a = [0, 0, 0, 1] then in6addr_loopback
      else if is_ipv6 a \<and> list_all (\<lambda>b. b = 0) (take 12 (sa_addr a)) \<and> sa_addr a \<noteq> in6addr_loopback
      then drop 12 (sa_addr a) else sa_addr a)"

lemma list_all_zero_replicate: "list_all (\<lambda>b. b = (0::u8)) (replicate n 0)"
  by (simp add: list_all_iff)

lemma get_ip_padded_padded:
  assumes "sa_valid a"
  shows "get_ip_padded (padded a @ r) = Some (SocketAddress (unpadded a) 0, r)"
proof (cases "is_ipv4 a")
  case True
  then have "length (sa_addr a) = 4" by (simp add: is_ipv4_def)
  moreover have "replicate 12 0 @ sa_addr a = in6addr_loopback \<longleftrightarrow> sa_addr a = [0, 0, 0, 1]"
  proof -
    have "in6addr_loopback = replicate 12 0 @ [0, 0, 0, 1]"
      by (simp add: in6addr_loopback_def numeral_eq_Suc)
    then show ?thesis by (metis same_append_eq)
  qed
  ultimately show ?thesis using True
    by (auto simp: get_ip_padded_def get_ip_def padded_def unpadded_def is_ipv6_def list_all_zero_replicate)
next
  case False
  with assms have "length (sa_addr a) = 16" "is_ipv6 a"
    by (auto simp: sa_valid_def sa_family_def is_ipv6_def split: if_splits)
  with False show ?thesis
    by (auto simp: get_ip_padded_def get_ip_def padded_def unpadded_def)
qed

lemma unpadded_same:
  "sa_valid a \<Longrightarrow> unpadded a = sa_addr a \<longleftrightarrow>
     sa_addr a \<noteq> [0, 0, 0, 1] \<and>
     (is_ipv6 a \<and> list_all (\<lambda>b. b = 0) (take 12 (sa_addr a)) \<longrightarrow> sa_addr a = in6addr_loopback)"
proof -
  have "length in6addr_loopback \<noteq> length [0, 0, 0, 1 :: u8]" by (simp add: in6addr_loopback_def)
  then have "in6addr_loopback \<noteq> [0, 0, 0, 1]" by metis
  moreover have "drop 12 (sa_addr a) \<noteq> sa_addr a" if "is_ipv6 a"
  proof
    assume "drop 12 (sa_addr a) = sa_addr a"
    then have "length (drop 12 (sa_addr a)) = length (sa_addr a)" by simp
    with that show False by (simp add: is_ipv6_def)
  qed
  ultimately show ?thesis by (auto simp: unpadded_def)
qed

text \<open>
  (C30) An address written in its padded form is read back unchanged, without its port, exactly unless it is the IPv4
  address 0.0.0.1, which is read as the IPv6 loopback address, or an IPv6 address with 12 leading zero bytes other
  than the loopback address, which is read as the IPv4 address in its last four bytes; the reader is left behind the
  16 bytes in every case.
\<close>

theorem ip_padded_roundtrip:
  assumes "sa_valid a" and "16 \<le> length buffer"
  shows "\<exists>w addr. put_ip_padded a (Writer buffer 0) = Some w \<and>
    get_ip_padded (wr_buffer w) = Some (SocketAddress addr 0, drop 16 buffer) \<and>
    (addr = sa_addr a \<longleftrightarrow> sa_addr a \<noteq> [0, 0, 0, 1] \<and>
       (is_ipv6 a \<and> list_all (\<lambda>b. b = 0) (take 12 (sa_addr a)) \<longrightarrow> sa_addr a = in6addr_loopback)) \<and>
    (sa_addr a = [0, 0, 0, 1] \<longrightarrow> addr = in6addr_loopback) \<and>
    (is_ipv6 a \<and> addr \<noteq> sa_addr a \<longrightarrow> addr = drop 12 (sa_addr a))"
proof -
  have "put_ip_padded a (Writer buffer 0) = Some (Writer (padded a @ drop 16 buffer) 16)"
    using put_ip_padded_next [of a buffer 0 "[]"] assms by (simp add: length_padded)
  moreover have "is_ipv6 a \<Longrightarrow> sa_addr a \<noteq> [0, 0, 0, 1]" by (auto simp: is_ipv6_def)
  moreover have "is_ipv6 a \<and> unpadded a \<noteq> sa_addr a \<longrightarrow> unpadded a = drop 12 (sa_addr a)"
    by (auto simp: unpadded_def is_ipv6_def)
  ultimately show ?thesis
    using assms(1) get_ip_padded_padded [of a "drop 16 buffer"] unpadded_same [OF assms(1)]
    by (auto simp: unpadded_def)
qed

theorem ip_padded_roundtrip_witness:
  "sa_valid (SocketAddress [10, 0, 0, 1] 53) \<and> (16::nat) \<le> length (replicate 16 (0::u8)) \<and>
   (\<exists>w addr. put_ip_padded (SocketAddress [10, 0, 0, 1] 53) (Writer (replicate 16 0) 0) = Some w \<and>
      get_ip_padded (wr_buffer w) = Some (SocketAddress addr 0, []) \<and> addr = [10, 0, 0, 1])"
proof -
  have "sa_valid (SocketAddress [10, 0, 0, 1] 53)"
    by (simp add: sa_valid_def sa_family_def is_ipv4_def)
  moreover have "\<not> is_ipv6 (SocketAddress [10, 0, 0, 1] 53)" by (simp add: is_ipv6_def)
  ultimately show ?thesis
    using ip_padded_roundtrip [of "SocketAddress [10, 0, 0, 1] 53" "replicate 16 0"] by auto
qed

end
