(* ===== verification/Endpoint_Net.thy ===== *)
theory Endpoint_Net
  imports Wire_Utils
begin

section \<open>Network helpers of the endpoint (\<^verbatim>\<open>lib/src/net_utils.rs\<close>)\<close>

text \<open>
  The functions of \<^verbatim>\<open>net_utils.rs\<close> that compute on bytes: addresses in 16 bytes, the skipping of
  IP headers, the Internet checksum, the classification of addresses that the forwarders consult before they
  connect, lengths of HTTP/3 frames and the scrubbing of server names. An \<^verbatim>\<open>IpAddr\<close> is its octets.
  \<open>None\<close> is a panic (of \<^verbatim>\<open>Buf\<close>, or \<^verbatim>\<open>unreachable!\<close>); where the source returns an
  option, the inner one is that of the source. A \<^verbatim>\<open>usize\<close> is a natural number.
\<close>

unbundle bit_operations_syntax

subsection \<open>Addresses on the wire\<close>

definition get_fixed_size_ip :: "bytes \<Rightarrow> (bytes \<times> bytes) option" where
  "get_fixed_size_ip bs =
     (if length bs < 16 then None
      else
        let ip = take 16 bs
        in Some (if list_all (\<lambda>x. x = 0) (take 12 ip) then drop 12 ip else ip, drop 16 bs))"

definition put_fixed_size_ip :: "bytes \<Rightarrow> bytes" where
  "put_fixed_size_ip ip = (if length ip = 4 then replicate 12 0 @ ip else ip)"

text \<open>Addresses whose padded form tells the two families apart.\<close>

definition ip_unambiguous :: "socket_address \<Rightarrow> bool" where
  "ip_unambiguous a \<longleftrightarrow> sa_valid a \<and> \<not> (is_ipv6 a \<and> list_all (\<lambda>b. b = 0) (take 12 (sa_addr a)))"

lemma get_fixed_size_ip_padded: "ip_unambiguous a \<Longrightarrow> get_fixed_size_ip (padded a @ r) = Some (sa_addr a, r)"
  using length_padded [of a]
  by (auto simp: ip_unambiguous_def get_fixed_size_ip_def padded_def is_ipv4_def is_ipv6_def sa_valid_def
      sa_family_def list_all_zero_replicate split: if_splits)

lemma put_fixed_size_ip_padded: "put_fixed_size_ip (sa_addr a) = padded a"
  by (simp add: put_fixed_size_ip_def padded_def is_ipv4_def)

subsection \<open>Varints and data frames\<close>

text \<open>\<open>None\<close> is the \<^verbatim>\<open>unreachable!()\<close>.\<close>

definition varint_len :: "nat \<Rightarrow> nat option" where
  "varint_len x =
     (if x \<le> 63 then Some 1
      else if x \<le> 16383 then Some 2
      else if x \<le> 1073741823 then Some 4
      else if x \<le> 4611686018427387903 then Some 8
      else None)"

definition HTTP3_DATA_FRAME_TYPE_WIRE_LENGTH :: nat where
  "HTTP3_DATA_FRAME_TYPE_WIRE_LENGTH = 1"

definition http3_data_frame_overhead :: "nat \<Rightarrow> nat option" where
  "http3_data_frame_overhead payload_size =
     map_option ((+) HTTP3_DATA_FRAME_TYPE_WIRE_LENGTH) (varint_len payload_size)"

subsection \<open>IP headers\<close>

definition MIN_IPV4_HEADER_SIZE :: nat where "MIN_IPV4_HEADER_SIZE = 20"
definition MIN_IPV6_HEADER_SIZE :: nat where "MIN_IPV6_HEADER_SIZE = 40"

lemmas ip_header_sizes = MIN_IPV4_HEADER_SIZE_def MIN_IPV6_HEADER_SIZE_def

text \<open>\<^verbatim>\<open>Buf::advance\<close>, which panics past the end.\<close>

definition advance :: "nat \<Rightarrow> bytes \<Rightarrow> bytes option" where
  "advance n p = (if n \<le> length p then Some (drop n p) else None)"

definition skip_ipv4_header :: "bytes \<Rightarrow> (nat \<times> bytes) option option" where
  "skip_ipv4_header p =
     (if length p < MIN_IPV4_HEADER_SIZE then Some None
      else do {
        (x, p) \<leftarrow> get_u8 p;
        let header_length = unat ((x AND 0x0F) * 4);
        if header_length < 20 \<or> header_length > length p + 1 then Some None
        else do {
          p \<leftarrow> advance (1 + 2 + 2 + 2 + 1) p;
          (next_protocol, p) \<leftarrow> get_u8 p;
          p \<leftarrow> advance (2 + 4 + 4 + (header_length - MIN_IPV4_HEADER_SIZE)) p;
          Some (Some (unat next_protocol, p))
        }
      })"

definition IPPROTO_HOPOPTS :: nat where "IPPROTO_HOPOPTS = 0"
definition IPPROTO_ICMP :: nat where "IPPROTO_ICMP = 1"
definition IPPROTO_ROUTING :: nat where "IPPROTO_ROUTING = 43"
definition IPPROTO_FRAGMENT :: nat where "IPPROTO_FRAGMENT = 44"
definition IPPROTO_ICMPV6 :: nat where "IPPROTO_ICMPV6 = 58"
definition IPPROTO_DSTOPTS :: nat where "IPPROTO_DSTOPTS = 60"

lemmas ip_protocols = IPPROTO_HOPOPTS_def IPPROTO_ICMP_def IPPROTO_ROUTING_def IPPROTO_FRAGMENT_def
  IPPROTO_ICMPV6_def IPPROTO_DSTOPTS_def

function skip_extensions :: "nat \<Rightarrow> bytes \<Rightarrow> (nat \<times> bytes) option option" where
  "skip_extensions next_protocol p =
     (if next_protocol = IPPROTO_HOPOPTS \<or> next_protocol = IPPROTO_ROUTING \<or> next_protocol = IPPROTO_DSTOPTS then
        if length p < 2 then Some None
        else
          let next_protocol = unat (p ! 0); header_ext_length = unat (p ! 1)
          in (case advance header_ext_length (drop 2 p) of
                None \<Rightarrow> None
              | Some p \<Rightarrow> skip_extensions next_protocol p)
      else if next_protocol = IPPROTO_FRAGMENT then
        if length p < 8 then Some None else skip_extensions (unat (p ! 0)) (drop 8 p)
      else Some (Some (next_protocol, p)))"
  by pat_completeness auto

termination
  by (relation "measure (\<lambda>(_, p). length p)") (auto simp: advance_def split: if_splits)

declare skip_extensions.simps [simp del]

definition skip_ipv6_header :: "bytes \<Rightarrow> (nat \<times> bytes) option option" where
  "skip_ipv6_header p =
     (if length p < MIN_IPV6_HEADER_SIZE then Some None
      else do {
        p \<leftarrow> advance (4 + 2) p;
        (next_protocol, p) \<leftarrow> get_u8 p;
        p \<leftarrow> advance (1 + 16 + 16) p;
        skip_extensions (unat next_protocol) p
      })"

subsection \<open>Checksum\<close>

function checksum_loop :: "bytes \<Rightarrow> nat \<Rightarrow> u32 \<Rightarrow> u32" where
  "checksum_loop bs i acc =
     (if i < length bs then
        let acc = acc + push_bit 8 (ucast (bs ! i));
            acc = (if even (length bs) \<or> i + 1 < length bs - 1 then acc + ucast (bs ! (i + 1)) else acc)
        in checksum_loop bs (i + 2) acc
      else acc)"
  by pat_completeness auto

termination
  by (relation "measure (\<lambda>(bs, i, _). length bs - i)") auto

declare checksum_loop.simps [simp del]

definition rfc1071_checksum :: "bytes \<Rightarrow> u16" where
  "rfc1071_checksum bs =
     (let acc = checksum_loop bs 0 0
      in ucast (NOT (drop_bit 16 acc + acc)))"

subsection \<open>Global addresses\<close>

text \<open>An \<^verbatim>\<open>Ipv4Addr\<close> is its 4 octets, an \<^verbatim>\<open>Ipv6Addr\<close> its 16 octets.\<close>

definition ipv4_is_private :: "bytes \<Rightarrow> bool" where
  "ipv4_is_private ip \<longleftrightarrow> ip ! 0 = 10 \<or> (ip ! 0 = 172 \<and> 16 \<le> ip ! 1 \<and> ip ! 1 \<le> 31) \<or> (ip ! 0 = 192 \<and> ip ! 1 = 168)"

definition ipv4_is_loopback :: "bytes \<Rightarrow> bool" where
  "ipv4_is_loopback ip \<longleftrightarrow> ip ! 0 = 127"

definition ipv4_is_link_local :: "bytes \<Rightarrow> bool" where
  "ipv4_is_link_local ip \<longleftrightarrow> ip ! 0 = 169 \<and> ip ! 1 = 254"

definition ipv4_is_broadcast :: "bytes \<Rightarrow> bool" where
  "ipv4_is_broadcast ip \<longleftrightarrow> ip = [255, 255, 255, 255]"

definition ipv4_is_documentation :: "bytes \<Rightarrow> bool" where
  "ipv4_is_documentation ip \<longleftrightarrow> take 3 ip \<in> {[192, 0, 2], [198, 51, 100], [203, 0, 113]}"

definition is_global_ipv4 :: "bytes \<Rightarrow> bool" where
  "is_global_ipv4 octets \<longleftrightarrow>
     (if be_nat octets = 0xC0000009 \<or> be_nat octets = 0xC000000A then True
      else \<not> ipv4_is_private octets \<and> \<not> ipv4_is_loopback octets \<and> \<not> ipv4_is_link_local octets \<and>
        \<not> ipv4_is_broadcast octets \<and> \<not> ipv4_is_documentation octets \<and>
        \<not> (octets ! 0 = 100 \<and> octets ! 1 AND 0xC0 = 0x40) \<and>
        \<not> (octets ! 0 = 192 \<and> octets ! 1 = 0 \<and> octets ! 2 = 0) \<and>
        \<not> (octets ! 0 AND 240 = 240 \<and> \<not> ipv4_is_broadcast octets) \<and>
        \<not> (octets ! 0 = 198 \<and> octets ! 1 AND 0xFE = 18) \<and>
        octets ! 0 \<noteq> 0)"

definition segment :: "bytes \<Rightarrow> nat \<Rightarrow> u16" where
  "segment ip i = word_of_nat (be_nat (take 2 (drop (2 * i) ip)))"

definition ipv6_is_multicast :: "bytes \<Rightarrow> bool" where
  "ipv6_is_multicast ip \<longleftrightarrow> segment ip 0 AND 0xFF00 = 0xFF00"

definition ipv6_is_loopback :: "bytes \<Rightarrow> bool" where
  "ipv6_is_loopback ip \<longleftrightarrow> ip = in6addr_loopback"

definition ipv6_is_unspecified :: "bytes \<Rightarrow> bool" where
  "ipv6_is_unspecified ip \<longleftrightarrow> ip = replicate 16 0"

definition is_unicast_global_ipv6 :: "bytes \<Rightarrow> bool" where
  "is_unicast_global_ipv6 ip \<longleftrightarrow>
     \<not> (ipv6_is_multicast ip \<or> ipv6_is_loopback ip \<or> segment ip 0 AND 0xFFC0 = 0xFE80 \<or>
        segment ip 0 AND 0xFE00 = 0xFC00 \<or> ipv6_is_unspecified ip \<or>
        (segment ip 0 = 0x2001 \<and> segment ip 1 = 0xDB8))"

definition is_global_ipv6 :: "bytes \<Rightarrow> bool" where
  "is_global_ipv6 ip \<longleftrightarrow>
     (if ipv6_is_multicast ip then segment ip 0 AND 0x000F = 0x0E else is_unicast_global_ipv6 ip)"

definition extract_ipv4_from_ipv6 :: "bytes \<Rightarrow> bytes option" where
  "extract_ipv4_from_ipv6 ip =
     (let seg = segment ip;
          is_mapped = (seg 0 = 0 \<and> seg 1 = 0 \<and> seg 2 = 0 \<and> seg 3 = 0 \<and> seg 4 = 0 \<and> seg 5 = 0xFFFF);
          is_compat = (seg 0 = 0 \<and> seg 1 = 0 \<and> seg 2 = 0 \<and> seg 3 = 0 \<and> seg 4 = 0 \<and> seg 5 = 0 \<and>
            (seg 6 \<noteq> 0 \<or> seg 7 > 1))
      in if is_mapped \<or> is_compat
         then Some [ucast (drop_bit 8 (seg 6)), ucast (seg 6), ucast (drop_bit 8 (seg 7)), ucast (seg 7)]
         else None)"

definition unmap_ipv6 :: "bytes \<Rightarrow> bytes" where
  "unmap_ipv6 ip =
     (if length ip = 16 then case extract_ipv4_from_ipv6 ip of None \<Rightarrow> ip | Some v4 \<Rightarrow> v4 else ip)"

definition is_global_ip :: "bytes \<Rightarrow> bool" where
  "is_global_ip ip \<longleftrightarrow>
     (if length ip = 4 then is_global_ipv4 ip
      else case extract_ipv4_from_ipv6 ip of Some v4 \<Rightarrow> is_global_ipv4 v4 | None \<Rightarrow> is_global_ipv6 ip)"

subsection \<open>Server names in logs\<close>

definition SCRUBBED_PLACEHOLDER :: string where
  "SCRUBBED_PLACEHOLDER = ''__stripped__''"

definition scrub_sni :: "string \<Rightarrow> string" where
  "scrub_sni sni =
     (if CHR ''.'' \<in> set sni then SCRUBBED_PLACEHOLDER @ dropWhile (\<lambda>c. c \<noteq> CHR ''.'') sni else sni)"

end
