(* ===== verification/Utf8.thy ===== *)
theory Utf8
  imports TT_Prelude
begin

section \<open>UTF-8 (\<^verbatim>\<open>std::str::from_utf8\<close>)\<close>

text \<open>Which byte strings are the contents of a Rust \<^verbatim>\<open>String\<close>.\<close>

definition utf8_cont :: "u8 \<Rightarrow> bool" where
  "utf8_cont b \<longleftrightarrow> 0x80 \<le> b \<and> b \<le> 0xBF"

text \<open>The second byte of a three or four byte sequence, as the Unicode standard restricts it.\<close>

definition utf8_second :: "u8 \<Rightarrow> u8 \<Rightarrow> bool" where
  "utf8_second b c \<longleftrightarrow>
     (if b = 0xE0 then 0xA0 \<le> c \<and> c \<le> 0xBF
      else if b = 0xED then 0x80 \<le> c \<and> c \<le> 0x9F
      else if b = 0xF0 then 0x90 \<le> c \<and> c \<le> 0xBF
      else if b = 0xF4 then 0x80 \<le> c \<and> c \<le> 0x8F
      else utf8_cont c)"

function valid_utf8 :: "bytes \<Rightarrow> bool" where
  "valid_utf8 [] = True"
| "valid_utf8 (b # bs) =
     (if b < 0x80 then valid_utf8 bs
      else if 0xC2 \<le> b \<and> b \<le> 0xDF then 1 \<le> length bs \<and> utf8_cont (bs ! 0) \<and> valid_utf8 (drop 1 bs)
      else if 0xE0 \<le> b \<and> b \<le> 0xEF then
        2 \<le> length bs \<and> utf8_second b (bs ! 0) \<and> utf8_cont (bs ! 1) \<and> valid_utf8 (drop 2 bs)
      else if 0xF0 \<le> b \<and> b \<le> 0xF4 then
        3 \<le> length bs \<and> utf8_second b (bs ! 0) \<and> utf8_cont (bs ! 1) \<and> utf8_cont (bs ! 2) \<and>
        valid_utf8 (drop 3 bs)
      else False)"
  by pat_completeness auto

termination
  by (relation "measure length") auto

end
