(* ===== verification/Udp_Codec.thy ===== *)
theory Udp_Codec
  imports Endpoint_Net Utf8
begin

section \<open>UDP codec of the endpoint (\<^verbatim>\<open>lib/src/http_udp_codec.rs\<close>)\<close>

text \<open>
  The endpoint's half of the UDP tunnel: the decoder of the packets the client puts on the stream, fed
  chunk by chunk, and the encoder of the packets for the client. A Rust \<^verbatim>\<open>String\<close> is its
  UTF-8 bytes, an \<^verbatim>\<open>IpAddr\<close> its octets, a \<^verbatim>\<open>usize\<close> a natural number (all lengths
  here are below \<open>2 ^ 33\<close>). \<open>None\<close> is a panic: a failed \<^verbatim>\<open>assert!\<close>, a subtraction below
  zero, a read past the end of a buffer, \<^verbatim>\<open>unwrap\<close> of \<^verbatim>\<open>None\<close>.
\<close>

subsection \<open>State\<close>

definition SERVER_MAX_UDP_PAYLOAD_SIZE :: nat where
  "SERVER_MAX_UDP_PAYLOAD_SIZE = 2 ^ 16 - 20 - 8"

definition UDPPKT_IN_FIXED_HEADER_NO_LENGTH_SIZE :: nat where
  "UDPPKT_IN_FIXED_HEADER_NO_LENGTH_SIZE = 2 * (16 + 2) + 1"

definition UDPPKT_OUT_FIXED_HEADER_NO_LENGTH_SIZE :: nat where
  "UDPPKT_OUT_FIXED_HEADER_NO_LENGTH_SIZE = 2 * (16 + 2)"

definition MAX_UDP_IN_PAYLOAD_SIZE :: nat where
  "MAX_UDP_IN_PAYLOAD_SIZE = SERVER_MAX_UDP_PAYLOAD_SIZE - UDPPKT_IN_FIXED_HEADER_NO_LENGTH_SIZE"

lemmas udp_codec_sizes =
  SERVER_MAX_UDP_PAYLOAD_SIZE_def UDPPKT_IN_FIXED_HEADER_NO_LENGTH_SIZE_def
  UDPPKT_OUT_FIXED_HEADER_NO_LENGTH_SIZE_def MAX_UDP_IN_PAYLOAD_SIZE_def

datatype recv_state = Length | FixedHeader | AppName nat | Payload nat | Dropping nat

record udp_decoder =
  ud_state :: recv_state
  ud_total_length :: nat
  ud_buffer :: bytes
  ud_source :: "socket_address option"
  ud_destination :: "socket_address option"
  ud_app_name :: "bytes option"

record udp_datagram =
  dg_source :: socket_address
  dg_destination :: socket_address
  dg_app_name :: "bytes option"
  dg_payload :: bytes

definition new_decoder :: udp_decoder where
  "new_decoder = \<lparr>ud_state = Length, ud_total_length = 0, ud_buffer = [], ud_source = None,
     ud_destination = None, ud_app_name = None\<rparr>"

subsection \<open>Decoder\<close>

definition buffered_read :: "bytes \<Rightarrow> nat \<Rightarrow> udp_decoder \<Rightarrow> ((bytes \<times> bytes) option \<times> udp_decoder) option" where
  "buffered_read input cap d =
     (if \<not> (length (ud_buffer d) < cap \<or> cap = 0) then None
      else if cap < length (ud_buffer d) then None
      else
        let to_drain = min (length input) (cap - length (ud_buffer d));
            buffer = ud_buffer d @ take to_drain input;
            input = drop to_drain input
        in if length buffer < cap
           then (if input \<noteq> [] then None else Some (None, d\<lparr>ud_buffer := buffer\<rparr>))
           else Some (Some (buffer, input), d\<lparr>ud_buffer := []\<rparr>))"

definition process_client_length :: "bytes \<Rightarrow> udp_decoder \<Rightarrow> (bytes \<times> udp_decoder) option" where
  "process_client_length data d =
     do {
       (r, d) \<leftarrow> buffered_read data 4 d;
       case r of
         None \<Rightarrow> Some ([], d)
       | Some (raw_length, tail) \<Rightarrow>
           do {
             (n, _) \<leftarrow> get_u32 raw_length;
             let total = unat n;
             Some (tail, d\<lparr>ud_total_length := total,
               ud_state := (if total \<ge> UDPPKT_IN_FIXED_HEADER_NO_LENGTH_SIZE then FixedHeader
                            else Dropping total)\<rparr>)
           }
     }"

definition process_client_fixed_header :: "bytes \<Rightarrow> udp_decoder \<Rightarrow> (bytes \<times> udp_decoder) option" where
  "process_client_fixed_header data d =
     do {
       (r, d) \<leftarrow> buffered_read data UDPPKT_IN_FIXED_HEADER_NO_LENGTH_SIZE d;
       case r of
         None \<Rightarrow> Some ([], d)
       | Some (header, tail) \<Rightarrow>
           do {
             (src_ip, header) \<leftarrow> get_fixed_size_ip header;
             (src_port, header) \<leftarrow> get_u16 header;
             (dst_ip, header) \<leftarrow> get_fixed_size_ip header;
             (dst_port, header) \<leftarrow> get_u16 header;
             (app, header) \<leftarrow> get_u8 header;
             let app_name_length = unat app;
             if ud_total_length d < UDPPKT_IN_FIXED_HEADER_NO_LENGTH_SIZE then None
             else Some (tail, d\<lparr>
               ud_source := Some (SocketAddress src_ip src_port),
               ud_destination := Some (SocketAddress dst_ip dst_port),
               ud_state :=
                 (if ud_total_length d > MAX_UDP_IN_PAYLOAD_SIZE - app_name_length
                  then Dropping (ud_total_length d - UDPPKT_IN_FIXED_HEADER_NO_LENGTH_SIZE)
                  else if ud_total_length d \<ge> UDPPKT_IN_FIXED_HEADER_NO_LENGTH_SIZE + app_name_length
                  then AppName app_name_length
                  else Dropping (ud_total_length d - UDPPKT_IN_FIXED_HEADER_NO_LENGTH_SIZE))\<rparr>)
           }
     }"

definition process_client_app_name :: "nat \<Rightarrow> bytes \<Rightarrow> udp_decoder \<Rightarrow> (bytes \<times> udp_decoder) option" where
  "process_client_app_name len data d =
     do {
       (r, d) \<leftarrow> buffered_read data len d;
       case r of
         None \<Rightarrow> Some ([], d)
       | Some (name, tail) \<Rightarrow>
           if ud_total_length d < UDPPKT_IN_FIXED_HEADER_NO_LENGTH_SIZE + len then None
           else
             let payload_length = ud_total_length d - UDPPKT_IN_FIXED_HEADER_NO_LENGTH_SIZE - len
             in Some (tail,
                  (if valid_utf8 name
                   then d\<lparr>ud_app_name := Some name, ud_state := Payload payload_length\<rparr>
                   else d\<lparr>ud_state := Dropping payload_length\<rparr>))
     }"

definition process_client_payload ::
  "nat \<Rightarrow> bytes \<Rightarrow> udp_decoder \<Rightarrow> ((udp_datagram option \<times> bytes) \<times> udp_decoder) option" where
  "process_client_payload len data d =
     do {
       (r, data, d) \<leftarrow>
         (if ud_buffer d = [] \<and> length data \<ge> len then Some (Some (take len data), drop len data, d)
          else if len < length (ud_buffer d) then None
          else
            let to_drain = min (length data) (len - length (ud_buffer d));
                buffer = ud_buffer d @ take to_drain data;
                data = drop to_drain data
            in if length buffer < len then Some (None, data, d\<lparr>ud_buffer := buffer\<rparr>)
               else Some (Some buffer, data, d\<lparr>ud_buffer := []\<rparr>));
       case r of
         None \<Rightarrow> Some ((None, data), d)
       | Some to_send \<Rightarrow>
           do {
             source \<leftarrow> ud_source d;
             destination \<leftarrow> ud_destination d;
             Some ((Some \<lparr>dg_source = source, dg_destination = destination,
                          dg_app_name = ud_app_name d, dg_payload = to_send\<rparr>, data),
                   d\<lparr>ud_state := Length, ud_app_name := None\<rparr>)
           }
     }"

text \<open>The last case returns what \<^verbatim>\<open>data.split_to(to_drop)\<close> returns: the dropped bytes.\<close>

definition decode_chunk_once ::
  "bytes \<Rightarrow> udp_decoder \<Rightarrow> ((udp_datagram option \<times> bytes) \<times> udp_decoder) option" where
  "decode_chunk_once data d =
     (case ud_state d of
        Length \<Rightarrow> map_option (\<lambda>(tail, d). ((None, tail), d)) (process_client_length data d)
      | FixedHeader \<Rightarrow> map_option (\<lambda>(tail, d). ((None, tail), d)) (process_client_fixed_header data d)
      | AppName len \<Rightarrow> map_option (\<lambda>(tail, d). ((None, tail), d)) (process_client_app_name len data d)
      | Payload len \<Rightarrow> process_client_payload len data d
      | Dropping remaining \<Rightarrow>
          let to_drop = min remaining (length data)
          in Some ((None, take to_drop data),
                   d\<lparr>ud_state := (if remaining \<le> to_drop then Length else Dropping (remaining - to_drop))\<rparr>))"

text \<open>
  The loop ends: a step takes bytes, or it counts the dropped bytes down, or it goes from an empty
  application name to the payload.
\<close>

definition decoder_rank :: "udp_decoder \<Rightarrow> nat" where
  "decoder_rank d = (case ud_state d of AppName _ \<Rightarrow> 1 | Dropping n \<Rightarrow> n + 2 | _ \<Rightarrow> 0)"

lemma buffered_read_progress:
  assumes "buffered_read data cap d = Some (r, d')" and "data \<noteq> []"
  shows "(case r of None \<Rightarrow> True | Some (b, tail) \<Rightarrow> length b = cap \<and>
            (if cap = 0 then length tail = length data else length tail < length data)) \<and>
         ud_state d' = ud_state d \<and> ud_total_length d' = ud_total_length d"
  using assms by (auto simp: buffered_read_def Let_def split: if_splits)

lemma process_header_progress:
  assumes "process_client_length data d = Some (tail, d') \<or> process_client_fixed_header data d = Some (tail, d')"
    and "data \<noteq> []"
  shows "length tail < length data"
  using assms buffered_read_progress [of data _ d]
  by (auto simp: process_client_length_def process_client_fixed_header_def udp_codec_sizes Let_def
      dest!: buffered_read_progress split: option.splits bind_splits if_splits)

lemma process_app_name_progress:
  assumes "process_client_app_name n data d = Some (tail, d')" and "data \<noteq> []"
  shows "length tail < length data \<or> (length tail = length data \<and> decoder_rank d' = 0)"
  using assms
  by (auto simp: process_client_app_name_def Let_def decoder_rank_def
      dest!: buffered_read_progress split: option.splits bind_splits if_splits)

lemma process_payload_progress:
  assumes "process_client_payload n data d = Some ((None, tail), d')" and "data \<noteq> []"
  shows "length tail < length data"
  using assms
  by (auto simp: process_client_payload_def Let_def split: option.splits bind_splits if_splits)

lemma decode_chunk_once_progress:
  assumes "decode_chunk_once data d = Some ((None, tail), d')" and "data \<noteq> []"
  shows "length tail < length data \<or> (length tail = length data \<and> decoder_rank d' < decoder_rank d)"
proof (cases "ud_state d")
  case (AppName n)
  then show ?thesis using assms process_app_name_progress [of n data d tail d']
    by (auto simp: decode_chunk_once_def decoder_rank_def)
qed (use assms process_header_progress [of data d tail d'] process_payload_progress [of _ data d tail d'] in
  \<open>auto simp: decode_chunk_once_def decoder_rank_def Let_def\<close>)

function decode_chunk :: "bytes \<Rightarrow> udp_decoder \<Rightarrow> (udp_datagram decode_result \<times> udp_decoder) option" where
  "decode_chunk data d =
     (if data = [] then Some (WantMore, d)
      else
        case decode_chunk_once data d of
          None \<Rightarrow> None
        | Some ((Some g, tail), d) \<Rightarrow> Some (Complete g tail, d)
        | Some ((None, tail), d) \<Rightarrow> decode_chunk tail d)"
  by pat_completeness auto

termination
  by (relation "(\<lambda>(data, d). length data) <*mlex*> measure (\<lambda>(data, d). decoder_rank d)")
    (auto simp: wf_mlex mlex_prod_def dest!: decode_chunk_once_progress)

declare decode_chunk.simps [simp del]

subsection \<open>Encoder\<close>

definition encode_packet :: "udp_datagram \<Rightarrow> bytes option" where
  "encode_packet g =
     (let total_length = UDPPKT_OUT_FIXED_HEADER_NO_LENGTH_SIZE + length (dg_payload g)
      in Some (u32_be (word_of_nat total_length) @
               put_fixed_size_ip (sa_addr (dg_source g)) @ u16_be (sa_port (dg_source g)) @
               put_fixed_size_ip (sa_addr (dg_destination g)) @ u16_be (sa_port (dg_destination g)) @
               dg_payload g))"

subsection \<open>The decoder does not depend on the chunks\<close>

text \<open>Three of the four states collect a number of bytes and then act on them.\<close>

definition collect :: "nat \<Rightarrow> (bytes \<Rightarrow> udp_decoder \<Rightarrow> udp_decoder option) \<Rightarrow> bytes \<Rightarrow> udp_decoder
    \<Rightarrow> (bytes \<times> udp_decoder) option" where
  "collect cap k data d =
     (case buffered_read data cap d of
        None \<Rightarrow> None
      | Some (None, d) \<Rightarrow> Some ([], d)
      | Some (Some (b, tail), d) \<Rightarrow> map_option (Pair tail) (k b d))"

lemma buffered_read_eq:
  "buffered_read input cap d =
     (let n = cap - length (ud_buffer d)
      in if (n = 0 \<and> cap \<noteq> 0) \<or> cap < length (ud_buffer d) then None
         else if length input < n then Some (None, d\<lparr>ud_buffer := ud_buffer d @ input\<rparr>)
         else Some (Some (ud_buffer d @ take n input, drop n input), d\<lparr>ud_buffer := []\<rparr>))"
proof (cases "length input < cap - length (ud_buffer d)")
  case True
  then show ?thesis by (auto simp: buffered_read_def Let_def)
next
  case False
  then have "min (length input) (cap - length (ud_buffer d)) = cap - length (ud_buffer d)" by simp
  with False show ?thesis by (simp add: buffered_read_def Let_def)
qed

lemma buffered_read_again:
  "buffered_read data cap d = Some (Some (b, tail), t) \<Longrightarrow> buffered_read b cap t = Some (Some (b, []), t)"
  by (auto simp: buffered_read_eq Let_def split: if_splits)

lemma process_client_length_collect:
  "process_client_length = collect 4 (\<lambda>b d. map_option snd (process_client_length b d))"
  by (auto simp: fun_eq_iff process_client_length_def collect_def buffered_read_again Let_def split: option.splits bind_splits)

lemma process_client_fixed_header_collect:
  "process_client_fixed_header =
     collect UDPPKT_IN_FIXED_HEADER_NO_LENGTH_SIZE (\<lambda>b d. map_option snd (process_client_fixed_header b d))"
  by (auto simp: fun_eq_iff process_client_fixed_header_def collect_def buffered_read_again Let_def
      split: option.splits bind_splits)

lemma process_client_app_name_collect:
  "process_client_app_name len = collect len (\<lambda>b d. map_option snd (process_client_app_name len b d))"
  by (auto simp: fun_eq_iff process_client_app_name_def collect_def buffered_read_again Let_def
      split: option.splits bind_splits)

lemma buffered_read_more:
  "buffered_read xs cap d = Some (Some (b, tail), t) \<Longrightarrow>
     buffered_read (xs @ ys) cap d = Some (Some (b, tail @ ys), t)"
  by (auto simp: buffered_read_eq Let_def split: if_splits)

lemma buffered_read_wait:
  "buffered_read xs cap d = Some (None, t) \<Longrightarrow>
     buffered_read (xs @ ys) cap d = buffered_read ys cap t \<and> ud_state t = ud_state d"
  by (auto simp: buffered_read_eq Let_def split: if_splits)

lemma buffered_read_total: "buffered_read (xs @ ys) cap d \<noteq> None \<Longrightarrow> buffered_read xs cap d \<noteq> None"
  by (auto simp: buffered_read_eq Let_def split: if_splits)

lemma collect_cases:
  assumes "collect cap k xs d = Some (tail, t)"
  obtains (wait) "buffered_read xs cap d = Some (None, t)" "tail = []"
  | (full) b u where "buffered_read xs cap d = Some (Some (b, tail), u)" "k b u = Some t"
  using assms by (auto simp: collect_def split: option.splits)

lemma collect_more: "collect cap k xs d = Some (tail, t) \<Longrightarrow> tail \<noteq> [] \<Longrightarrow> collect cap k (xs @ ys) d = Some (tail @ ys, t)"
  by (erule collect_cases) (simp_all add: collect_def buffered_read_more)

lemma collect_end:
  "collect cap k xs d = Some ([], t) \<Longrightarrow>
     collect cap k (xs @ ys) d = Some (ys, t) \<or>
     (collect cap k (xs @ ys) d = collect cap k ys t \<and> ud_state t = ud_state d)"
  by (erule collect_cases) (simp_all add: collect_def buffered_read_more buffered_read_wait)

lemma collect_total: "collect cap k (xs @ ys) d \<noteq> None \<Longrightarrow> collect cap k xs d \<noteq> None"
  using buffered_read_total [of xs ys cap d] buffered_read_more [of xs cap d _ _ _ ys]
  by (cases "buffered_read xs cap d") (auto simp: collect_def split: option.splits)

definition udp_step :: "bytes \<Rightarrow> udp_decoder \<Rightarrow> (udp_datagram list \<times> bytes \<times> udp_decoder) option" where
  "udp_step data d =
     (case ud_state d of
        Dropping _ \<Rightarrow> None
      | _ \<Rightarrow> map_option (\<lambda>((g, tail), t). (case g of None \<Rightarrow> [] | Some x \<Rightarrow> [x], tail, t)) (decode_chunk_once data d))"

text \<open>The payload state collects as well; it hands a payload that is complete in the chunk on without copying it.\<close>

lemma process_client_payload_eq:
  "process_client_payload len data d =
     (if len < length (ud_buffer d) then None
      else if length data < len - length (ud_buffer d)
      then Some ((None, []), d\<lparr>ud_buffer := ud_buffer d @ data\<rparr>)
      else
        do {
          source \<leftarrow> ud_source d;
          destination \<leftarrow> ud_destination d;
          Some ((Some \<lparr>dg_source = source, dg_destination = destination, dg_app_name = ud_app_name d,
                   dg_payload = ud_buffer d @ take (len - length (ud_buffer d)) data\<rparr>,
                 drop (len - length (ud_buffer d)) data),
                d\<lparr>ud_buffer := [], ud_state := Length, ud_app_name := None\<rparr>)
        })"
proof (cases "length data < len - length (ud_buffer d)")
  case True
  then show ?thesis by (auto simp: process_client_payload_def Let_def)
next
  case False
  then have "min (length data) (len - length (ud_buffer d)) = len - length (ud_buffer d)" by simp
  with False show ?thesis
    by (cases d; cases "ud_buffer d = []") (auto simp: process_client_payload_def Let_def)
qed

lemma payload_more:
  "process_client_payload len xs d = Some ((g, tail), t) \<Longrightarrow> tail \<noteq> [] \<Longrightarrow>
     process_client_payload len (xs @ ys) d = Some ((g, tail @ ys), t)"
  by (auto simp: process_client_payload_eq split: if_splits bind_splits)

lemma payload_end:
  "process_client_payload len xs d = Some ((g, []), t) \<Longrightarrow> xs \<noteq> [] \<Longrightarrow>
     process_client_payload len (xs @ ys) d = Some ((g, ys), t) \<or>
     (g = None \<and> process_client_payload len (xs @ ys) d = process_client_payload len ys t \<and> ud_state t = ud_state d)"
  by (auto simp: process_client_payload_eq split: if_splits bind_splits)

lemma payload_total:
  "process_client_payload len (xs @ ys) d \<noteq> None \<Longrightarrow> process_client_payload len xs d \<noteq> None"
  by (auto simp: process_client_payload_eq split: if_splits bind_splits)

lemma udp_step_cases:
  "udp_step data d =
     (case ud_state d of
        Dropping _ \<Rightarrow> None
      | Payload len \<Rightarrow>
          map_option (\<lambda>((g, tail), t). (case g of None \<Rightarrow> [] | Some x \<Rightarrow> [x], tail, t)) (process_client_payload len data d)
      | Length \<Rightarrow> map_option (Pair []) (process_client_length data d)
      | FixedHeader \<Rightarrow> map_option (Pair []) (process_client_fixed_header data d)
      | AppName len \<Rightarrow> map_option (Pair []) (process_client_app_name len data d))"
  by (auto simp: udp_step_def decode_chunk_once_def option.map_comp comp_def case_prod_unfold split: recv_state.splits)

lemma collect_decoder:
  assumes "\<And>data t. ud_state t = ud_state d \<Longrightarrow> udp_step data t = map_option (Pair []) (collect cap k data t)"
  shows "udp_step xs d = Some (out, tail, t) \<Longrightarrow> tail \<noteq> [] \<Longrightarrow> udp_step (xs @ ys) d = Some (out, tail @ ys, t)"
    and "udp_step xs d = Some (out, [], t) \<Longrightarrow>
      udp_step (xs @ ys) d = Some (out, ys, t) \<or> (out = [] \<and> udp_step (xs @ ys) d = udp_step ys t)"
    and "udp_step (xs @ ys) d \<noteq> None \<Longrightarrow> udp_step xs d \<noteq> None"
proof -
  note step = assms [OF refl] assms
  show "udp_step (xs @ ys) d = Some (out, tail @ ys, t)" if "udp_step xs d = Some (out, tail, t)" "tail \<noteq> []"
    using that collect_more [of cap k xs d tail t ys] by (auto simp: step)
  show "udp_step (xs @ ys) d = Some (out, ys, t) \<or> (out = [] \<and> udp_step (xs @ ys) d = udp_step ys t)"
    if "udp_step xs d = Some (out, [], t)"
    using that collect_end [of cap k xs d t ys] by (auto simp: step)
  show "udp_step xs d \<noteq> None" if "udp_step (xs @ ys) d \<noteq> None"
    using that collect_total [of cap k xs ys d] by (auto simp: step)
qed

lemma payload_decoder:
  assumes "ud_state d = Payload len"
  shows "udp_step xs d = Some (out, tail, t) \<Longrightarrow> tail \<noteq> [] \<Longrightarrow> udp_step (xs @ ys) d = Some (out, tail @ ys, t)"
    and "udp_step xs d = Some (out, [], t) \<Longrightarrow> xs \<noteq> [] \<Longrightarrow>
      udp_step (xs @ ys) d = Some (out, ys, t) \<or> (out = [] \<and> udp_step (xs @ ys) d = udp_step ys t)"
    and "udp_step (xs @ ys) d \<noteq> None \<Longrightarrow> udp_step xs d \<noteq> None"
proof -
  show "udp_step (xs @ ys) d = Some (out, tail @ ys, t)" if "udp_step xs d = Some (out, tail, t)" "tail \<noteq> []"
    using that assms payload_more [of len xs d _ tail t ys] by (auto simp: udp_step_cases)
  show "udp_step (xs @ ys) d = Some (out, ys, t) \<or> (out = [] \<and> udp_step (xs @ ys) d = udp_step ys t)"
    if "udp_step xs d = Some (out, [], t)" "xs \<noteq> []"
  proof -
    from that assms obtain g where g: "process_client_payload len xs d = Some ((g, []), t)"
        "out = (case g of None \<Rightarrow> [] | Some x \<Rightarrow> [x])"
      by (auto simp: udp_step_cases)
    from payload_end [OF g(1) that(2), of ys] show ?thesis
      using assms g(2) by (auto simp: udp_step_cases)
  qed
  show "udp_step xs d \<noteq> None" if "udp_step (xs @ ys) d \<noteq> None"
    using that assms payload_total [of len xs ys d] by (auto simp: udp_step_cases)
qed

lemma udp_step_state:
  "(\<exists>cap k. \<forall>data t. ud_state t = ud_state d \<longrightarrow> udp_step data t = map_option (Pair []) (collect cap k data t)) \<or>
   (\<exists>len. ud_state d = Payload len) \<or> (\<forall>data. udp_step data d = None)"
proof -
  obtain k where k: "process_client_length = collect 4 k"
    using process_client_length_collect by blast
  obtain l where l: "process_client_fixed_header = collect UDPPKT_IN_FIXED_HEADER_NO_LENGTH_SIZE l"
    using process_client_fixed_header_collect by blast
  have "\<forall>len. \<exists>k. process_client_app_name len = collect len k"
    using process_client_app_name_collect by blast
  then obtain j where j: "process_client_app_name len = collect len (j len)" for len
    by metis
  show ?thesis
    by (cases "ud_state d") (auto simp: udp_step_cases k l j)
qed

lemma udp_step_once:
  assumes "udp_step xs s = Some (out, tail, t)"
  obtains g where "decode_chunk_once xs s = Some ((g, tail), t)" "out = (case g of None \<Rightarrow> [] | Some x \<Rightarrow> [x])"
  using assms unfolding udp_step_def by (cases "ud_state s") auto

interpretation udp_uplink: datagram_decoder udp_step decode_chunk "\<lambda>_. True"
proof unfold_locales
  fix xs ys tail :: bytes and s t :: udp_decoder and out
  show "udp_step (xs @ ys) s = Some (out, tail @ ys, t)"
    if "udp_step xs s = Some (out, tail, t)" "xs \<noteq> []" "tail \<noteq> []"
    using udp_step_state [of s] that collect_decoder(1) [of s _ _ xs out tail t ys] payload_decoder(1) [of s _ xs out tail t ys]
    by fastforce
  show "udp_step (xs @ ys) s = Some (out, ys, t) \<or> (out = [] \<and> udp_step (xs @ ys) s = udp_step ys t)"
    if "udp_step xs s = Some (out, [], t)" "xs \<noteq> []" "ys \<noteq> []"
    using udp_step_state [of s] that collect_decoder(2) [of s _ _ xs out t ys] payload_decoder(2) [of s _ xs out t ys]
    by fastforce
  show "udp_step xs s \<noteq> None" if "udp_step (xs @ ys) s \<noteq> None" "xs \<noteq> []"
    using udp_step_state [of s] that collect_decoder(3) [of s _ _ xs ys] payload_decoder(3) [of s _ xs ys]
    by fastforce
  show True by (rule TrueI)
  show "decode_chunk [] s = Some (WantMore, s)" by (simp add: decode_chunk.simps)
  show "decode_chunk xs s = decode_chunk tail t" if "udp_step xs s = Some ([], tail, t)" "xs \<noteq> []"
    using that(1)
  proof (rule udp_step_once)
    fix g
    assume "decode_chunk_once xs s = Some ((g, tail), t)" and "[] = (case g of None \<Rightarrow> [] | Some x \<Rightarrow> [x])"
    with that(2) show ?thesis by (cases g) (simp_all add: decode_chunk.simps [of xs s])
  qed
  show "gs = [] \<and> decode_chunk xs s = Some (Complete g tail, t)"
    if "udp_step xs s = Some (g # gs, tail, t)" "xs \<noteq> []" for g gs
    using that(1)
  proof (rule udp_step_once)
    fix h
    assume "decode_chunk_once xs s = Some ((h, tail), t)" and "g # gs = (case h of None \<Rightarrow> [] | Some x \<Rightarrow> [x])"
    with that(2) show ?thesis by (cases h) (simp_all add: decode_chunk.simps [of xs s])
  qed
qed

subsection \<open>One packet\<close>

text \<open>
  The packet format of the uplink as the file's header comment describes it, and the addresses that
  16 bytes identify: not an IPv6 address with 12 leading zero bytes.
\<close>

definition uplink_packet :: "udp_datagram \<Rightarrow> bytes" where
  "uplink_packet g =
     (let app = (case dg_app_name g of None \<Rightarrow> [] | Some a \<Rightarrow> a)
      in u32_be (word_of_nat (37 + length app + length (dg_payload g))) @
         padded (dg_source g) @ u16_be (sa_port (dg_source g)) @
         padded (dg_destination g) @ u16_be (sa_port (dg_destination g)) @
         [word_of_nat (length app)] @ app @ dg_payload g)"

definition uplink_ok :: "udp_datagram \<Rightarrow> bool" where
  "uplink_ok g \<longleftrightarrow> ip_unambiguous (dg_source g) \<and> ip_unambiguous (dg_destination g) \<and> dg_payload g \<noteq> [] \<and>
     (\<exists>a. dg_app_name g = Some a \<and> valid_utf8 a \<and> length a \<le> 255 \<and> 37 + 2 * length a + length (dg_payload g) \<le> 65471)"

lemma collect_whole:
  "ud_buffer d = [] \<Longrightarrow> length b = cap \<Longrightarrow> buffered_read (b @ tail) cap d = Some (Some (b, tail), d)"
  by (cases d) (auto simp: buffered_read_eq Let_def)

definition between_packets :: "udp_decoder \<Rightarrow> bool" where
  "between_packets d \<longleftrightarrow> ud_state d = Length \<and> ud_buffer d = []"

lemma feeds_packet:
  assumes d: "between_packets d" and ok: "uplink_ok g"
  shows "\<exists>t. udp_uplink.feeds d (uplink_packet g) [g] t \<and> between_packets t"
proof -
  from ok obtain a where a: "dg_app_name g = Some a" "valid_utf8 a" "length a \<le> 255"
      "37 + 2 * length a + length (dg_payload g) \<le> 65471"
    and ip: "ip_unambiguous (dg_source g)" "ip_unambiguous (dg_destination g)" and payload: "dg_payload g \<noteq> []"
    by (auto simp: uplink_ok_def)
  let ?n = "37 + length a + length (dg_payload g)"
  let ?head = "padded (dg_source g) @ u16_be (sa_port (dg_source g)) @
         padded (dg_destination g) @ u16_be (sa_port (dg_destination g)) @ [word_of_nat (length a)]"
  have n: "unat (word_of_nat ?n :: u32) = ?n" by (rule unat_u32) (use a in simp)
  have la: "unat (word_of_nat (length a) :: u8) = length a" using a by (simp add: unat_of_nat)
  have lens: "length ?head = 37" using ip by (simp add: length_padded ip_unambiguous_def)
  define d1 where "d1 = d\<lparr>ud_total_length := ?n, ud_state := FixedHeader\<rparr>"
  define d2 where "d2 = d1\<lparr>ud_source := Some (dg_source g), ud_destination := Some (dg_destination g),
    ud_state := AppName (length a)\<rparr>"
  define d3 where "d3 = d2\<lparr>ud_app_name := Some a, ud_state := Payload (length (dg_payload g))\<rparr>"
  define d4 where "d4 = d3\<lparr>ud_state := Length, ud_app_name := None\<rparr>"
  have b: "ud_buffer d = []" "ud_buffer d1 = []" "ud_buffer d2 = []" "ud_buffer d3 = []"
    using d by (simp_all add: between_packets_def d1_def d2_def d3_def)
  have s1: "udp_step (uplink_packet g) d = Some ([], ?head @ a @ dg_payload g, d1)"
    using d n collect_whole [OF b(1), of "u32_be (word_of_nat ?n)" 4]
    by (simp add: udp_step_cases process_client_length_def uplink_packet_def a(1) between_packets_def
        get_u32_be [of _ "[]", simplified] udp_codec_sizes d1_def Let_def)
  have s2: "udp_step (?head @ a @ dg_payload g) d1 = Some ([], a @ dg_payload g, d2)"
  proof -
    have "buffered_read (?head @ a @ dg_payload g) 37 d1 = Some (Some (?head, a @ dg_payload g), d1)"
      by (rule collect_whole [OF b(2) lens])
    moreover have "ud_state d1 = FixedHeader" "ud_total_length d1 = ?n" by (simp_all add: d1_def)
    ultimately show ?thesis using ip a la
      by (simp add: udp_step_cases process_client_fixed_header_def udp_codec_sizes get_fixed_size_ip_padded
          get_u16_be d2_def Let_def)
  qed
  have s3: "udp_step (a @ dg_payload g) d2 = Some ([], dg_payload g, d3)"
    using collect_whole [OF b(3), of a "length a" "dg_payload g"] a(2)
    by (simp add: udp_step_cases process_client_app_name_def udp_codec_sizes d1_def d2_def d3_def)
  have s4: "udp_step (dg_payload g) d3 = Some ([g], [], d4)"
    using b(4) a(1) by (simp add: udp_step_cases process_client_payload_def d1_def d2_def d3_def d4_def)
  have "udp_uplink.feeds d (uplink_packet g) ([] @ [] @ [] @ [g] @ []) d4"
    using s1 s2 s3 s4 payload
    by (intro udp_uplink.feeds_step [OF s1] udp_uplink.feeds_step [OF s2] udp_uplink.feeds_step [OF s3]
        udp_uplink.feeds_step [OF s4] udp_uplink.feeds_end) (auto simp: uplink_packet_def Let_def)
  moreover have "between_packets d4" using b by (simp add: between_packets_def d4_def)
  ultimately show ?thesis by auto
qed

lemma udp_feeds_packets:
  assumes "list_all uplink_ok gs" and "between_packets d"
  shows "\<exists>t. udp_uplink.feeds d (concat (map uplink_packet gs)) gs t \<and> between_packets t"
  using assms
proof (induction gs arbitrary: d)
  case (Cons g gs)
  from feeds_packet [OF Cons.prems(2), of g] Cons.prems obtain t
    where t: "udp_uplink.feeds d (uplink_packet g) [g] t" "between_packets t" by auto
  from Cons.IH [OF _ t(2)] Cons.prems obtain u
    where "udp_uplink.feeds t (concat (map uplink_packet gs)) gs u" "between_packets u" by auto
  with udp_uplink.feeds_append [OF t(1)] show ?case by fastforce
qed (auto intro: udp_uplink.feeds_end)

lemma decoder_reads_packets:
  assumes "list_all uplink_ok gs" and "concat chunks = concat (map uplink_packet gs)"
  shows "\<exists>r. read_n decode_chunk (length gs) [] chunks new_decoder = Some (gs, r)"
proof -
  obtain t where "udp_uplink.feeds new_decoder (concat (map uplink_packet gs)) gs t"
    using udp_feeds_packets [OF assms(1), of new_decoder] by (auto simp: between_packets_def new_decoder_def)
  with assms(2) have "udp_uplink.feeds_chunks new_decoder ([] @ chunks) gs t"
    by (simp add: udp_uplink.feeds_chunks_concat)
  from udp_uplink.read_n_feeds [OF this] show ?thesis by simp
qed

text \<open>Bytes that are to be dropped are decoded, and the bytes behind them are lost.\<close>

lemma dropping_loses_rest:
  assumes "ud_state d = Dropping (length junk)"
  shows "junk @ rest \<noteq> [] \<Longrightarrow> decode_chunk (junk @ rest) d = decode_chunk junk (d\<lparr>ud_state := Length\<rparr>)"
  using assms by (subst decode_chunk.simps) (auto simp: decode_chunk_once_def Let_def)

end
