(* ===== verification/Udp_Mux.thy ===== *)
theory Udp_Mux
  imports Wire_Utils Vpn_Utils
begin

section \<open>UDP multiplexer of the client (\<^verbatim>\<open>core/src/http_udp_multiplexer.{h,cpp}\<close>)\<close>

text \<open>
  The client's half of the UDP tunnel: all UDP connections share one HTTP stream. Events for the
  upstream's handler and calls of the three callbacks are appended to \<open>um_out\<close>; the results of the
  callbacks and the clock (nanoseconds) are arguments. The two \<^verbatim>\<open>std::unordered_map\<close>s are
  association lists. A task handle of a connection is the flag that its task is outstanding: the task
  is an operation of its own, which the event loop runs while the flag is set. The handler of
  \<^verbatim>\<open>SERVER_EVENT_READ\<close>, which is called in the middle of the receive loop, is an argument and
  may call back into the multiplexer. A failed assertion sets the ghost flag \<open>um_asserted\<close>; the ghost
  \<open>um_accepted\<close> lists the connections ever accepted.
\<close>

subsection \<open>State\<close>

definition UDPPKT_LENGTH_SIZE :: nat where "UDPPKT_LENGTH_SIZE = 4"
definition UDPPKT_ADDR_SIZE :: nat where "UDPPKT_ADDR_SIZE = 16"
definition UDPPKT_PORT_SIZE :: nat where "UDPPKT_PORT_SIZE = 2"
definition UDPPKT_IN_PREFIX_SIZE :: nat where
  "UDPPKT_IN_PREFIX_SIZE = UDPPKT_LENGTH_SIZE + 2 * (UDPPKT_ADDR_SIZE + UDPPKT_PORT_SIZE)"
definition UDPPKT_APPLEN_SIZE :: nat where "UDPPKT_APPLEN_SIZE = 1"
definition MAX_UDP_PAYLOAD_SIZE :: nat where "MAX_UDP_PAYLOAD_SIZE = 65535 - 8"
definition MAX_UDP_IN_PACKET_LENGTH :: nat where
  "MAX_UDP_IN_PACKET_LENGTH = MAX_UDP_PAYLOAD_SIZE + UDPPKT_IN_PREFIX_SIZE - UDPPKT_LENGTH_SIZE"

lemmas udp_mux_sizes [simp] =
  UDPPKT_LENGTH_SIZE_def UDPPKT_ADDR_SIZE_def UDPPKT_PORT_SIZE_def UDPPKT_IN_PREFIX_SIZE_def
  UDPPKT_APPLEN_SIZE_def MAX_UDP_PAYLOAD_SIZE_def MAX_UDP_IN_PACKET_LENGTH_def

definition VPN_DEFAULT_UDP_TIMEOUT_MS :: int where
  "VPN_DEFAULT_UDP_TIMEOUT_MS = 5 * 60 * 1000"

datatype multiplexer_state = MS_IDLE | MS_ESTABLISHED

datatype recv_connection_state = RCS_IDLE | RCS_PAYLOAD | RCS_DROPPING

record udp_connection =
  uc_read_enabled :: bool
  uc_addr :: tunnel_address_pair
  uc_app_name :: bytes
  uc_sent_bytes_since_flush :: nat
  uc_timeout :: int
  uc_open_task :: bool
  uc_close_task :: bool

record recv_connection =
  rc_state :: recv_connection_state
  rc_id :: u64
  rc_bytes_left :: nat
  rc_buffer :: bytes

definition recv_connection_init :: recv_connection where
  "recv_connection_init = \<lparr>rc_state = RCS_IDLE, rc_id = NON_ID, rc_bytes_left = 0, rc_buffer = []\<rparr>"

datatype udp_effect =
    SERVER_EVENT_CONNECTION_OPENED u64
  | SERVER_EVENT_CONNECTION_CLOSED u64
  | SERVER_EVENT_ERROR u64 vpn_error
  | SERVER_EVENT_READ u64 bytes
  | SERVER_EVENT_DATA_SENT u64 nat
  | SendConnectRequest name_port
  | SendData u64 bytes
  | ConsumeData u64 nat

record udp_mux =
  um_state :: multiplexer_state
  um_stream_id :: u64
  um_recv_connection :: recv_connection
  um_addr_to_id :: "(tunnel_address_pair \<times> u64) list"
  um_connections :: "(u64 \<times> udp_connection) list"
  um_timer_event :: bool
  um_pending_error :: "vpn_error option"
  um_out :: "udp_effect list"
  um_asserted :: bool
  um_accepted :: "u64 list"

definition new_udp_mux :: udp_mux where
  "new_udp_mux = \<lparr>um_state = MS_IDLE, um_stream_id = 0, um_recv_connection = recv_connection_init,
     um_addr_to_id = [], um_connections = [], um_timer_event = False, um_pending_error = None,
     um_out = [], um_asserted = False, um_accepted = []\<rparr>"

definition mux_emit :: "udp_effect \<Rightarrow> udp_mux \<Rightarrow> udp_mux" where
  "mux_emit e m = m\<lparr>um_out := um_out m @ [e]\<rparr>"

definition mux_assert :: "bool \<Rightarrow> udp_mux \<Rightarrow> udp_mux" where
  "mux_assert b m = (if b then m else m\<lparr>um_asserted := True\<rparr>)"

definition set_connection :: "u64 \<Rightarrow> udp_connection \<Rightarrow> udp_mux \<Rightarrow> udp_mux" where
  "set_connection i c m = m\<lparr>um_connections := AList.update i c (um_connections m)\<rparr>"

subsection \<open>Outgoing packets\<close>

text \<open>The buffer has room for the whole application name although at most 255 bytes of it are written.\<close>

definition compose_udp_packet :: "socket_address \<Rightarrow> socket_address \<Rightarrow> bytes \<Rightarrow> bytes \<Rightarrow> bytes option" where
  "compose_udp_packet src dst app_name data =
     (let full_length = UDPPKT_IN_PREFIX_SIZE + UDPPKT_APPLEN_SIZE + length app_name + length data
      in do {
        w \<leftarrow> put_u32 (word_of_nat (full_length - UDPPKT_LENGTH_SIZE)) (Writer (replicate full_length 0) 0);
        w \<leftarrow> put_ip_padded src w;
        w \<leftarrow> put_u16 (sa_port src) w;
        w \<leftarrow> put_ip_padded dst w;
        w \<leftarrow> put_u16 (sa_port dst) w;
        let app_name = take 255 app_name;
        w \<leftarrow> put_u8 (word_of_nat (length app_name)) w;
        w \<leftarrow> put_data app_name w;
        w \<leftarrow> put_data data w;
        Some (wr_buffer w)
      })"

subsection \<open>Connections\<close>

definition clean_connection_data :: "u64 \<Rightarrow> udp_mux \<Rightarrow> bool \<times> udp_mux" where
  "clean_connection_data i m =
     (case map_of (um_connections m) i of
        None \<Rightarrow> (False, m)
      | Some c \<Rightarrow>
          let m = (if rc_id (um_recv_connection m) = i
                   then m\<lparr>um_recv_connection := (um_recv_connection m)\<lparr>rc_state := RCS_DROPPING\<rparr>\<rparr> else m)
          in (True, m\<lparr>um_addr_to_id := AList.delete (uc_addr c) (um_addr_to_id m),
                      um_connections := AList.delete i (um_connections m)\<rparr>))"

definition mux_reset :: "udp_mux \<Rightarrow> udp_mux" where
  "mux_reset m = m\<lparr>um_state := MS_IDLE, um_stream_id := 0, um_addr_to_id := [],
     um_recv_connection := recv_connection_init, um_timer_event := False\<rparr>"

fun close_each :: "vpn_error option \<Rightarrow> u64 list \<Rightarrow> udp_mux \<Rightarrow> udp_mux" where
  "close_each error [] m = m"
| "close_each error (i # is) m =
     close_each error is
       (snd (clean_connection_data i
          (mux_emit (case error of Some e \<Rightarrow> SERVER_EVENT_ERROR i e | None \<Rightarrow> SERVER_EVENT_CONNECTION_CLOSED i) m)))"

definition mux_close :: "vpn_error \<Rightarrow> udp_mux \<Rightarrow> udp_mux" where
  "mux_close serv_err m =
     (let error = (case um_pending_error m of
                     Some e \<Rightarrow> Some e
                   | None \<Rightarrow> if err_code serv_err \<noteq> 0 then Some serv_err else None)
      in mux_reset (close_each error (map fst (um_connections m)) m))"

definition complete_udp_connection :: "u64 \<Rightarrow> udp_mux \<Rightarrow> udp_mux" where
  "complete_udp_connection i m =
     (if um_state m = MS_ESTABLISHED then
        case map_of (um_connections m) i of
          None \<Rightarrow> m
        | Some c \<Rightarrow>
            let m = set_connection i (c\<lparr>uc_open_task := False\<rparr>) m
            in mux_emit (SERVER_EVENT_CONNECTION_OPENED i)
                 (m\<lparr>um_addr_to_id := AList.update (uc_addr c) i (um_addr_to_id m)\<rparr>)
      else m)"

definition open_connection ::
  "u64 option \<Rightarrow> int \<Rightarrow> u64 \<Rightarrow> tunnel_address_pair \<Rightarrow> bytes \<Rightarrow> udp_mux \<Rightarrow> bool \<times> udp_mux" where
  "open_connection stream now conn_id addr app_name m =
     (if (case tap_dst addr of SockDst _ \<Rightarrow> False | NameDst _ \<Rightarrow> True) then (False, mux_assert False m)
      else if map_of (um_connections m) conn_id \<noteq> None then (False, mux_assert False m)
      else
        let (ok, m) =
              (case um_state m of
                 MS_IDLE \<Rightarrow>
                   let m = mux_emit (SendConnectRequest (NamePort ''_udp2'' 0)) (mux_assert (um_stream_id m = 0) m)
                   in (case stream of
                         None \<Rightarrow> (False, m)
                       | Some i \<Rightarrow> (True, m\<lparr>um_stream_id := i, um_state := MS_ESTABLISHED\<rparr>))
               | MS_ESTABLISHED \<Rightarrow> (True, m))
        in if \<not> ok then (False, m)
           else (True, m\<lparr>um_connections := um_connections m @
                   [(conn_id, \<lparr>uc_read_enabled = False, uc_addr = addr, uc_app_name = app_name,
                      uc_sent_bytes_since_flush = 0,
                      uc_timeout = now + 1000000 * VPN_DEFAULT_UDP_TIMEOUT_MS,
                      uc_open_task = True, uc_close_task = False\<rparr>)],
                 um_timer_event := True, um_accepted := um_accepted m @ [conn_id]\<rparr>))"

definition close_connection :: "u64 \<Rightarrow> udp_mux \<Rightarrow> udp_mux" where
  "close_connection i m =
     (let (found, m) = clean_connection_data i m
      in if found then mux_emit (SERVER_EVENT_CONNECTION_CLOSED i) m else m)"

definition close_connection_async :: "u64 \<Rightarrow> bool \<Rightarrow> udp_mux \<Rightarrow> udp_mux" where
  "close_connection_async i async m =
     (if \<not> async then close_connection i m
      else
        case map_of (um_connections m) i of
          None \<Rightarrow> mux_emit (SERVER_EVENT_CONNECTION_CLOSED i) m
        | Some c \<Rightarrow> set_connection i (c\<lparr>uc_close_task := True\<rparr>) m)"

definition check_connection :: "u64 \<Rightarrow> udp_mux \<Rightarrow> bool" where
  "check_connection i m \<longleftrightarrow> map_of (um_connections m) i \<noteq> None"

definition mux_send :: "int \<Rightarrow> int \<Rightarrow> u64 \<Rightarrow> bytes \<Rightarrow> udp_mux \<Rightarrow> int \<times> udp_mux" where
  "mux_send r now i data m =
     (let m = mux_assert (um_state m = MS_ESTABLISHED) m
      in case map_of (um_connections m) i of
           None \<Rightarrow> (-1, m)
         | Some c \<Rightarrow>
             (case tap_dst (uc_addr c) of
                NameDst _ \<Rightarrow> (-1, mux_assert False m)
              | SockDst dst \<Rightarrow>
                  (case compose_udp_packet (tap_src (uc_addr c)) dst (uc_app_name c) data of
                     None \<Rightarrow> (-1, mux_assert False m)
                   | Some packet \<Rightarrow>
                       let m = mux_emit (SendData (um_stream_id m) packet) m
                       in if r = 0
                          then (int (length data),
                                set_connection i (c\<lparr>uc_timeout := now + 1000000 * VPN_DEFAULT_UDP_TIMEOUT_MS,
                                  uc_sent_bytes_since_flush := uc_sent_bytes_since_flush c + length data\<rparr>) m)
                          else (-1, m))))"

subsection \<open>Incoming packets\<close>

text \<open>The connection (\<^verbatim>\<open>NON_ID\<close> in case of an error) and the length of the payload.\<close>

definition read_prefix :: "bytes \<Rightarrow> udp_mux \<Rightarrow> (u64 \<times> nat) option" where
  "read_prefix data m =
     do {
       (n, r) \<leftarrow> get_u32 data;
       if unat n < UDPPKT_IN_PREFIX_SIZE - UDPPKT_LENGTH_SIZE then Some (NON_ID, 0)
       else do {
         (src, r) \<leftarrow> get_ip_padded r;
         (src_port, r) \<leftarrow> get_u16 r;
         (dst, r) \<leftarrow> get_ip_padded r;
         (dst_port, r) \<leftarrow> get_u16 r;
         if unat n > MAX_UDP_IN_PACKET_LENGTH then Some (NON_ID, 0)
         else
           Some (case map_of (um_addr_to_id m)
                        (TunnelAddressPair (set_port dst_port dst) (SockDst (set_port src_port src))) of
                   Some i \<Rightarrow> i | None \<Rightarrow> NON_ID,
                 unat n - (UDPPKT_IN_PREFIX_SIZE - UDPPKT_LENGTH_SIZE))
       }
     }"

definition recv_idle :: "bytes \<Rightarrow> udp_mux \<Rightarrow> bytes \<times> udp_mux" where
  "recv_idle data m =
     (let rc = um_recv_connection m
      in if length (rc_buffer rc) \<ge> UDPPKT_IN_PREFIX_SIZE then ([], mux_assert False m)
         else
           let to_read = min (UDPPKT_IN_PREFIX_SIZE - length (rc_buffer rc)) (length data);
               buffer = rc_buffer rc @ take to_read data
           in if length buffer < UDPPKT_IN_PREFIX_SIZE
              then (drop to_read data, m\<lparr>um_recv_connection := rc\<lparr>rc_buffer := buffer\<rparr>\<rparr>)
              else
                case read_prefix buffer m of
                  None \<Rightarrow> ([], mux_assert False m)
                | Some (i, payload_length) \<Rightarrow>
                    let drop_packet = (i = NON_ID \<or>
                          (case map_of (um_connections m) i of None \<Rightarrow> True | Some c \<Rightarrow> \<not> uc_read_enabled c));
                        rc = (if drop_packet then rc\<lparr>rc_state := RCS_DROPPING\<rparr>
                              else rc\<lparr>rc_state := RCS_PAYLOAD, rc_id := i\<rparr>)
                    in (drop to_read data,
                        m\<lparr>um_recv_connection := rc\<lparr>rc_bytes_left := payload_length, rc_buffer := []\<rparr>\<rparr>))"

type_synonym read_handler = "u64 \<Rightarrow> bytes \<Rightarrow> udp_mux \<Rightarrow> udp_mux"

definition recv_payload :: "read_handler \<Rightarrow> int \<Rightarrow> bytes \<Rightarrow> udp_mux \<Rightarrow> bytes \<times> udp_mux" where
  "recv_payload handler now data m =
     (let rc = um_recv_connection m
      in case map_of (um_connections m) (rc_id rc) of
           None \<Rightarrow> ([], mux_assert False m)
         | Some c \<Rightarrow>
             let m = set_connection (rc_id rc) (c\<lparr>uc_timeout := now + 1000000 * VPN_DEFAULT_UDP_TIMEOUT_MS\<rparr>) m;
                 to_read = min (rc_bytes_left rc) (length data);
                 rc = rc\<lparr>rc_buffer := rc_buffer rc @ take to_read data, rc_bytes_left := rc_bytes_left rc - to_read\<rparr>;
                 m = m\<lparr>um_recv_connection := rc\<rparr>
             in (drop to_read data,
                 (if rc_bytes_left rc = 0
                  then (handler (rc_id rc) (rc_buffer rc) (mux_emit (SERVER_EVENT_READ (rc_id rc) (rc_buffer rc)) m))
                         \<lparr>um_recv_connection := recv_connection_init\<rparr>
                  else m)))"

definition recv_dropping :: "bytes \<Rightarrow> udp_mux \<Rightarrow> bytes \<times> udp_mux" where
  "recv_dropping data m =
     (let rc = um_recv_connection m;
          to_drop = min (rc_bytes_left rc) (length data);
          rc = rc\<lparr>rc_bytes_left := rc_bytes_left rc - to_drop\<rparr>
      in (drop to_drop data,
          m\<lparr>um_recv_connection := (if rc_bytes_left rc = 0 then recv_connection_init else rc)\<rparr>))"

definition recv_once :: "read_handler \<Rightarrow> int \<Rightarrow> bytes \<Rightarrow> udp_mux \<Rightarrow> bytes \<times> udp_mux" where
  "recv_once handler now data m =
     (case rc_state (um_recv_connection m) of
        RCS_IDLE \<Rightarrow> recv_idle data m
      | RCS_PAYLOAD \<Rightarrow> recv_payload handler now data m
      | RCS_DROPPING \<Rightarrow> recv_dropping data m)"

definition recv_rank :: "udp_mux \<Rightarrow> nat" where
  "recv_rank m = (if rc_state (um_recv_connection m) = RCS_IDLE then 0 else 1)"

lemma recv_once_progress:
  assumes "data \<noteq> []"
  shows "length (fst (recv_once h now data m)) < length data \<or>
    (length (fst (recv_once h now data m)) = length data \<and> recv_rank (snd (recv_once h now data m)) < recv_rank m)"
proof (cases "rc_state (um_recv_connection m)")
  case RCS_IDLE
  then show ?thesis using assms
    by (auto simp: recv_once_def recv_idle_def Let_def split: option.splits)
next
  case RCS_PAYLOAD
  then show ?thesis using assms
    by (auto simp: recv_once_def recv_payload_def recv_rank_def recv_connection_init_def Let_def split: option.splits)
next
  case RCS_DROPPING
  then show ?thesis using assms
    by (auto simp: recv_once_def recv_dropping_def recv_rank_def recv_connection_init_def Let_def)
qed

function recv_loop :: "read_handler \<Rightarrow> int \<Rightarrow> bytes \<Rightarrow> udp_mux \<Rightarrow> udp_mux" where
  "recv_loop handler now data m =
     (if data = [] then m
      else recv_loop handler now (fst (recv_once handler now data m)) (snd (recv_once handler now data m)))"
  by pat_completeness auto

termination
  by (relation "(\<lambda>(_, _, data, _). length data) <*mlex*> measure (\<lambda>(_, _, _, m). recv_rank m)")
    (use recv_once_progress in \<open>auto simp: wf_mlex mlex_prod_def case_prod_unfold\<close>)

declare recv_loop.simps [simp del]

definition process_read_event :: "read_handler \<Rightarrow> int \<Rightarrow> bytes \<Rightarrow> udp_mux \<Rightarrow> udp_mux" where
  "process_read_event handler now data m =
     (let m = recv_loop handler now data (mux_assert (um_state m = MS_ESTABLISHED) m)
      in mux_emit (ConsumeData (um_stream_id m) (length data)) m)"

subsection \<open>Timer and notifications\<close>

fun expire_each :: "int \<Rightarrow> (u64 \<times> udp_connection) list \<Rightarrow> udp_mux \<Rightarrow> udp_mux" where
  "expire_each now [] m = m"
| "expire_each now ((i, c) # cs) m =
     expire_each now cs
       (if uc_timeout c \<le> now
        then mux_emit (SERVER_EVENT_CONNECTION_CLOSED i) (snd (clean_connection_data i m))
        else m)"

definition timer_callback :: "int \<Rightarrow> udp_mux \<Rightarrow> udp_mux" where
  "timer_callback now m = expire_each now (um_connections m) m"

text \<open>\<open>econnrefused\<close> is the platform's error code.\<close>

definition handle_response :: "int \<Rightarrow> nat \<Rightarrow> udp_mux \<Rightarrow> udp_mux" where
  "handle_response econnrefused status m =
     (let m = mux_assert (um_state m = MS_ESTABLISHED) m
      in if status \<noteq> 200
         then m\<lparr>um_pending_error := Some (VpnError econnrefused (Some ''HTTP stream creation failed''))\<rparr> else m)"

definition get_stream_id :: "udp_mux \<Rightarrow> u64 option" where
  "get_stream_id m = (case um_state m of MS_IDLE \<Rightarrow> None | MS_ESTABLISHED \<Rightarrow> Some (um_stream_id m))"

fun report_each :: "(u64 \<times> udp_connection) list \<Rightarrow> udp_mux \<Rightarrow> udp_mux" where
  "report_each [] m = m"
| "report_each ((i, c) # cs) m =
     report_each cs
       (if uc_sent_bytes_since_flush c > 0
        then set_connection i (c\<lparr>uc_sent_bytes_since_flush := 0\<rparr>)
               (mux_emit (SERVER_EVENT_DATA_SENT i (uc_sent_bytes_since_flush c)) m)
        else m)"

definition report_sent_bytes :: "udp_mux \<Rightarrow> udp_mux" where
  "report_sent_bytes m = report_each (um_connections m) m"

definition set_read_enabled :: "u64 \<Rightarrow> bool \<Rightarrow> udp_mux \<Rightarrow> udp_mux" where
  "set_read_enabled i v m =
     (case map_of (um_connections m) i of
        None \<Rightarrow> m
      | Some c \<Rightarrow> set_connection i (c\<lparr>uc_read_enabled := v\<rparr>) m)"

definition connections_num :: "udp_mux \<Rightarrow> nat" where
  "connections_num m = length (um_connections m)"

end
