(* ===== verification/Udp_Receive.thy ===== *)
theory Udp_Receive
  imports Udp_Mux
begin

section \<open>The receive loop of the UDP multiplexer refines a parser of the whole stream\<close>

text \<open>
  A specification of what the byte stream from the endpoint means, independent of chunks and of the
  multiplexer's state, and the proof that the receive loop implements it: the loop is a
  \<open>stream_decoder\<close>, so the cuts between chunks do not matter, and the decoder agrees with the parser.
\<close>

subsection \<open>The stream of incoming packets\<close>

text \<open>
  What the byte stream of the endpoint means. A 40 byte prefix is routed to a connection, or to none,
  and announces the length of the payload; a payload is delivered when its last byte has arrived, an
  empty one when the next byte has.
\<close>

type_synonym route = "bytes \<Rightarrow> u64 option \<times> nat"

function deliveries :: "route \<Rightarrow> bytes \<Rightarrow> (u64 \<times> bytes) list" where
  "deliveries route bs =
     (if length bs < 40 then []
      else
        let (i, n) = route (take 40 bs); rest = drop 40 bs
        in if rest = [] \<or> length rest < n then []
           else (case i of None \<Rightarrow> [] | Some i \<Rightarrow> [(i, take n rest)]) @ deliveries route (drop n rest))"
  by pat_completeness auto

termination
  by (relation "measure (\<lambda>(_, bs). length bs)") auto

declare deliveries.simps [simp del]

text \<open>How a multiplexer routes prefixes, and the deliveries it has made.\<close>

definition route_of :: "udp_mux \<Rightarrow> route" where
  "route_of m buffer =
     (case read_prefix buffer m of
        None \<Rightarrow> (None, 0)
      | Some (i, n) \<Rightarrow>
          (if i = NON_ID \<or> (case map_of (um_connections m) i of None \<Rightarrow> True | Some c \<Rightarrow> \<not> uc_read_enabled c)
           then None else Some i, n))"

fun read_events :: "udp_effect list \<Rightarrow> (u64 \<times> bytes) list" where
  "read_events [] = []"
| "read_events (SERVER_EVENT_READ i b # es) = (i, b) # read_events es"
| "read_events (_ # es) = read_events es"

lemma read_events_append [simp]: "read_events (xs @ ys) = read_events xs @ read_events ys"
  by (induction xs rule: read_events.induct) simp_all

text \<open>The receive loop without the multiplexer around it: only the record of the packet in progress.\<close>

definition rx_step :: "route \<Rightarrow> bytes \<Rightarrow> recv_connection \<Rightarrow> ((u64 \<times> bytes) list \<times> bytes \<times> recv_connection) option" where
  "rx_step route data rc =
     (case rc_state rc of
        RCS_IDLE \<Rightarrow>
          if 40 \<le> length (rc_buffer rc) then None
          else if length data < 40 - length (rc_buffer rc)
          then Some ([], [], rc\<lparr>rc_buffer := rc_buffer rc @ data\<rparr>)
          else
            let k = 40 - length (rc_buffer rc); (i, n) = route (rc_buffer rc @ take k data)
            in Some ([], drop k data,
                 (case i of None \<Rightarrow> rc\<lparr>rc_state := RCS_DROPPING, rc_bytes_left := n, rc_buffer := []\<rparr>
                  | Some i \<Rightarrow> rc\<lparr>rc_state := RCS_PAYLOAD, rc_id := i, rc_bytes_left := n, rc_buffer := []\<rparr>))
      | RCS_PAYLOAD \<Rightarrow>
          if length data < rc_bytes_left rc
          then Some ([], [], rc\<lparr>rc_buffer := rc_buffer rc @ data, rc_bytes_left := rc_bytes_left rc - length data\<rparr>)
          else Some ([(rc_id rc, rc_buffer rc @ take (rc_bytes_left rc) data)], drop (rc_bytes_left rc) data,
                 recv_connection_init)
      | RCS_DROPPING \<Rightarrow>
          if length data < rc_bytes_left rc
          then Some ([], [], rc\<lparr>rc_bytes_left := rc_bytes_left rc - length data\<rparr>)
          else Some ([], drop (rc_bytes_left rc) data, recv_connection_init))"

lemma rx_idle_end:
  assumes "rx_step route xs s = Some (out, [], t)" and "rc_state s = RCS_IDLE"
  shows "rx_step route (xs @ ys) s = Some (out, ys, t) \<or> (out = [] \<and> rx_step route (xs @ ys) s = rx_step route ys t)"
proof (cases "length xs < 40 - length (rc_buffer s)")
  case True
  then have "out = []" "t = s\<lparr>rc_buffer := rc_buffer s @ xs\<rparr>" using assms by (auto simp: rx_step_def split: if_splits)
  moreover have "rx_step route (xs @ ys) s = rx_step route ys (s\<lparr>rc_buffer := rc_buffer s @ xs\<rparr>)"
    using True assms(2) by (cases s) (auto simp: rx_step_def Let_def split: prod.split option.split)
  ultimately show ?thesis by simp
next
  case False
  then show ?thesis using assms
    by (auto simp: rx_step_def Let_def split: if_splits prod.splits)
qed

lemma rx_step_end:
  assumes "rx_step route xs s = Some (out, [], t)"
  shows "rx_step route (xs @ ys) s = Some (out, ys, t) \<or> (out = [] \<and> rx_step route (xs @ ys) s = rx_step route ys t)"
proof (cases "rc_state s")
  case RCS_IDLE
  with assms show ?thesis by (rule rx_idle_end)
qed (use assms in \<open>cases s, auto simp: rx_step_def split: if_splits\<close>)

interpretation udp_downlink: stream_decoder "rx_step route" for route
proof unfold_locales
  fix xs ys tail :: bytes and s t :: recv_connection and out
  show "rx_step route (xs @ ys) s = Some (out, tail @ ys, t)"
    if "rx_step route xs s = Some (out, tail, t)" "xs \<noteq> []" "tail \<noteq> []"
    using that by (cases s; cases "rc_state s") (auto simp: rx_step_def Let_def split: if_splits prod.splits option.splits)
  show "rx_step route (xs @ ys) s = Some (out, ys, t) \<or> (out = [] \<and> rx_step route (xs @ ys) s = rx_step route ys t)"
    if "rx_step route xs s = Some (out, [], t)" "xs \<noteq> []" "ys \<noteq> []"
    by (rule rx_step_end [OF that(1)])
  show "rx_step route xs s \<noteq> None" if "rx_step route (xs @ ys) s \<noteq> None" "xs \<noteq> []"
    using that by (cases s; cases "rc_state s") (auto simp: rx_step_def Let_def split: if_splits prod.splits option.splits)
qed

lemma rx_incomplete:
  assumes "length bs < 40 \<or> (\<exists>i n. route (take 40 bs) = (i, n) \<and> (drop 40 bs = [] \<or> length (drop 40 bs) < n))"
  shows "\<exists>rc. udp_downlink.feeds route recv_connection_init bs [] rc"
proof (cases "bs = []")
  case False
  show ?thesis
  proof (cases "length bs < 40")
    case True
    then have "rx_step route bs recv_connection_init = Some ([], [], recv_connection_init\<lparr>rc_buffer := bs\<rparr>)"
      by (simp add: rx_step_def recv_connection_init_def)
    from udp_downlink.feeds_step [OF this False udp_downlink.feeds_end] show ?thesis by auto
  next
    case False
    obtain i n where r: "route (take 40 bs) = (i, n)" by fastforce
    define rc where "rc = (case i of
        None \<Rightarrow> recv_connection_init\<lparr>rc_state := RCS_DROPPING, rc_bytes_left := n\<rparr>
      | Some i \<Rightarrow> recv_connection_init\<lparr>rc_state := RCS_PAYLOAD, rc_id := i, rc_bytes_left := n\<rparr>)"
    have 1: "rx_step route bs recv_connection_init = Some ([], drop 40 bs, rc)"
      using False r by (simp add: rx_step_def recv_connection_init_def rc_def Let_def split: option.split)
    show ?thesis
    proof (cases "drop 40 bs = []")
      case True
      from udp_downlink.feeds_step [OF 1 _ udp_downlink.feeds_end [of route rc, folded True]] \<open>bs \<noteq> []\<close>
      show ?thesis by auto
    next
      case nonempty: False
      with assms False r have "length (drop 40 bs) < n" by auto
      then have "\<exists>rc'. rx_step route (drop 40 bs) rc = Some ([], [], rc')"
        by (cases i) (simp_all add: rc_def rx_step_def recv_connection_init_def)
      then obtain rc' where 2: "rx_step route (drop 40 bs) rc = Some ([], [], rc')" by blast
      from udp_downlink.feeds_step [OF 1 \<open>bs \<noteq> []\<close> udp_downlink.feeds_step [OF 2 nonempty udp_downlink.feeds_end]]
      show ?thesis by auto
    qed
  qed
qed (auto intro: udp_downlink.feeds_end)

lemma rx_complete:
  assumes "40 \<le> length bs" and "route (take 40 bs) = (i, n)" and "drop 40 bs \<noteq> []" and "n \<le> length (drop 40 bs)"
    and "udp_downlink.feeds route recv_connection_init (drop n (drop 40 bs)) out rc"
  shows "udp_downlink.feeds route recv_connection_init bs
    ((case i of None \<Rightarrow> [] | Some i \<Rightarrow> [(i, take n (drop 40 bs))]) @ out) rc"
proof -
  define rc1 where "rc1 = (case i of
      None \<Rightarrow> recv_connection_init\<lparr>rc_state := RCS_DROPPING, rc_bytes_left := n\<rparr>
    | Some i \<Rightarrow> recv_connection_init\<lparr>rc_state := RCS_PAYLOAD, rc_id := i, rc_bytes_left := n\<rparr>)"
  have 1: "rx_step route bs recv_connection_init = Some ([], drop 40 bs, rc1)"
    using assms(1,2) by (simp add: rx_step_def recv_connection_init_def rc1_def Let_def split: option.split)
  have 2: "rx_step route (drop 40 bs) rc1 =
      Some (case i of None \<Rightarrow> [] | Some i \<Rightarrow> [(i, take n (drop 40 bs))], drop n (drop 40 bs), recv_connection_init)"
    using assms(4) by (cases i) (simp_all add: rc1_def rx_step_def recv_connection_init_def)
  from assms(1) have "bs \<noteq> []" by auto
  from udp_downlink.feeds_step [OF 1 this udp_downlink.feeds_step [OF 2 assms(3,5)]] show ?thesis by simp
qed

lemma rx_deliveries: "\<exists>rc. udp_downlink.feeds route recv_connection_init bs (deliveries route bs) rc"
proof (induction route bs rule: deliveries.induct)
  case (1 route bs)
  obtain i n where r: "route (take 40 bs) = (i, n)" by fastforce
  show ?case
  proof (cases "length bs < 40 \<or> drop 40 bs = [] \<or> length (drop 40 bs) < n")
    case True
    then have "deliveries route bs = []" by (subst deliveries.simps) (use r in \<open>auto simp: Let_def\<close>)
    with True r rx_incomplete [of bs route] show ?thesis by auto
  next
    case False
    then have "deliveries route bs =
        (case i of None \<Rightarrow> [] | Some i \<Rightarrow> [(i, take n (drop 40 bs))]) @ deliveries route (drop n (drop 40 bs))"
      by (subst deliveries.simps) (use r in \<open>simp add: Let_def\<close>)
    moreover have "\<exists>rc. udp_downlink.feeds route recv_connection_init (drop n (drop 40 bs)) (deliveries route (drop n (drop 40 bs))) rc"
      using 1 [OF _ r [symmetric] refl refl] False by auto
    ultimately show ?thesis using rx_complete [of bs route i n] r False by fastforce
  qed
qed

subsection \<open>The receive loop implements it\<close>

text \<open>
  A handler of read events that leaves the routes as they are and raises no read events of its own; it
  may send, and change anything else.
\<close>

definition keeps_routes :: "read_handler \<Rightarrow> bool" where
  "keeps_routes h \<longleftrightarrow>
     (\<forall>i b m. route_of (h i b m) = route_of m \<and> read_events (um_out (h i b m)) = read_events (um_out m))"

definition payload_live :: "udp_mux \<Rightarrow> bool" where
  "payload_live m \<longleftrightarrow> (rc_state (um_recv_connection m) = RCS_PAYLOAD \<longrightarrow>
     map_of (um_connections m) (rc_id (um_recv_connection m)) \<noteq> None)"

lemma read_prefix_total:
  assumes "length buffer = 40"
  shows "read_prefix buffer m \<noteq> None"
proof -
  have ip: "\<exists>a r'. get_ip_padded r = Some (a, r') \<and> length r' = length r - 16" if "16 \<le> length r" for r
    using that by (auto simp: get_ip_padded_def get_ip_def)
  have port: "\<exists>p r'. get_u16 r = Some (p, r') \<and> length r' = length r - 2" if "2 \<le> length r" for r
    using that by (auto simp: get_u16_def)
  have 0: "get_u32 buffer = Some (word_of_nat (be_nat (take 4 buffer)), drop 4 buffer)" "length (drop 4 buffer) = 36"
    using assms by (simp_all add: get_u32_def)
  obtain a1 r1 where 1: "get_ip_padded (drop 4 buffer) = Some (a1, r1)" "length r1 = 20"
    using ip [of "drop 4 buffer"] assms by auto
  obtain p1 r2 where 2: "get_u16 r1 = Some (p1, r2)" "length r2 = 18" using port [of r1] 1 by auto
  obtain a2 r3 where 3: "get_ip_padded r2 = Some (a2, r3)" "length r3 = 2" using ip [of r2] 2 by auto
  obtain p2 r4 where 4: "get_u16 r3 = Some (p2, r4)" using port [of r3] 3 by auto
  from 0 1 2 3 4 show ?thesis by (simp add: read_prefix_def)
qed

lemma set_connection_simps [simp]:
  "um_state (set_connection i c m) = um_state m" "um_stream_id (set_connection i c m) = um_stream_id m"
  "um_recv_connection (set_connection i c m) = um_recv_connection m"
  "um_addr_to_id (set_connection i c m) = um_addr_to_id m" "um_out (set_connection i c m) = um_out m"
  "um_connections (set_connection i c m) = AList.update i c (um_connections m)"
  "um_asserted (set_connection i c m) = um_asserted m" "um_accepted (set_connection i c m) = um_accepted m"
  "um_timer_event (set_connection i c m) = um_timer_event m"
  by (simp_all add: set_connection_def)

lemma mux_emit_simps [simp]:
  "um_state (mux_emit e m) = um_state m" "um_stream_id (mux_emit e m) = um_stream_id m"
  "um_recv_connection (mux_emit e m) = um_recv_connection m"
  "um_addr_to_id (mux_emit e m) = um_addr_to_id m" "um_out (mux_emit e m) = um_out m @ [e]"
  "um_connections (mux_emit e m) = um_connections m"
  "um_asserted (mux_emit e m) = um_asserted m" "um_accepted (mux_emit e m) = um_accepted m"
  "um_timer_event (mux_emit e m) = um_timer_event m"
  by (simp_all add: mux_emit_def)

lemma read_prefix_cong: "um_addr_to_id m' = um_addr_to_id m \<Longrightarrow> read_prefix b m' = read_prefix b m"
  unfolding read_prefix_def by (erule ssubst) (rule refl)

lemma route_of_cong:
  assumes "um_addr_to_id m' = um_addr_to_id m"
    and "\<And>i. map_option uc_read_enabled (map_of (um_connections m') i) = map_option uc_read_enabled (map_of (um_connections m) i)"
  shows "route_of m' = route_of m"
proof
  fix buffer
  have "(case map_of (um_connections m') i of None \<Rightarrow> True | Some c \<Rightarrow> \<not> uc_read_enabled c) =
        (case map_of (um_connections m) i of None \<Rightarrow> True | Some c \<Rightarrow> \<not> uc_read_enabled c)" for i
    using assms(2) [of i] by (cases "map_of (um_connections m) i"; cases "map_of (um_connections m') i") auto
  then show "route_of m' buffer = route_of m buffer"
    unfolding route_of_def read_prefix_cong [OF assms(1)] by presburger
qed

lemma route_of_simps [simp]:
  "route_of (m\<lparr>um_recv_connection := rc\<rparr>) = route_of m"
  "route_of (mux_emit e m) = route_of m"
  "route_of (mux_assert b m) = route_of m"
  by (rule route_of_cong; simp add: mux_assert_def)+

lemma route_of_touch:
  "map_of (um_connections m) i = Some c \<Longrightarrow> uc_read_enabled d = uc_read_enabled c \<Longrightarrow>
     route_of (set_connection i d m) = route_of m"
  by (rule route_of_cong) (simp_all add: map_of_update)

lemma recv_once_idle:
  assumes "rc_state (um_recv_connection m) = RCS_IDLE"
    and "rx_step (route_of m) data (um_recv_connection m) = Some (out, tail, rc)"
  shows "recv_once h now data m = (tail, m\<lparr>um_recv_connection := rc\<rparr>) \<and> out = [] \<and>
    payload_live (m\<lparr>um_recv_connection := rc\<rparr>)"
proof -
  let ?rc = "um_recv_connection m"
  let ?k = "40 - length (rc_buffer ?rc)"
  have buf: "length (rc_buffer ?rc) < 40" using assms by (auto simp: rx_step_def split: if_splits)
  show ?thesis
  proof (cases "length data < ?k")
    case True
    with assms buf show ?thesis
      by (auto simp: rx_step_def recv_once_def recv_idle_def payload_live_def Let_def)
  next
    case False
    with buf have len: "length (rc_buffer ?rc @ take ?k data) = 40" and k: "min ?k (length data) = ?k" by auto
    from read_prefix_total [OF len] obtain i n where p: "read_prefix (rc_buffer ?rc @ take ?k data) m = Some (i, n)"
      by fastforce
    then show ?thesis using False assms buf k
      by (auto simp: rx_step_def recv_once_def recv_idle_def payload_live_def route_of_def Let_def split: option.splits if_splits)
  qed
qed

lemma recv_once_refines:
  assumes h: "keeps_routes h" and live: "payload_live m"
    and step: "rx_step (route_of m) data (um_recv_connection m) = Some (out, tail, rc)"
    and m': "recv_once h now data m = (tail', m')"
  shows "tail' = tail \<and> um_recv_connection m' = rc \<and>
    read_events (um_out m') = read_events (um_out m) @ out \<and> route_of m' = route_of m \<and> payload_live m'"
proof (cases "rc_state (um_recv_connection m)")
  case RCS_IDLE
  from recv_once_idle [OF this step, of h now] m' show ?thesis by auto
next
  case RCS_PAYLOAD
  with live obtain c where c: "map_of (um_connections m) (rc_id (um_recv_connection m)) = Some c"
    by (auto simp: payload_live_def)
  with RCS_PAYLOAD step m' h show ?thesis
    by (auto simp: rx_step_def recv_once_def recv_payload_def payload_live_def keeps_routes_def recv_connection_init_def
        route_of_touch map_of_update Let_def split: if_splits)
next
  case RCS_DROPPING
  with step m' show ?thesis
    by (auto simp: rx_step_def recv_once_def recv_dropping_def payload_live_def recv_connection_init_def Let_def split: if_splits)
qed

lemma recv_loop_refines:
  assumes "udp_downlink.feeds route rc data out rc'"
  shows "keeps_routes h \<Longrightarrow> payload_live m \<Longrightarrow> route_of m = route \<Longrightarrow> um_recv_connection m = rc \<Longrightarrow>
    um_recv_connection (recv_loop h now data m) = rc' \<and>
    read_events (um_out (recv_loop h now data m)) = read_events (um_out m) @ out \<and>
    route_of (recv_loop h now data m) = route \<and> payload_live (recv_loop h now data m)"
  using assms
proof (induction arbitrary: m rule: udp_downlink.feeds.induct)
  case (feeds_end s)
  then show ?case by (simp add: recv_loop.simps)
next
  case (feeds_step xs s out tail t outs u)
  obtain tail' m' where m': "recv_once h now xs m = (tail', m')" by fastforce
  from recv_once_refines [OF feeds_step.prems(1,2) _ m'] feeds_step.hyps(1) feeds_step.prems(3,4)
  have "tail' = tail" "um_recv_connection m' = t" "read_events (um_out m') = read_events (um_out m) @ out"
    "route_of m' = route" "payload_live m'" by auto
  with feeds_step.IH [of m'] feeds_step.prems(1) m' feeds_step.hyps(2) show ?case
    by (simp add: recv_loop.simps [of h now xs m])
qed

lemma payload_live_simps [simp]:
  "payload_live (mux_emit e m) = payload_live m" "payload_live (mux_assert b m) = payload_live m"
  by (simp_all add: payload_live_def mux_assert_def)

lemma process_read_event_refines:
  assumes "udp_downlink.feeds (route_of m) (um_recv_connection m) data out rc" and "keeps_routes h" and "payload_live m"
  shows "um_recv_connection (process_read_event h now data m) = rc \<and>
    read_events (um_out (process_read_event h now data m)) = read_events (um_out m) @ out \<and>
    route_of (process_read_event h now data m) = route_of m \<and> payload_live (process_read_event h now data m)"
proof -
  let ?m = "mux_assert (um_state m = MS_ESTABLISHED) m"
  have "um_recv_connection ?m = um_recv_connection m" "um_out ?m = um_out m"
    by (simp_all add: mux_assert_def)
  with recv_loop_refines [OF assms(1,2), of ?m now] assms(3) show ?thesis
    by (simp add: process_read_event_def Let_def)
qed

definition receive_chunks :: "read_handler \<Rightarrow> (int \<times> bytes) list \<Rightarrow> udp_mux \<Rightarrow> udp_mux" where
  "receive_chunks h chunks m = foldl (\<lambda>m (now, chunk). process_read_event h now chunk m) m chunks"

lemma receive_chunks_refines:
  assumes "udp_downlink.feeds_chunks route rc cs out rc'" and "map snd chunks = cs"
    and "keeps_routes h" and "payload_live m" and "route_of m = route" and "um_recv_connection m = rc"
  shows "read_events (um_out (receive_chunks h chunks m)) = read_events (um_out m) @ out"
  using assms
proof (induction arbitrary: m chunks rule: udp_downlink.feeds_chunks.induct)
  case (chunks_step s c out t cs outs u)
  then obtain now rest where chunks: "chunks = (now, c) # rest" "map snd rest = cs" by auto
  let ?m = "process_read_event h now c m"
  have "um_recv_connection ?m = t \<and> read_events (um_out ?m) = read_events (um_out m) @ out \<and>
      route_of ?m = route \<and> payload_live ?m"
    using process_read_event_refines [of m c out t h now] chunks_step by auto
  with chunks_step.IH [OF chunks(2), of ?m] chunks_step.prems chunks show ?case
    by (simp add: receive_chunks_def)
qed (simp add: receive_chunks_def)

lemma receive_chunks_deliveries:
  assumes "keeps_routes h" and "um_recv_connection m = recv_connection_init"
  shows "read_events (um_out (receive_chunks h chunks m)) =
    read_events (um_out m) @ deliveries (route_of m) (concat (map snd chunks))"
proof -
  obtain rc where "udp_downlink.feeds (route_of m) recv_connection_init (concat (map snd chunks))
      (deliveries (route_of m) (concat (map snd chunks))) rc"
    using rx_deliveries by blast
  then have "udp_downlink.feeds_chunks (route_of m) recv_connection_init (map snd chunks)
      (deliveries (route_of m) (concat (map snd chunks))) rc"
    by (simp add: udp_downlink.feeds_chunks_concat)
  moreover have "payload_live m" using assms(2) by (simp add: payload_live_def recv_connection_init_def)
  ultimately show ?thesis using receive_chunks_refines assms by blast
qed

end
