(* ===== verification/Udp_Mux_Inv.thy ===== *)
theory Udp_Mux_Inv
  imports Udp_Receive
begin

section \<open>The invariant of the UDP multiplexer\<close>

text \<open>
  The operations of \<^verbatim>\<open>HttpUdpMultiplexer\<close> as steps of a transition system, in any order and with
  calls back into the multiplexer from the handler of read events, and an invariant that every step
  keeps: the buffers and the record of the packet in progress fit together, every route leads to the
  connection with that address, and every accepted connection is open or has been reported closed.
\<close>

subsection \<open>Operations in sequence\<close>

text \<open>
  What the upstreams (\<^verbatim>\<open>http2_upstream.cpp\<close>, \<^verbatim>\<open>http3_upstream.cpp\<close>) do with a
  multiplexer: they check that a connection exists before they close it or send to it, and that a
  stream is open before they pass data or a response. Connection identifiers are never
  \<^verbatim>\<open>NON_ID\<close>, and an address has at most 16 bytes.
\<close>

definition pair_ok :: "tunnel_address_pair \<Rightarrow> bool" where
  "pair_ok p \<longleftrightarrow> length (sa_addr (tap_src p)) \<le> 16 \<and>
     (case tap_dst p of SockDst a \<Rightarrow> length (sa_addr a) \<le> 16 | NameDst _ \<Rightarrow> False)"

inductive mux_call :: "udp_mux \<Rightarrow> udp_mux \<Rightarrow> bool" where
  call_open: "i \<noteq> NON_ID \<Longrightarrow> pair_ok a \<Longrightarrow> \<not> check_connection i m \<Longrightarrow>
    mux_call m (snd (open_connection stream now i a app m))"
| call_close: "check_connection i m \<Longrightarrow> mux_call m (close_connection_async i async m)"
| call_send: "check_connection i m \<Longrightarrow> mux_call m (snd (mux_send r now i data m))"
| call_set_read: "mux_call m (set_read_enabled i v m)"

definition reentrant :: "read_handler \<Rightarrow> bool" where
  "reentrant h \<longleftrightarrow> (\<forall>i b m. mux_call\<^sup>*\<^sup>* m (h i b m))"

inductive mux_step :: "read_handler \<Rightarrow> udp_mux \<Rightarrow> udp_mux \<Rightarrow> bool" for h :: read_handler where
  step_call: "mux_call m m' \<Longrightarrow> mux_step h m m'"
| step_opened: "map_of (um_connections m) i = Some c \<Longrightarrow> uc_open_task c \<Longrightarrow> mux_step h m (complete_udp_connection i m)"
| step_closed: "map_of (um_connections m) i = Some c \<Longrightarrow> uc_close_task c \<Longrightarrow> mux_step h m (close_connection i m)"
| step_read: "get_stream_id m \<noteq> None \<Longrightarrow> mux_step h m (process_read_event h now data m)"
| step_response: "get_stream_id m \<noteq> None \<Longrightarrow> mux_step h m (handle_response e status m)"
| step_timer: "um_timer_event m \<Longrightarrow> mux_step h m (timer_callback now m)"
| step_report: "mux_step h m (report_sent_bytes m)"
| step_close: "mux_step h m (mux_close e m)"

abbreviation mux_reachable :: "read_handler \<Rightarrow> udp_mux \<Rightarrow> bool" where
  "mux_reachable h \<equiv> reach (\<lambda>m. m = new_udp_mux) (mux_step h)"

subsection \<open>Invariant\<close>

fun closed_ids :: "udp_effect list \<Rightarrow> u64 list" where
  "closed_ids [] = []"
| "closed_ids (SERVER_EVENT_CONNECTION_CLOSED i # es) = i # closed_ids es"
| "closed_ids (SERVER_EVENT_ERROR i e # es) = i # closed_ids es"
| "closed_ids (_ # es) = closed_ids es"

lemma closed_ids_append [simp]: "closed_ids (xs @ ys) = closed_ids xs @ closed_ids ys"
  by (induction xs rule: closed_ids.induct) simp_all

definition recv_ok :: "udp_mux \<Rightarrow> bool" where
  "recv_ok m \<longleftrightarrow>
     (let rc = um_recv_connection m
      in (rc_state rc = RCS_IDLE \<longrightarrow> length (rc_buffer rc) < 40 \<and> rc_id rc = NON_ID) \<and>
         (rc_state rc = RCS_PAYLOAD \<longrightarrow> map_of (um_connections m) (rc_id rc) \<noteq> None \<and>
            length (rc_buffer rc) + rc_bytes_left rc \<le> 65527) \<and>
         (rc_state rc = RCS_DROPPING \<longrightarrow> rc_bytes_left rc \<le> 65527))"

definition conn_addr :: "udp_mux \<Rightarrow> u64 \<Rightarrow> tunnel_address_pair option" where
  "conn_addr m i = map_option uc_addr (map_of (um_connections m) i)"

definition addresses_ok :: "udp_mux \<Rightarrow> bool" where
  "addresses_ok m \<longleftrightarrow>
     (\<forall>a i. map_of (um_addr_to_id m) a = Some i \<longrightarrow> conn_addr m i = Some a) \<and>
     (\<forall>i a. conn_addr m i = Some a \<longrightarrow> pair_ok a)"

definition connections_ok :: "udp_mux \<Rightarrow> bool" where
  "connections_ok m \<longleftrightarrow> distinct (map fst (um_connections m)) \<and> map_of (um_connections m) NON_ID = None \<and>
     mset (um_accepted m) = mset (map fst (um_connections m)) + mset (closed_ids (um_out m))"

definition stream_ok :: "udp_mux \<Rightarrow> bool" where
  "stream_ok m \<longleftrightarrow> (um_state m = MS_IDLE \<longrightarrow> um_connections m = [] \<and> um_stream_id m = 0)"

definition mux_inv :: "udp_mux \<Rightarrow> bool" where
  "mux_inv m \<longleftrightarrow> \<not> um_asserted m \<and> recv_ok m \<and> addresses_ok m \<and> connections_ok m \<and> stream_ok m"

declare map_of_eq_Some_iff [simp del]

lemmas mux_inv_defs = mux_inv_def recv_ok_def addresses_ok_def connections_ok_def stream_ok_def

lemma conn_addr_emit [simp]: "conn_addr (mux_emit e m) = conn_addr m"
  by (simp add: conn_addr_def fun_eq_iff)

lemma conn_addr_frame [simp]:
  "conn_addr (m\<lparr>um_stream_id := j, um_state := st\<rparr>) = conn_addr m"
  "conn_addr (m\<lparr>um_recv_connection := rc\<rparr>) = conn_addr m"
  "conn_addr (m\<lparr>um_pending_error := pe\<rparr>) = conn_addr m"
  by (simp_all add: conn_addr_def fun_eq_iff)

lemma conn_addr_touch:
  "map_of (um_connections m) i = Some c \<Longrightarrow> uc_addr d = uc_addr c \<Longrightarrow> conn_addr (set_connection i d m) = conn_addr m"
  by (simp add: conn_addr_def fun_eq_iff map_of_update)

lemma mux_inv_stream: "mux_inv m \<Longrightarrow> mux_inv (m\<lparr>um_stream_id := j, um_state := MS_ESTABLISHED\<rparr>)"
  by (simp add: mux_inv_defs Let_def)

lemma mux_inv_recv:
  "mux_inv m \<Longrightarrow> recv_ok (m\<lparr>um_recv_connection := rc\<rparr>) \<Longrightarrow> mux_inv (m\<lparr>um_recv_connection := rc\<rparr>)"
  by (simp add: mux_inv_def addresses_ok_def connections_ok_def stream_ok_def)

lemma recv_ok_init: "recv_ok (m\<lparr>um_recv_connection := recv_connection_init\<rparr>)"
  by (simp add: recv_ok_def recv_connection_init_def)

lemma mux_inv_new: "mux_inv new_udp_mux"
  by (simp add: mux_inv_defs new_udp_mux_def recv_connection_init_def conn_addr_def)

lemma mux_inv_emit: "mux_inv m \<Longrightarrow> closed_ids [e] = [] \<Longrightarrow> mux_inv (mux_emit e m)"
  by (simp add: mux_inv_defs Let_def)

lemma mux_inv_assert: "mux_inv m \<Longrightarrow> b \<Longrightarrow> mux_inv (mux_assert b m)"
  by (simp add: mux_assert_def)

lemma mux_inv_touch:
  assumes "mux_inv m" and "map_of (um_connections m) i = Some c" and "uc_addr d = uc_addr c"
  shows "mux_inv (set_connection i d m)"
proof -
  have "i \<in> set (map fst (um_connections m))" using assms(2) by (metis map_of_eq_None_iff image_set option.distinct(1))
  then have keys: "map fst (AList.update i d (um_connections m)) = map fst (um_connections m)"
    by (simp add: update_keys)
  have "recv_ok (set_connection i d m)" using assms by (auto simp: mux_inv_def recv_ok_def map_of_update Let_def)
  moreover have "addresses_ok (set_connection i d m)"
    using assms by (simp add: mux_inv_def addresses_ok_def conn_addr_touch)
  moreover have "connections_ok (set_connection i d m)" "stream_ok (set_connection i d m)"
    using assms keys by (auto simp: mux_inv_def connections_ok_def stream_ok_def map_of_update simp del: mset_map)
  ultimately show ?thesis using assms by (simp add: mux_inv_def)
qed

lemma established: "mux_inv m \<Longrightarrow> check_connection i m \<Longrightarrow> um_state m = MS_ESTABLISHED"
  by (cases "um_state m") (auto simp: mux_inv_defs check_connection_def)

lemma clean_emit: "snd (clean_connection_data i (mux_emit e m)) = mux_emit e (snd (clean_connection_data i m))"
  by (simp add: clean_connection_data_def mux_emit_def Let_def split: option.split)

lemma mset_removeAll: "distinct xs \<Longrightarrow> x \<in> set xs \<Longrightarrow> mset xs = add_mset x (mset (removeAll x xs))"
  by (metis distinct_remove1_removeAll mset_remove1 insert_DiffM set_mset_mset)

lemma mux_inv_clean:
  assumes inv: "mux_inv m" and c: "map_of (um_connections m) i = Some c" and e: "closed_ids [e] = [i]"
  shows "mux_inv (mux_emit e (snd (clean_connection_data i m)))"
proof -
  let ?m = "mux_emit e (snd (clean_connection_data i m))"
  have i: "i \<in> set (map fst (um_connections m))" using c by (metis map_of_eq_None_iff image_set option.distinct(1))
  from c inv have "i \<noteq> NON_ID" by (auto simp: mux_inv_defs)
  let ?n = "snd (clean_connection_data i m)"
  have conns: "um_connections ?n = AList.delete i (um_connections m)"
    "um_addr_to_id ?n = AList.delete (uc_addr c) (um_addr_to_id m)" "um_out ?n = um_out m"
    "um_asserted ?n = um_asserted m" "um_accepted ?n = um_accepted m" "um_state ?n = um_state m"
    "um_stream_id ?n = um_stream_id m"
    "um_recv_connection ?n = (if rc_id (um_recv_connection m) = i
       then (um_recv_connection m)\<lparr>rc_state := RCS_DROPPING\<rparr> else um_recv_connection m)"
    using c by (simp_all add: clean_connection_data_def Let_def)
  have "recv_ok ?m"
    using inv \<open>i \<noteq> NON_ID\<close> by (cases "rc_state (um_recv_connection m)") (auto simp: recv_ok_def mux_inv_def conns map_of_delete Let_def)
  moreover have "addresses_ok ?m"
  proof -
    have "conn_addr ?m j = (if j = i then None else conn_addr m j)" for j
      by (simp add: conn_addr_def conns map_of_delete)
    moreover have "conn_addr m i = Some (uc_addr c)" using c by (simp add: conn_addr_def)
    ultimately show ?thesis using inv
      unfolding mux_inv_def addresses_ok_def mux_emit_simps conns map_of_delete by (metis option.distinct(1) option.inject)
  qed
  moreover have "connections_ok ?m"
    using inv e i mset_removeAll [of "map fst (um_connections m)" i]
    by (auto simp: mux_inv_def connections_ok_def conns delete_keys distinct_removeAll map_of_delete simp del: mset_map)
  moreover have "stream_ok ?m" using inv by (auto simp: mux_inv_def stream_ok_def conns)
  ultimately show ?thesis using inv by (simp add: mux_inv_def conns)
qed

subsection \<open>Every operation keeps the invariant\<close>

lemma mux_inv_close_connection: "mux_inv m \<Longrightarrow> mux_inv (close_connection i m)"
  using mux_inv_clean [of m i _ "SERVER_EVENT_CONNECTION_CLOSED i"]
  by (cases "map_of (um_connections m) i") (auto simp: close_connection_def clean_connection_data_def Let_def)

lemma mux_inv_close_async:
  assumes "mux_inv m" and "check_connection i m"
  shows "mux_inv (close_connection_async i async m)"
  using assms mux_inv_touch [of m i] mux_inv_close_connection [of m i]
  by (auto simp: close_connection_async_def check_connection_def)

definition room :: "writer \<Rightarrow> nat" where
  "room w = length (wr_buffer w) - wr_pos w"

lemma put_data_room: "length d \<le> room w \<Longrightarrow> \<exists>w'. put_data d w = Some w' \<and> room w' = room w - length d"
  by (auto simp: put_data_def room_def Let_def)

lemma put_ip_padded_room:
  assumes "length (padded a) \<le> room w"
  shows "\<exists>w'. put_ip_padded a w = Some w' \<and> room w' = room w - length (padded a)"
proof (cases "is_ipv4 a")
  case True
  with assms put_data_room [of "replicate 12 0" w] obtain v
    where v: "put_data (replicate 12 0) w = Some v" "room v = room w - 12" by (auto simp: padded_def)
  with True assms put_data_room [of "sa_addr a" v] show ?thesis
    by (auto simp: put_ip_padded_def put_ip_def padded_def)
next
  case False
  with assms put_data_room [of "sa_addr a" w] show ?thesis
    by (auto simp: put_ip_padded_def put_ip_def padded_def)
qed

lemma compose_udp_packet_total:
  assumes "length (sa_addr src) \<le> 16" and "length (sa_addr dst) \<le> 16"
  shows "compose_udp_packet src dst app data \<noteq> None"
proof -
  have "length (padded a) \<le> 16" if "length (sa_addr a) \<le> 16" for a
    using that by (simp add: padded_def is_ipv4_def)
  with assms have p: "length (padded src) \<le> 16" "length (padded dst) \<le> 16" by auto
  define n where "n = 41 + length app + length data"
  obtain w1 where 1: "put_u32 (word_of_nat (n - 4)) (Writer (replicate n 0) 0) = Some w1" "room w1 = n - 4"
    using put_data_room [of "u32_be (word_of_nat (n - 4))" "Writer (replicate n 0) 0"]
    by (auto simp: put_u32_def n_def room_def)
  obtain w2 where 2: "put_ip_padded src w1 = Some w2" "n - 20 \<le> room w2"
    using put_ip_padded_room [of src w1] p 1 by (auto simp: n_def)
  obtain w3 where 3: "put_u16 (sa_port src) w2 = Some w3" "n - 22 \<le> room w3"
    using put_data_room [of "u16_be (sa_port src)" w2] 2 by (auto simp: put_u16_def n_def)
  obtain w4 where 4: "put_ip_padded dst w3 = Some w4" "n - 38 \<le> room w4"
    using put_ip_padded_room [of dst w3] p 3 by (auto simp: n_def)
  obtain w5 where 5: "put_u16 (sa_port dst) w4 = Some w5" "n - 40 \<le> room w5"
    using put_data_room [of "u16_be (sa_port dst)" w4] 4 by (auto simp: put_u16_def n_def)
  obtain w6 where 6: "put_u8 (word_of_nat (length (take 255 app))) w5 = Some w6" "n - 41 \<le> room w6"
    using put_data_room [of "[word_of_nat (length (take 255 app))]" w5] 5 by (auto simp: put_u8_def n_def)
  obtain w7 where 7: "put_data (take 255 app) w6 = Some w7" "length data \<le> room w7"
    using put_data_room [of "take 255 app" w6] 6 by (auto simp: n_def min_def split: if_splits)
  obtain w8 where 8: "put_data data w7 = Some w8" using put_data_room [of data w7] 7 by auto
  have n: "41 + length app + length data = n" by (simp add: n_def)
  show ?thesis
    using 1(1) 2(1) 3(1) 4(1) 5(1) 6(1) 7(1) 8 by (simp add: compose_udp_packet_def Let_def n [symmetric])
qed

lemma mux_inv_send:
  assumes inv: "mux_inv m" and "check_connection i m"
  shows "mux_inv (snd (mux_send r now i data m))"
proof -
  from assms obtain c where c: "map_of (um_connections m) i = Some c" by (auto simp: check_connection_def)
  then have "conn_addr m i = Some (uc_addr c)" by (simp add: conn_addr_def)
  with inv have "pair_ok (uc_addr c)" by (simp add: mux_inv_def addresses_ok_def)
  then obtain dst where dst: "tap_dst (uc_addr c) = SockDst dst" "length (sa_addr dst) \<le> 16"
      "length (sa_addr (tap_src (uc_addr c))) \<le> 16"
    by (auto simp: pair_ok_def split: tunnel_address.splits)
  from compose_udp_packet_total [OF dst(3,2)] obtain p
    where p: "compose_udp_packet (tap_src (uc_addr c)) dst (uc_app_name c) data = Some p" by fastforce
  have "mux_inv (mux_emit (SendData (um_stream_id m) p) m)" by (rule mux_inv_emit [OF inv]) simp
  with established [OF assms] c dst(1) p show ?thesis
    by (auto simp: mux_send_def mux_assert_def Let_def intro!: mux_inv_touch [of _ i c])
qed

lemma mux_inv_set_read: "mux_inv m \<Longrightarrow> mux_inv (set_read_enabled i v m)"
  using mux_inv_touch [of m i] by (auto simp: set_read_enabled_def split: option.split)

lemma map_of_snoc:
  "map_of xs i = None \<Longrightarrow> map_of (xs @ [(i, c)]) j = (if j = i then Some c else map_of xs j)"
  by (auto simp: map_add_def split: option.splits)

lemma mux_inv_open:
  assumes inv: "mux_inv m" and "i \<noteq> NON_ID" and "pair_ok a" and "\<not> check_connection i m"
  shows "mux_inv (snd (open_connection stream now i a app m))"
proof -
  have sock: "\<not> (case tap_dst a of SockDst _ \<Rightarrow> False | NameDst _ \<Rightarrow> True)"
    using assms(3) by (auto simp: pair_ok_def split: tunnel_address.splits)
  have fresh: "map_of (um_connections m) i = None" using assms(4) by (simp add: check_connection_def)
  have add: "mux_inv (n\<lparr>um_connections := um_connections n @ [(i, c)], um_timer_event := True,
      um_accepted := um_accepted n @ [i]\<rparr>)"
    if "mux_inv n" "um_state n = MS_ESTABLISHED" "map_of (um_connections n) i = None" "uc_addr c = a" for n c
  proof -
    have "i \<notin> set (map fst (um_connections n))" using that(3) by (simp add: map_of_eq_None_iff)
    let ?n = "n\<lparr>um_connections := um_connections n @ [(i, c)], um_timer_event := True, um_accepted := um_accepted n @ [i]\<rparr>"
    have "recv_ok ?n" using that by (simp add: mux_inv_def recv_ok_def map_of_snoc Let_def del: map_of_append)
    moreover have "addresses_ok ?n"
    proof -
      have "conn_addr ?n j = (if j = i then Some a else conn_addr n j)" for j
        using that by (simp add: conn_addr_def map_of_snoc del: map_of_append)
      moreover have "conn_addr n i = None" using that by (simp add: conn_addr_def)
      ultimately show ?thesis using that(1) assms(3) by (auto simp: mux_inv_def addresses_ok_def)
    qed
    moreover have "connections_ok ?n" "stream_ok ?n"
      using that assms(2) \<open>i \<notin> _\<close> by (auto simp: mux_inv_def connections_ok_def stream_ok_def map_of_snoc simp del: map_of_append)
    ultimately show ?thesis using that by (simp add: mux_inv_def)
  qed
  show ?thesis
  proof (cases "um_state m")
    case MS_IDLE
    let ?n = "mux_emit (SendConnectRequest (NamePort ''_udp2'' 0)) (mux_assert (um_stream_id m = 0) m)"
    have n: "mux_inv ?n" "um_connections ?n = um_connections m"
      using inv MS_IDLE by (auto simp: mux_assert_def mux_inv_defs Let_def)
    have "mux_inv (?n\<lparr>um_stream_id := j, um_state := MS_ESTABLISHED\<rparr>)" for j
      by (rule mux_inv_stream [OF n(1)])
    from add [OF this] n fresh MS_IDLE sock show ?thesis
      by (auto simp: open_connection_def Let_def split: option.splits)
  next
    case MS_ESTABLISHED
    with add [OF inv] fresh sock show ?thesis by (simp add: open_connection_def Let_def)
  qed
qed

lemma mux_inv_call: "mux_call m m' \<Longrightarrow> mux_inv m \<Longrightarrow> mux_inv m'"
  by (induction rule: mux_call.induct)
    (auto intro: mux_inv_open mux_inv_close_async mux_inv_send mux_inv_set_read)

lemma mux_inv_calls: "mux_call\<^sup>*\<^sup>* m m' \<Longrightarrow> mux_inv m \<Longrightarrow> mux_inv m'"
  by (induction rule: rtranclp_induct) (auto intro: mux_inv_call)

lemma mux_inv_handler: "reentrant h \<Longrightarrow> mux_inv m \<Longrightarrow> mux_inv (h i b m)"
  unfolding reentrant_def by (blast intro: mux_inv_calls)

lemma read_prefix_bound: "read_prefix b m = Some (i, n) \<Longrightarrow> n \<le> 65527"
  unfolding read_prefix_def by (auto split: if_splits bind_splits) linarith

lemma prefix_consts: "UDPPKT_IN_PREFIX_SIZE = 40"
  by simp

lemma mux_inv_recv_idle:
  assumes inv: "mux_inv m" and idle: "rc_state (um_recv_connection m) = RCS_IDLE"
  shows "mux_inv (snd (recv_idle data m))"
proof -
  let ?rc = "um_recv_connection m"
  let ?k = "min (40 - length (rc_buffer ?rc)) (length data)"
  let ?b = "rc_buffer ?rc @ take ?k data"
  have buf: "length (rc_buffer ?rc) < 40" "rc_id ?rc = NON_ID" using inv idle by (simp_all add: mux_inv_def recv_ok_def Let_def)
  show ?thesis
  proof (cases "length ?b < 40")
    case True
    then have "mux_inv (m\<lparr>um_recv_connection := ?rc\<lparr>rc_buffer := ?b\<rparr>\<rparr>)"
      using idle buf by (intro mux_inv_recv [OF inv]) (simp add: recv_ok_def)
    moreover have "snd (recv_idle data m) = m\<lparr>um_recv_connection := ?rc\<lparr>rc_buffer := ?b\<rparr>\<rparr>"
      using True buf by (simp only: recv_idle_def Let_def prefix_consts not_le if_True if_False snd_conv) simp
    ultimately show ?thesis by simp
  next
    case False
    with buf have "length ?b = 40" by simp
    then obtain i n where p: "read_prefix ?b m = Some (i, n)" using read_prefix_total [of ?b m] by fastforce
    note n = read_prefix_bound [OF p]
    show ?thesis using False buf p n
      by (auto simp: recv_idle_def Let_def recv_ok_def intro!: mux_inv_recv [OF inv] split: option.splits)
  qed
qed

lemma mux_inv_recv_payload:
  assumes inv: "mux_inv m" and payload: "rc_state (um_recv_connection m) = RCS_PAYLOAD" and h: "reentrant h"
  shows "mux_inv (snd (recv_payload h now data m))"
proof -
  let ?rc = "um_recv_connection m"
  obtain c where c: "map_of (um_connections m) (rc_id ?rc) = Some c" "length (rc_buffer ?rc) + rc_bytes_left ?rc \<le> 65527"
    using inv payload by (auto simp: mux_inv_def recv_ok_def Let_def)
  let ?m1 = "set_connection (rc_id ?rc) (c\<lparr>uc_timeout := now + 1000000 * VPN_DEFAULT_UDP_TIMEOUT_MS\<rparr>) m"
  let ?k = "min (rc_bytes_left ?rc) (length data)"
  let ?rc2 = "?rc\<lparr>rc_buffer := rc_buffer ?rc @ take ?k data, rc_bytes_left := rc_bytes_left ?rc - ?k\<rparr>"
  have "mux_inv ?m1" by (rule mux_inv_touch [OF inv c(1)]) simp
  then have m2: "mux_inv (?m1\<lparr>um_recv_connection := ?rc2\<rparr>)"
    using payload c by (intro mux_inv_recv) (auto simp: recv_ok_def map_of_update)
  from mux_inv_handler [OF h mux_inv_emit [OF this]]
  have "mux_inv ((h i b (mux_emit (SERVER_EVENT_READ i b) (?m1\<lparr>um_recv_connection := ?rc2\<rparr>)))
      \<lparr>um_recv_connection := recv_connection_init\<rparr>)" for i b
    by (intro mux_inv_recv) (simp_all add: recv_ok_init)
  note read = this
  have "snd (recv_payload h now data m) =
      (if rc_bytes_left ?rc2 = 0
       then (h (rc_id ?rc2) (rc_buffer ?rc2) (mux_emit (SERVER_EVENT_READ (rc_id ?rc2) (rc_buffer ?rc2))
           (?m1\<lparr>um_recv_connection := ?rc2\<rparr>)))\<lparr>um_recv_connection := recv_connection_init\<rparr>
       else ?m1\<lparr>um_recv_connection := ?rc2\<rparr>)"
    using c(1) by (simp add: recv_payload_def Let_def)
  then show ?thesis by (simp only: read m2 if_True if_False split: if_split) simp
qed

lemma mux_inv_recv_dropping:
  assumes inv: "mux_inv m" and "rc_state (um_recv_connection m) = RCS_DROPPING"
  shows "mux_inv (snd (recv_dropping data m))"
proof -
  let ?rc = "um_recv_connection m"
  let ?k = "rc_bytes_left ?rc - length data"
  have "rc_bytes_left ?rc \<le> 65527" using assms by (simp add: mux_inv_def recv_ok_def Let_def)
  then have "mux_inv (m\<lparr>um_recv_connection := ?rc\<lparr>rc_bytes_left := ?k\<rparr>\<rparr>)"
    using assms(2) by (intro mux_inv_recv [OF inv]) (simp add: recv_ok_def)
  moreover have "mux_inv (m\<lparr>um_recv_connection := recv_connection_init\<rparr>)"
    by (intro mux_inv_recv [OF inv] recv_ok_init)
  ultimately show ?thesis by (simp add: recv_dropping_def Let_def min_def)
qed

lemma mux_inv_recv_loop: "mux_inv m \<Longrightarrow> reentrant h \<Longrightarrow> mux_inv (recv_loop h now data m)"
proof (induction h now data m rule: recv_loop.induct)
  case (1 h now data m)
  have "mux_inv (snd (recv_once h now data m))"
    using 1 mux_inv_recv_idle mux_inv_recv_payload mux_inv_recv_dropping
    by (cases "rc_state (um_recv_connection m)") (simp_all add: recv_once_def)
  with 1 show ?case by (subst recv_loop.simps) simp
qed

lemma mux_inv_read:
  assumes "mux_inv m" and "reentrant h" and "get_stream_id m \<noteq> None"
  shows "mux_inv (process_read_event h now data m)"
proof -
  have "um_state m = MS_ESTABLISHED" using assms(3) by (cases "um_state m") (simp_all add: get_stream_id_def)
  with assms mux_inv_recv_loop [of m h now data] show ?thesis
    by (auto simp: process_read_event_def mux_assert_def Let_def intro: mux_inv_emit)
qed

lemma mux_inv_response: "mux_inv m \<Longrightarrow> get_stream_id m \<noteq> None \<Longrightarrow> mux_inv (handle_response e status m)"
  by (cases "um_state m") (simp_all add: handle_response_def mux_assert_def get_stream_id_def mux_inv_defs Let_def)

lemma mux_inv_complete: "mux_inv m \<Longrightarrow> mux_inv (complete_udp_connection i m)"
proof (cases "um_state m = MS_ESTABLISHED \<and> map_of (um_connections m) i \<noteq> None")
  case True
  assume inv: "mux_inv m"
  from True obtain c where c: "map_of (um_connections m) i = Some c" by auto
  let ?m = "set_connection i (c\<lparr>uc_open_task := False\<rparr>) m"
  have m: "mux_inv ?m" by (rule mux_inv_touch [OF inv c]) simp
  have "conn_addr ?m i = Some (uc_addr c)" using c by (simp add: conn_addr_touch) (simp add: conn_addr_def)
  then have "addresses_ok (?m\<lparr>um_addr_to_id := AList.update (uc_addr c) i (um_addr_to_id ?m)\<rparr>)"
    using m by (auto simp: mux_inv_def addresses_ok_def map_of_update conn_addr_def)
  with m have "mux_inv (?m\<lparr>um_addr_to_id := AList.update (uc_addr c) i (um_addr_to_id ?m)\<rparr>)"
    by (simp add: mux_inv_def recv_ok_def connections_ok_def stream_ok_def)
  with True c show ?thesis by (auto simp: complete_udp_connection_def Let_def intro: mux_inv_emit)
qed (auto simp: complete_udp_connection_def)

lemma clean_connection_facts:
  assumes "map_of (um_connections m) i = Some c"
  shows "um_connections (snd (clean_connection_data i m)) = filter (\<lambda>p. fst p \<noteq> i) (um_connections m)"
    and "um_out (snd (clean_connection_data i m)) = um_out m"
  using assms by (auto simp: clean_connection_data_def Let_def AList.delete_eq case_prod_unfold intro: filter_cong)

lemma map_of_filter_neq: "j \<noteq> i \<Longrightarrow> map_of (filter (\<lambda>p. fst p \<noteq> i) xs) j = map_of xs j"
  by (induction xs) auto

lemma mux_inv_expire:
  "mux_inv m \<Longrightarrow> distinct (map fst cs) \<Longrightarrow> \<forall>(i, c)\<in>set cs. map_of (um_connections m) i = Some c \<Longrightarrow>
    mux_inv (expire_each now cs m) \<and>
    um_connections (expire_each now cs m) =
      filter (\<lambda>p. fst p \<notin> fst ` {q \<in> set cs. uc_timeout (snd q) \<le> now}) (um_connections m) \<and>
    um_out (expire_each now cs m) =
      um_out m @ map (SERVER_EVENT_CONNECTION_CLOSED \<circ> fst) (filter (\<lambda>q. uc_timeout (snd q) \<le> now) cs)"
proof (induction cs arbitrary: m)
  case (Cons p cs)
  obtain i c where p: "p = (i, c)" by (cases p)
  have c: "map_of (um_connections m) i = Some c" using Cons.prems p by simp
  show ?case
  proof (cases "uc_timeout c \<le> now")
    case True
    let ?m = "mux_emit (SERVER_EVENT_CONNECTION_CLOSED i) (snd (clean_connection_data i m))"
    have conns: "um_connections ?m = filter (\<lambda>p. fst p \<noteq> i) (um_connections m)"
      "um_out ?m = um_out m @ [SERVER_EVENT_CONNECTION_CLOSED i]"
      using clean_connection_facts [OF c] by simp_all
    have "mux_inv ?m" by (rule mux_inv_clean [OF Cons.prems(1) c]) simp
    moreover have "\<forall>(j, d)\<in>set cs. map_of (um_connections ?m) j = Some d"
    proof clarify
      fix j d assume "(j, d) \<in> set cs"
      with Cons.prems p have "map_of (um_connections m) j = Some d" "j \<noteq> i" by force+
      then show "map_of (um_connections ?m) j = Some d" unfolding conns(1) by (simp add: map_of_filter_neq)
    qed
    ultimately have "mux_inv (expire_each now cs ?m) \<and>
        um_connections (expire_each now cs ?m) =
          filter (\<lambda>p. fst p \<notin> fst ` {q \<in> set cs. uc_timeout (snd q) \<le> now}) (um_connections ?m) \<and>
        um_out (expire_each now cs ?m) =
          um_out ?m @ map (SERVER_EVENT_CONNECTION_CLOSED \<circ> fst) (filter (\<lambda>q. uc_timeout (snd q) \<le> now) cs)"
      using Cons.prems p by (intro Cons.IH) simp_all
    moreover have "fst ` {q \<in> set (p # cs). uc_timeout (snd q) \<le> now} =
        insert i (fst ` {q \<in> set cs. uc_timeout (snd q) \<le> now})" using True p by force
    ultimately show ?thesis using True unfolding conns by (simp add: p)
  next
    case False
    then have "{q \<in> set (p # cs). uc_timeout (snd q) \<le> now} = {q \<in> set cs. uc_timeout (snd q) \<le> now}" using p by auto
    with False Cons.IH [of m] Cons.prems p show ?thesis by simp
  qed
qed simp

lemma connections_listed:
  "mux_inv m \<Longrightarrow> distinct (map fst (um_connections m)) \<and>
     (\<forall>(i, c)\<in>set (um_connections m). map_of (um_connections m) i = Some c)"
  by (auto simp: mux_inv_def connections_ok_def)

lemma timer_callback_exact:
  assumes "mux_inv m"
  shows "mux_inv (timer_callback now m)"
    and "um_connections (timer_callback now m) = filter (\<lambda>q. now < uc_timeout (snd q)) (um_connections m)"
    and "um_out (timer_callback now m) = um_out m @
      map (SERVER_EVENT_CONNECTION_CLOSED \<circ> fst) (filter (\<lambda>q. uc_timeout (snd q) \<le> now) (um_connections m))"
proof -
  note d = connections_listed [OF assms]
  note x = mux_inv_expire [OF assms conjunct1 [OF d] conjunct2 [OF d], of now]
  show "mux_inv (timer_callback now m)" using x by (simp add: timer_callback_def)
  show "um_out (timer_callback now m) = um_out m @
      map (SERVER_EVENT_CONNECTION_CLOSED \<circ> fst) (filter (\<lambda>q. uc_timeout (snd q) \<le> now) (um_connections m))"
    using x by (simp add: timer_callback_def)
  have "fst p \<notin> fst ` {q \<in> set (um_connections m). uc_timeout (snd q) \<le> now} \<longleftrightarrow> now < uc_timeout (snd p)"
    if "p \<in> set (um_connections m)" for p
    using d that by (force simp: not_le [symmetric] dest: bspec)
  then have "filter (\<lambda>p. fst p \<notin> fst ` {q \<in> set (um_connections m). uc_timeout (snd q) \<le> now}) (um_connections m) =
      filter (\<lambda>q. now < uc_timeout (snd q)) (um_connections m)" by (rule filter_cong [OF refl])
  then show "um_connections (timer_callback now m) = filter (\<lambda>q. now < uc_timeout (snd q)) (um_connections m)"
    using x by (simp add: timer_callback_def)
qed

definition close_event :: "vpn_error option \<Rightarrow> u64 \<Rightarrow> udp_effect" where
  "close_event error i = (case error of Some e \<Rightarrow> SERVER_EVENT_ERROR i e | None \<Rightarrow> SERVER_EVENT_CONNECTION_CLOSED i)"

lemma closed_ids_close_event: "closed_ids [close_event error i] = [i]"
  by (cases error) (simp_all add: close_event_def)

lemma clean_emit_swap: "snd (clean_connection_data i (mux_emit e m)) = mux_emit e (snd (clean_connection_data i m))"
  by (simp add: clean_connection_data_def Let_def mux_emit_def split: option.split)

lemma mux_inv_close_each:
  "mux_inv m \<Longrightarrow> distinct is \<Longrightarrow> set is \<subseteq> fst ` set (um_connections m) \<Longrightarrow>
    mux_inv (close_each error is m) \<and>
    um_connections (close_each error is m) = filter (\<lambda>p. fst p \<notin> set is) (um_connections m) \<and>
    um_out (close_each error is m) = um_out m @ map (close_event error) is"
proof (induction "is" arbitrary: m)
  case (Cons i "is")
  then obtain c where c: "map_of (um_connections m) i = Some c" by (metis insert_subset list.simps(15) map_of_eq_None_iff not_None_eq)
  let ?m = "mux_emit (close_event error i) (snd (clean_connection_data i m))"
  have conns: "um_connections ?m = filter (\<lambda>p. fst p \<noteq> i) (um_connections m)"
    "um_out ?m = um_out m @ [close_event error i]"
    using clean_connection_facts [OF c] by simp_all
  have rest: "set is \<subseteq> fst ` set (um_connections ?m)" using Cons.prems unfolding conns by fastforce
  have "mux_inv (close_each error is ?m) \<and>
      um_connections (close_each error is ?m) = filter (\<lambda>p. fst p \<notin> set is) (um_connections ?m) \<and>
      um_out (close_each error is ?m) = um_out ?m @ map (close_event error) is"
    using Cons.prems rest by (intro Cons.IH mux_inv_clean [OF _ c] closed_ids_close_event) simp_all
  then show ?case unfolding conns by (auto simp: clean_emit_swap close_event_def [symmetric] intro: filter_cong)
qed simp

definition close_error :: "vpn_error \<Rightarrow> udp_mux \<Rightarrow> vpn_error option" where
  "close_error e m = (case um_pending_error m of Some p \<Rightarrow> Some p | None \<Rightarrow> if err_code e \<noteq> 0 then Some e else None)"

lemma mux_close_exact:
  assumes "mux_inv m"
  shows "mux_inv (mux_close e m)" and "um_connections (mux_close e m) = []" and "um_state (mux_close e m) = MS_IDLE"
    and "um_out (mux_close e m) = um_out m @ map (close_event (close_error e m) \<circ> fst) (um_connections m)"
proof -
  let ?n = "close_each (close_error e m) (map fst (um_connections m)) m"
  have x: "mux_inv ?n \<and> um_connections ?n = filter (\<lambda>p. fst p \<notin> set (map fst (um_connections m))) (um_connections m) \<and>
      um_out ?n = um_out m @ map (close_event (close_error e m)) (map fst (um_connections m))"
    using connections_listed [OF assms] by (intro mux_inv_close_each [OF assms]) simp_all
  have n: "mux_close e m = mux_reset ?n" by (simp add: mux_close_def close_error_def Let_def)
  have e: "um_connections ?n = []" using x by (simp add: filter_empty_conv)
  show "um_connections (mux_close e m) = []" "um_state (mux_close e m) = MS_IDLE"
    "um_out (mux_close e m) = um_out m @ map (close_event (close_error e m) \<circ> fst) (um_connections m)"
    using x e by (simp_all add: n mux_reset_def)
  show "mux_inv (mux_close e m)" using x e unfolding n
    by (simp add: mux_reset_def mux_inv_defs recv_connection_init_def conn_addr_def)
qed

lemma mux_inv_report:
  "mux_inv m \<Longrightarrow> \<forall>p\<in>set cs. conn_addr m (fst p) = Some (uc_addr (snd p)) \<Longrightarrow> mux_inv (report_each cs m)"
proof (induction cs arbitrary: m)
  case (Cons p cs)
  obtain i c where p: "p = (i, c)" by (cases p)
  let ?n = "mux_emit (SERVER_EVENT_DATA_SENT i (uc_sent_bytes_since_flush c)) m"
  let ?m = "set_connection i (c\<lparr>uc_sent_bytes_since_flush := 0\<rparr>) ?n"
  from Cons.prems p obtain d where d: "map_of (um_connections ?n) i = Some d" "uc_addr c = uc_addr d"
    by (auto simp: conn_addr_def)
  then have m: "mux_inv ?m" using Cons.prems by (intro mux_inv_touch [of _ _ d] mux_inv_emit) simp_all
  have "conn_addr ?m = conn_addr ?n" using d by (intro conn_addr_touch [of _ _ d]) simp_all
  then have "conn_addr ?m = conn_addr m" by simp
  with Cons.IH [OF m] Cons.IH [of m] Cons.prems p show ?case by simp
qed simp

lemma mux_inv_report_sent: "mux_inv m \<Longrightarrow> mux_inv (report_sent_bytes m)"
  using connections_listed [of m] unfolding report_sent_bytes_def
  by (intro mux_inv_report) (auto simp: conn_addr_def)

lemma mux_inv_step: "reentrant h \<Longrightarrow> mux_inv m \<Longrightarrow> mux_step h m m' \<Longrightarrow> mux_inv m'"
  by (erule mux_step.cases)
    (auto intro: mux_inv_call mux_inv_complete mux_inv_close_connection mux_inv_read mux_inv_response
       timer_callback_exact(1) mux_inv_report_sent mux_close_exact(1))

interpretation udp_mux_invariant: transition_invariant "\<lambda>m. m = new_udp_mux" "\<lambda>m m'. reentrant h \<and> mux_step h m m'" mux_inv for h
  by unfold_locales (auto simp: mux_inv_new intro: mux_inv_step)

end
