(* ===== verification/Udp_Tunnel.thy ===== *)
theory Udp_Tunnel
  imports Udp_Codec Udp_Mux_Inv
begin

section \<open>UDP through the tunnel\<close>

text \<open>
  The client's multiplexer and the endpoint's codec together: what one side writes, the other side reads,
  whatever the chunks the stream delivers; and the properties of the multiplexer that follow from its
  invariant.
\<close>

subsection \<open>What the multiplexer writes\<close>

lemma compose_udp_packet_eq:
  assumes "sa_valid (dg_source g)" and "sa_valid (dg_destination g)" and "dg_app_name g = Some app" and "length app \<le> 255"
  shows "compose_udp_packet (dg_source g) (dg_destination g) app (dg_payload g) = Some (uplink_packet g)"
proof -
  let ?src = "dg_source g" and ?dst = "dg_destination g" and ?data = "dg_payload g"
  let ?n = "41 + length app + length ?data"
  have pad: "length (padded ?src) = 16" "length (padded ?dst) = 16" using assms by (simp_all add: length_padded)
  define p1 where "p1 = u32_be (word_of_nat (?n - 4))"
  define p2 where "p2 = p1 @ padded ?src"
  define p3 where "p3 = p2 @ u16_be (sa_port ?src)"
  define p4 where "p4 = p3 @ padded ?dst"
  define p5 where "p5 = p4 @ u16_be (sa_port ?dst)"
  define p6 where "p6 = p5 @ [word_of_nat (length app)]"
  define k where "k = length app + length ?data"
  define w1 where "w1 = Writer (p1 @ replicate (37 + k) 0) (length p1)"
  define w2 where "w2 = Writer (p2 @ replicate (21 + k) 0) (length p2)"
  define w3 where "w3 = Writer (p3 @ replicate (19 + k) 0) (length p3)"
  define w4 where "w4 = Writer (p4 @ replicate (3 + k) 0) (length p4)"
  define w5 where "w5 = Writer (p5 @ replicate (1 + k) 0) (length p5)"
  define w6 where "w6 = Writer (p6 @ replicate k 0) (length p6)"
  define w7 where "w7 = Writer ((p6 @ app) @ replicate (length ?data) 0) (length (p6 @ app))"
  have 1: "put_u32 (word_of_nat (?n - 4)) (Writer (replicate ?n 0) 0) = Some w1"
    using put_data_fill [of 0 "[]" p1 "37 + k"] by (simp add: put_u32_def w1_def p1_def k_def add.assoc)
  have 2: "put_ip_padded ?src w1 = Some w2"
    using put_ip_padded_fill [OF refl pad(1), of p1 "21 + k"] by (simp add: p2_def w1_def w2_def)
  have 3: "put_u16 (sa_port ?src) w2 = Some w3"
    using put_data_fill [OF refl, of "u16_be (sa_port ?src)" p2 "19 + k"] by (simp add: put_u16_def p3_def w2_def w3_def)
  have 4: "put_ip_padded ?dst w3 = Some w4"
    using put_ip_padded_fill [OF refl pad(2), of p3 "3 + k"] by (simp add: p4_def w3_def w4_def)
  have 5: "put_u16 (sa_port ?dst) w4 = Some w5"
    using put_data_fill [OF refl, of "u16_be (sa_port ?dst)" p4 "1 + k"]
    by (simp add: put_u16_def p5_def w4_def w5_def numeral_3_eq_3)
  have 6: "put_u8 (word_of_nat (length app)) w5 = Some w6"
    using put_data_fill [OF refl, of "[word_of_nat (length app)]" p5 k] by (simp add: put_u8_def p6_def w5_def w6_def)
  have 7: "put_data app w6 = Some w7" unfolding w6_def w7_def k_def by (rule put_data_fill [OF refl])
  have 8: "put_data ?data w7 = Some (Writer ((p6 @ app) @ ?data) (length ((p6 @ app) @ ?data)))"
    using put_data_fill [OF refl, of ?data "p6 @ app" 0] by (simp add: w7_def)
  have "compose_udp_packet ?src ?dst app ?data = Some ((p6 @ app) @ ?data)"
    using 1 2 3 4 5 6 7 8 assms(4) by (simp add: compose_udp_packet_def Let_def)
  also have "(p6 @ app) @ ?data = uplink_packet g"
    using assms(3) by (simp add: uplink_packet_def p6_def p5_def p4_def p3_def p2_def p1_def add.assoc)
  finally show ?thesis .
qed

subsection \<open>From the client to the endpoint\<close>

text \<open>
  The bytes the multiplexer has handed to the stream of the tunnel, and a run of calls of
  \<^verbatim>\<open>HttpUdpMultiplexer::send\<close> that the session accepts.
\<close>

fun stream_bytes :: "udp_effect list \<Rightarrow> bytes" where
  "stream_bytes [] = []"
| "stream_bytes (SendData s b # es) = b @ stream_bytes es"
| "stream_bytes (_ # es) = stream_bytes es"

lemma stream_bytes_append [simp]: "stream_bytes (xs @ ys) = stream_bytes xs @ stream_bytes ys"
  by (induction xs rule: stream_bytes.induct) simp_all

definition send_all :: "(int \<times> u64 \<times> bytes) list \<Rightarrow> udp_mux \<Rightarrow> udp_mux" where
  "send_all sends m = foldl (\<lambda>m (now, i, data). snd (mux_send 0 now i data m)) m sends"

text \<open>The datagram that the connection \<open>i\<close> sends.\<close>

definition datagram_of :: "udp_mux \<Rightarrow> u64 \<times> bytes \<Rightarrow> udp_datagram option" where
  "datagram_of m s =
     (case map_of (um_connections m) (fst s) of
        None \<Rightarrow> None
      | Some c \<Rightarrow>
          (case tap_dst (uc_addr c) of
             NameDst _ \<Rightarrow> None
           | SockDst dst \<Rightarrow> Some \<lparr>dg_source = tap_src (uc_addr c), dg_destination = dst,
               dg_app_name = Some (uc_app_name c), dg_payload = snd s\<rparr>))"

lemma mux_send_packet:
  assumes "um_state m = MS_ESTABLISHED" and "datagram_of m (i, data) = Some g" and "uplink_ok g"
  shows "stream_bytes (um_out (snd (mux_send 0 now i data m))) = stream_bytes (um_out m) @ uplink_packet g"
    and "um_state (snd (mux_send 0 now i data m)) = MS_ESTABLISHED"
    and "datagram_of (snd (mux_send 0 now i data m)) = datagram_of m"
proof -
  from assms(2) obtain c dst where c: "map_of (um_connections m) i = Some c" "tap_dst (uc_addr c) = SockDst dst"
    and g: "g = \<lparr>dg_source = tap_src (uc_addr c), dg_destination = dst, dg_app_name = Some (uc_app_name c), dg_payload = data\<rparr>"
    by (auto simp: datagram_of_def split: option.splits tunnel_address.splits)
  have "compose_udp_packet (tap_src (uc_addr c)) dst (uc_app_name c) data = Some (uplink_packet g)"
    using compose_udp_packet_eq [of g "uc_app_name c"] assms(3) by (simp add: g uplink_ok_def ip_unambiguous_def)
  then have m: "snd (mux_send 0 now i data m) =
      set_connection i (c\<lparr>uc_timeout := now + 1000000 * VPN_DEFAULT_UDP_TIMEOUT_MS,
        uc_sent_bytes_since_flush := uc_sent_bytes_since_flush c + length data\<rparr>)
        (mux_emit (SendData (um_stream_id m) (uplink_packet g)) m)"
    using assms(1) c by (simp add: mux_send_def mux_assert_def Let_def)
  show "stream_bytes (um_out (snd (mux_send 0 now i data m))) = stream_bytes (um_out m) @ uplink_packet g"
    "um_state (snd (mux_send 0 now i data m)) = MS_ESTABLISHED"
    using assms(1) by (simp_all add: m)
  show "datagram_of (snd (mux_send 0 now i data m)) = datagram_of m"
    unfolding m using c by (auto simp: datagram_of_def fun_eq_iff map_of_update split: option.splits)
qed

lemma send_all_packets:
  assumes "um_state m = MS_ESTABLISHED" and "map (\<lambda>s. datagram_of m (snd s)) sends = map Some gs" and "list_all uplink_ok gs"
  shows "stream_bytes (um_out (send_all sends m)) = stream_bytes (um_out m) @ concat (map uplink_packet gs)"
  using assms
proof (induction sends arbitrary: m gs)
  case (Cons s sends)
  obtain now i data where s: "s = (now, i, data)" by (cases s)
  from Cons.prems obtain g gs' where gs: "gs = g # gs'" by (cases gs) auto
  have g: "datagram_of m (i, data) = Some g" "uplink_ok g" using Cons.prems s gs by simp_all
  note m = mux_send_packet [OF Cons.prems(1) g, of now]
  have "stream_bytes (um_out (send_all sends (snd (mux_send 0 now i data m)))) =
      stream_bytes (um_out (snd (mux_send 0 now i data m))) @ concat (map uplink_packet gs')"
    using Cons.prems gs m by (intro Cons.IH) simp_all
  with m gs show ?case by (simp add: send_all_def s)
qed (simp add: send_all_def)

subsection \<open>From the endpoint to the client\<close>

definition downlink_packet :: "udp_datagram \<Rightarrow> bytes" where
  "downlink_packet g = u32_be (word_of_nat (36 + length (dg_payload g))) @
     padded (dg_source g) @ u16_be (sa_port (dg_source g)) @
     padded (dg_destination g) @ u16_be (sa_port (dg_destination g)) @ dg_payload g"

lemma encode_packet_eq: "encode_packet g = Some (downlink_packet g)"
  by (simp add: encode_packet_def downlink_packet_def put_fixed_size_ip_padded udp_codec_sizes)

text \<open>A datagram for the connection \<open>i\<close>: its addresses survive the encoding, and the connection reads.\<close>

definition ip_faithful :: "socket_address \<Rightarrow> bool" where
  "ip_faithful a \<longleftrightarrow> sa_valid a \<and> unpadded a = sa_addr a"

definition downlink_ok :: "udp_mux \<Rightarrow> u64 \<times> udp_datagram \<Rightarrow> bool" where
  "downlink_ok m d \<longleftrightarrow>
     (let (i, g) = d
      in ip_faithful (dg_source g) \<and> ip_faithful (dg_destination g) \<and>
         dg_payload g \<noteq> [] \<and> length (dg_payload g) \<le> 65527 \<and> i \<noteq> NON_ID \<and>
         map_of (um_addr_to_id m) (TunnelAddressPair (dg_destination g) (SockDst (dg_source g))) = Some i \<and>
         (\<exists>c. map_of (um_connections m) i = Some c \<and> uc_read_enabled c))"

lemma get_ip_faithful: "ip_faithful a \<Longrightarrow> get_ip_padded (padded a @ r) = Some (SocketAddress (sa_addr a) 0, r)"
  by (simp add: get_ip_padded_padded ip_faithful_def)

lemma route_of_packet:
  assumes "downlink_ok m (i, g)"
  shows "route_of m (take 40 (downlink_packet g)) = (Some i, length (dg_payload g))"
    and "drop 40 (downlink_packet g @ r) = dg_payload g @ r" and "40 \<le> length (downlink_packet g)"
    and "take 40 (downlink_packet g @ r) = take 40 (downlink_packet g)"
proof -
  have ok: "ip_faithful (dg_source g)" "ip_faithful (dg_destination g)" "length (dg_payload g) \<le> 65527" "i \<noteq> NON_ID"
    "map_of (um_addr_to_id m) (TunnelAddressPair (dg_destination g) (SockDst (dg_source g))) = Some i"
    "\<exists>c. map_of (um_connections m) i = Some c \<and> uc_read_enabled c"
    using assms by (simp_all add: downlink_ok_def)
  have l: "length (padded (dg_source g)) = 16" "length (padded (dg_destination g)) = 16"
    using ok by (simp_all add: length_padded ip_faithful_def)
  then show "drop 40 (downlink_packet g @ r) = dg_payload g @ r" "40 \<le> length (downlink_packet g)"
    "take 40 (downlink_packet g @ r) = take 40 (downlink_packet g)"
    by (simp_all add: downlink_packet_def)
  have n: "unat (word_of_nat (36 + length (dg_payload g)) :: u32) = 36 + length (dg_payload g)"
    by (rule unat_u32) (use ok in simp)
  have "take 40 (downlink_packet g) = u32_be (word_of_nat (36 + length (dg_payload g))) @
     padded (dg_source g) @ u16_be (sa_port (dg_source g)) @
     padded (dg_destination g) @ u16_be (sa_port (dg_destination g)) @ []"
    using l by (simp add: downlink_packet_def)
  then have "read_prefix (take 40 (downlink_packet g)) m = Some (i, length (dg_payload g))"
    using ok n by (simp add: read_prefix_def get_ip_faithful get_u16_be [of _ "[]", simplified] set_port_def)
  with ok show "route_of m (take 40 (downlink_packet g)) = (Some i, length (dg_payload g))"
    by (auto simp: route_of_def)
qed

lemma deliveries_packets:
  "list_all (downlink_ok m) ds \<Longrightarrow>
    deliveries (route_of m) (concat (map (\<lambda>d. downlink_packet (snd d)) ds)) = map (\<lambda>d. (fst d, dg_payload (snd d))) ds"
proof (induction ds)
  case (Cons d ds)
  obtain i g where d: "d = (i, g)" by (cases d)
  let ?r = "concat (map (\<lambda>d. downlink_packet (snd d)) ds)"
  have ok: "downlink_ok m (i, g)" using Cons.prems d by simp
  then have "dg_payload g \<noteq> []" by (simp add: downlink_ok_def)
  with Cons route_of_packet(1) [OF ok] route_of_packet(2,4) [OF ok, of ?r] route_of_packet(3) [OF ok] d show ?case
    by (subst deliveries.simps) (simp add: not_less trans_le_add1)
qed (simp add: deliveries.simps)

subsection \<open>Properties\<close>

text \<open>An open connection of a multiplexer, and a datagram for it.\<close>

definition sample_pair :: tunnel_address_pair where
  "sample_pair = TunnelAddressPair (SocketAddress [10, 0, 0, 2] 4096) (SockDst (SocketAddress [8, 8, 8, 8] 53))"

definition sample_mux :: udp_mux where
  "sample_mux = set_read_enabled 1 True (complete_udp_connection 1
     (snd (open_connection (Some 3) 0 1 sample_pair [97, 112, 112] new_udp_mux)))"

definition sample_conn :: udp_connection where
  "sample_conn = \<lparr>uc_read_enabled = True, uc_addr = sample_pair, uc_app_name = [97, 112, 112],
     uc_sent_bytes_since_flush = 0, uc_timeout = 1000000 * VPN_DEFAULT_UDP_TIMEOUT_MS,
     uc_open_task = False, uc_close_task = False\<rparr>"

definition sample_reply :: udp_datagram where
  "sample_reply = \<lparr>dg_source = SocketAddress [8, 8, 8, 8] 53, dg_destination = SocketAddress [10, 0, 0, 2] 4096,
     dg_app_name = None, dg_payload = [4, 5]\<rparr>"

lemma sample_mux_eq:
  "sample_mux = \<lparr>um_state = MS_ESTABLISHED, um_stream_id = 3, um_recv_connection = recv_connection_init,
     um_addr_to_id = [(sample_pair, 1)], um_connections = [(1, sample_conn)], um_timer_event = True,
     um_pending_error = None,
     um_out = [SendConnectRequest (NamePort ''_udp2'' 0), SERVER_EVENT_CONNECTION_OPENED 1],
     um_asserted = False, um_accepted = [1]\<rparr>"
  by (simp add: sample_mux_def sample_conn_def sample_pair_def set_read_enabled_def complete_udp_connection_def
      open_connection_def new_udp_mux_def mux_assert_def mux_emit_def set_connection_def)

lemma sample_downlink_ok: "downlink_ok sample_mux (1, sample_reply)"
  by (simp add: downlink_ok_def sample_mux_eq sample_conn_def sample_reply_def sample_pair_def ip_faithful_def
      unpadded_def sa_valid_def sa_family_def is_ipv4_def is_ipv6_def NON_ID_def)

abbreviation ignore_read :: read_handler where
  "ignore_read \<equiv> \<lambda>i b m. m"

lemma reentrant_ignore_read: "reentrant ignore_read"
  by (simp add: reentrant_def)

lemma keeps_routes_ignore_read: "keeps_routes ignore_read"
  by (simp add: keeps_routes_def)

lemma sample_mux_reachable: "mux_reachable ignore_read sample_mux"
proof -
  let ?m1 = "snd (open_connection (Some 3) 0 1 sample_pair [97, 112, 112] new_udp_mux)"
  have "mux_step ignore_read new_udp_mux ?m1"
    by (intro step_call call_open) (simp_all add: sample_pair_def pair_ok_def check_connection_def new_udp_mux_def NON_ID_def)
  with reach_start [of "\<lambda>m. m = new_udp_mux", OF refl] have 1: "mux_reachable ignore_read ?m1" by (rule reach_next)
  have "map_of (um_connections ?m1) 1 = Some (sample_conn\<lparr>uc_read_enabled := False, uc_open_task := True\<rparr>)"
    by (simp add: sample_conn_def sample_pair_def open_connection_def new_udp_mux_def mux_assert_def mux_emit_def)
  then have "mux_step ignore_read ?m1 (complete_udp_connection 1 ?m1)"
    by (rule step_opened) simp
  with 1 have 2: "mux_reachable ignore_read (complete_udp_connection 1 ?m1)" by (rule reach_next)
  have "mux_step ignore_read (complete_udp_connection 1 ?m1) sample_mux"
    unfolding sample_mux_def by (intro step_call call_set_read)
  with 2 show ?thesis by (rule reach_next)
qed

lemma mux_reachable_inv: "reentrant h \<Longrightarrow> mux_reachable h m \<Longrightarrow> mux_inv m"
  using udp_mux_invariant.reachable_inv [of h m] by simp

text \<open>
  (C6) Whatever calls, packets, responses, timer ticks and closings a UDP multiplexer gets, and whatever
  the handler of received datagrams calls back, no assertion of the multiplexer fails; every entry of its
  address table names an existing connection with that very address; the connection whose payload is being
  received exists; and a partial packet never exceeds the largest packet.
\<close>

theorem udp_mux_safety:
  assumes "reentrant h" and "mux_reachable h m"
  shows "\<not> um_asserted m \<and>
    (\<forall>a i. map_of (um_addr_to_id m) a = Some i \<longrightarrow>
       (\<exists>c. map_of (um_connections m) i = Some c \<and> uc_addr c = a)) \<and>
    (let rc = um_recv_connection m
     in (rc_state rc = RCS_PAYLOAD \<longrightarrow> check_connection (rc_id rc) m \<and>
           length (rc_buffer rc) + rc_bytes_left rc \<le> MAX_UDP_IN_PACKET_LENGTH - (UDPPKT_IN_PREFIX_SIZE - UDPPKT_LENGTH_SIZE)) \<and>
        (rc_state rc = RCS_IDLE \<longrightarrow> length (rc_buffer rc) < UDPPKT_IN_PREFIX_SIZE))"
  using mux_reachable_inv [OF assms]
  by (auto simp: mux_inv_def recv_ok_def addresses_ok_def conn_addr_def check_connection_def Let_def)

theorem udp_mux_safety_witness:
  "reentrant ignore_read \<and> mux_reachable ignore_read sample_mux \<and> \<not> um_asserted sample_mux \<and>
   map_of (um_connections sample_mux) 1 = Some sample_conn"
  using udp_mux_safety [OF reentrant_ignore_read sample_mux_reachable] reentrant_ignore_read sample_mux_reachable
  by (simp add: sample_mux_eq)

text \<open>
  (C9) The multiplexer accounts for every connection: counted with multiplicity, the connections it has
  accepted are those that are open and those it has reported closed or failed. So no connection is lost
  without a report and none is reported twice.
\<close>

theorem udp_connections_accounted:
  assumes "reentrant h" and "mux_reachable h m"
  shows "mset (um_accepted m) = mset (map fst (um_connections m)) + mset (closed_ids (um_out m)) \<and>
    distinct (map fst (um_connections m)) \<and> length (um_accepted m) = connections_num m + length (closed_ids (um_out m))"
proof -
  have inv: "mset (um_accepted m) = mset (map fst (um_connections m)) + mset (closed_ids (um_out m))"
    "distinct (map fst (um_connections m))"
    using mux_reachable_inv [OF assms] by (simp_all add: mux_inv_def connections_ok_def)
  from arg_cong [OF inv(1), of size] have "length (um_accepted m) = length (um_connections m) + length (closed_ids (um_out m))"
    by (simp only: size_mset size_union length_map)
  with inv show ?thesis by (simp add: connections_num_def)
qed

theorem udp_connections_accounted_witness:
  "reentrant ignore_read \<and> mux_reachable ignore_read sample_mux \<and> um_accepted sample_mux = [1] \<and>
   length (um_accepted sample_mux) = connections_num sample_mux + length (closed_ids (um_out sample_mux))"
  using udp_connections_accounted [OF reentrant_ignore_read sample_mux_reachable] reentrant_ignore_read sample_mux_reachable
  by (simp add: sample_mux_eq)

text \<open>
  (C28) The timer closes exactly the connections whose deadline has passed: it reports each of them closed,
  in the order of the table and once, reports nothing else, and keeps the other connections as they are.
\<close>

theorem timer_closes_expired:
  assumes "reentrant h" and "mux_reachable h m"
  shows "um_connections (timer_callback now m) = filter (\<lambda>(i, c). now < uc_timeout c) (um_connections m) \<and>
    um_out (timer_callback now m) =
      um_out m @ [SERVER_EVENT_CONNECTION_CLOSED i. (i, c) \<leftarrow> um_connections m, uc_timeout c \<le> now]"
proof -
  have "map (SERVER_EVENT_CONNECTION_CLOSED \<circ> fst) (filter (\<lambda>q. uc_timeout (snd q) \<le> now) cs) =
      [SERVER_EVENT_CONNECTION_CLOSED i. (i, c) \<leftarrow> cs, uc_timeout c \<le> now]" for cs
    by (induction cs) auto
  with timer_callback_exact(2,3) [OF mux_reachable_inv [OF assms], of now] show ?thesis
    by (simp add: case_prod_unfold)
qed

theorem timer_closes_expired_witness:
  "reentrant ignore_read \<and> mux_reachable ignore_read sample_mux \<and>
   um_connections (timer_callback (1000000 * VPN_DEFAULT_UDP_TIMEOUT_MS) sample_mux) = [] \<and>
   um_out (timer_callback (1000000 * VPN_DEFAULT_UDP_TIMEOUT_MS) sample_mux) =
     um_out sample_mux @ [SERVER_EVENT_CONNECTION_CLOSED 1]"
  using timer_closes_expired [OF reentrant_ignore_read sample_mux_reachable, of "1000000 * VPN_DEFAULT_UDP_TIMEOUT_MS"]
    reentrant_ignore_read sample_mux_reachable
  by (simp add: sample_mux_eq sample_conn_def)





text \<open>
  (C4) Datagrams from the client arrive at the endpoint: when the session accepts what an established
  multiplexer sends for its open connections, and the stream carries the bytes in any chunks, then the
  endpoint's decoder yields, read by read, exactly these datagrams in order: the source and destination of
  the connection, its application name and the payload. The addresses must be such that padding to 16 bytes
  is unambiguous, the payload must not be empty, and the packet must fit the endpoint's limit.
\<close>

theorem uplink_delivers:
  assumes "um_state m = MS_ESTABLISHED" and "stream_bytes (um_out m) = []"
    and "map (\<lambda>s. datagram_of m (snd s)) sends = map Some gs" and "list_all uplink_ok gs"
    and "concat chunks = stream_bytes (um_out (send_all sends m))"
  shows "\<exists>r. read_n decode_chunk (length sends) [] chunks new_decoder = Some (gs, r)"
proof -
  have "length sends = length gs" using assms(3) by (metis length_map)
  with decoder_reads_packets [OF assms(4), of chunks] send_all_packets [OF assms(1,3,4)] assms(2,5) show ?thesis
    by simp
qed

theorem uplink_delivers_witness:
  "\<exists>r. read_n decode_chunk 1 []
      (map (\<lambda>b. [b]) (stream_bytes (um_out (send_all [(0, 1, [1, 2, 3])] sample_mux)))) new_decoder =
    Some ([\<lparr>dg_source = SocketAddress [10, 0, 0, 2] 4096, dg_destination = SocketAddress [8, 8, 8, 8] 53,
      dg_app_name = Some [97, 112, 112], dg_payload = [1, 2, 3]\<rparr>], r)"
proof -
  let ?g = "\<lparr>dg_source = SocketAddress [10, 0, 0, 2] 4096, dg_destination = SocketAddress [8, 8, 8, 8] 53,
      dg_app_name = Some [97, 112, 112], dg_payload = [1, 2, 3]\<rparr>"
  have m: "um_state sample_mux = MS_ESTABLISHED" "stream_bytes (um_out sample_mux) = []" by (simp_all add: sample_mux_eq)
  have g: "map (\<lambda>s. datagram_of sample_mux (snd s)) [(0, 1, [1, 2, 3])] = map Some [?g]"
    by (simp add: datagram_of_def sample_mux_eq sample_conn_def sample_pair_def)
  have "valid_utf8 [97, 112, 112]" by code_simp
  then have ok: "list_all uplink_ok [?g]"
    by (simp add: uplink_ok_def ip_unambiguous_def sa_valid_def sa_family_def is_ipv4_def is_ipv6_def)
  have "concat (map (\<lambda>b. [b]) xs) = xs" for xs :: bytes by (induction xs) simp_all
  from uplink_delivers [OF m g ok this] show ?thesis by simp
qed

text \<open>
  (C5) Datagrams from the endpoint arrive at the client: the packets that the endpoint encodes for open
  connections with reading enabled, carried in any chunks, are delivered in order, each payload to the
  connection whose source is the datagram's destination and whose destination is its source. The addresses
  must survive padding to 16 bytes, and the payload must not be empty or longer than 65527 bytes.
\<close>

theorem downlink_delivers:
  assumes "keeps_routes h" and "um_recv_connection m = recv_connection_init" and "list_all (downlink_ok m) ds"
    and "map (encode_packet \<circ> snd) ds = map Some packets" and "concat (map snd chunks) = concat packets"
  shows "read_events (um_out (receive_chunks h chunks m)) =
    read_events (um_out m) @ map (\<lambda>(i, g). (i, dg_payload g)) ds"
proof -
  have "map Some packets = map Some (map (\<lambda>d. downlink_packet (snd d)) ds)"
    using assms(4) by (simp add: encode_packet_eq flip: assms(4))
  then have "packets = map (\<lambda>d. downlink_packet (snd d)) ds" by (simp only: inj_map_eq_map [OF inj_Some])
  with receive_chunks_deliveries [OF assms(1,2), of chunks] deliveries_packets [OF assms(3)] assms(5) show ?thesis
    by (simp add: case_prod_unfold)
qed

theorem downlink_delivers_witness:
  "keeps_routes ignore_read \<and> downlink_ok sample_mux (1, sample_reply) \<and>
   read_events (um_out (receive_chunks ignore_read (map (\<lambda>b. (9, [b])) (the (encode_packet sample_reply))) sample_mux)) =
     [(1, [4, 5])]"
proof -
  have r: "um_recv_connection sample_mux = recv_connection_init" "read_events (um_out sample_mux) = []"
    by (simp_all add: sample_mux_eq)
  have ok: "list_all (downlink_ok sample_mux) [(1, sample_reply)]" using sample_downlink_ok by simp
  have e: "map (encode_packet \<circ> snd) [(1 :: u64, sample_reply)] = map Some [downlink_packet sample_reply]"
    by (simp add: encode_packet_eq)
  have "concat (map (\<lambda>b. [b]) xs) = xs" for xs :: bytes by (induction xs) simp_all
  then have c: "concat (map snd (map (\<lambda>b. (9 :: int, [b])) (downlink_packet sample_reply))) =
      concat [downlink_packet sample_reply]" by (simp add: comp_def)
  from downlink_delivers [OF keeps_routes_ignore_read r(1) ok e c] r show ?thesis
    by (simp add: keeps_routes_ignore_read sample_downlink_ok encode_packet_eq) (simp add: sample_reply_def)
qed

end
