(* ===== verification/Deep_Link.thy ===== *)
theory Deep_Link
  imports Wire_Bytes Utf8
begin

section \<open>Deep links (\<^verbatim>\<open>deeplink/src\<close>)\<close>

text \<open>
  The library that writes a client configuration into a \<^verbatim>\<open>tt://?\<close> link and reads it back:
  variable-length integers, tag-length-value fields, the configuration and its builder. A Rust
  \<^verbatim>\<open>String\<close> is its UTF-8 bytes, a \<^verbatim>\<open>usize\<close> has 64 bits, and offsets into the data, which
  are bounded by its length, are natural numbers. The crates \<^verbatim>\<open>hex\<close> and
  \<^verbatim>\<open>base64\<close> are parameters. The error of \<^verbatim>\<open>String::from_utf8\<close> is kept without its
  contents.
\<close>

unbundle bit_operations_syntax

subsection \<open>Errors (\<^verbatim>\<open>error.rs\<close>)\<close>

datatype deep_link_error =
    InvalidBase64 string
  | TruncatedTlv u8 nat nat
  | MissingRequiredField string
  | InvalidProtocol u8
  | UnsupportedVersion u64 u64
  | TruncatedListEntry nat nat
  | VarintOverflow u64
  | InvalidCertificate string
  | InvalidUtf8
  | InvalidAddress string
  | InvalidBoolean u8
  | InvalidScheme bytes
  | Io string
  | Base64Decode string
  | AddrParse string

type_synonym 'a dl_result = "deep_link_error + 'a"

text \<open>The operator \<^verbatim>\<open>?\<close>: the error returns, the value goes on.\<close>

definition and_then :: "'e + 'a \<Rightarrow> ('a \<Rightarrow> 'e + 'b) \<Rightarrow> 'e + 'b" where
  "and_then r k = (case r of Inl e \<Rightarrow> Inl e | Inr x \<Rightarrow> k x)"

lemma and_then_cong [fundef_cong]:
  "r = r' \<Longrightarrow> (\<And>x. r' = Inr x \<Longrightarrow> k x = k' x) \<Longrightarrow> and_then r k = and_then r' k'"
  by (cases r') (simp_all add: and_then_def)

lemma and_then_simps [simp]: "and_then (Inl e) k = Inl e" "and_then (Inr x) k = k x"
  by (simp_all add: and_then_def)

definition map_err :: "('e \<Rightarrow> 'f) \<Rightarrow> 'e + 'a \<Rightarrow> 'f + 'a" where
  "map_err f r = (case r of Inl e \<Rightarrow> Inl (f e) | Inr x \<Rightarrow> Inr x)"

definition ok_or :: "'e \<Rightarrow> 'a option \<Rightarrow> 'e + 'a" where
  "ok_or e v = (case v of None \<Rightarrow> Inl e | Some x \<Rightarrow> Inr x)"

subsection \<open>Variable-length integers (\<^verbatim>\<open>varint.rs\<close>)\<close>

definition encode_varint :: "u64 \<Rightarrow> bytes dl_result" where
  "encode_varint value =
     (if value \<le> 0x3F then Inr [ucast value]
      else if value \<le> 0x3FFF then Inr (u16_be (ucast (value OR 0x4000)))
      else if value \<le> 0x3FFFFFFF then Inr (u32_be (ucast (value OR 0x80000000)))
      else if value \<le> 0x3FFFFFFFFFFFFFFF then Inr (u64_be (value OR 0xC000000000000000))
      else Inl (VarintOverflow value))"

definition decode_varint :: "bytes \<Rightarrow> nat \<Rightarrow> string + u64 \<times> nat" where
  "decode_varint data offset =
     (if offset \<ge> length data then Inl ''unexpected end of data while reading varint''
      else
        let first = data ! offset; pfx = drop_bit 6 first
        in if pfx = 0 then Inr (ucast (first AND 0x3F), offset + 1)
           else if pfx = 1 then
             (if offset + 2 > length data then Inl ''truncated 2-byte varint''
              else Inr (ucast ((word_of_nat (be_nat (take 2 (drop offset data))) :: u16) AND 0x3FFF), offset + 2))
           else if pfx = 2 then
             (if offset + 4 > length data then Inl ''truncated 4-byte varint''
              else Inr (ucast ((word_of_nat (be_nat (take 4 (drop offset data))) :: u32) AND 0x3FFFFFFF), offset + 4))
           else
             (if offset + 8 > length data then Inl ''truncated 8-byte varint''
              else Inr ((word_of_nat (be_nat (take 8 (drop offset data))) :: u64) AND 0x3FFFFFFFFFFFFFFF, offset + 8)))"

subsection \<open>Types (\<^verbatim>\<open>types.rs\<close>)\<close>

datatype tlv_tag =
    Version | Hostname | Address | CustomSni | HasIpv6 | Username | Password | SkipVerification
  | Certificate | UpstreamProtocol | AntiDpi | ClientRandomPrefix | Name | DnsUpstreams

primrec tag_as_u8 :: "tlv_tag \<Rightarrow> u8" where
  "tag_as_u8 Version = 0x00"
| "tag_as_u8 Hostname = 0x01"
| "tag_as_u8 Address = 0x02"
| "tag_as_u8 CustomSni = 0x03"
| "tag_as_u8 HasIpv6 = 0x04"
| "tag_as_u8 Username = 0x05"
| "tag_as_u8 Password = 0x06"
| "tag_as_u8 SkipVerification = 0x07"
| "tag_as_u8 Certificate = 0x08"
| "tag_as_u8 UpstreamProtocol = 0x09"
| "tag_as_u8 AntiDpi = 0x0A"
| "tag_as_u8 ClientRandomPrefix = 0x0B"
| "tag_as_u8 Name = 0x0C"
| "tag_as_u8 DnsUpstreams = 0x0D"

definition tag_from_u8 :: "u8 \<Rightarrow> tlv_tag option" where
  "tag_from_u8 value =
     (if value = 0x00 then Some Version
      else if value = 0x01 then Some Hostname
      else if value = 0x02 then Some Address
      else if value = 0x03 then Some CustomSni
      else if value = 0x04 then Some HasIpv6
      else if value = 0x05 then Some Username
      else if value = 0x06 then Some Password
      else if value = 0x07 then Some SkipVerification
      else if value = 0x08 then Some Certificate
      else if value = 0x09 then Some UpstreamProtocol
      else if value = 0x0A then Some AntiDpi
      else if value = 0x0B then Some ClientRandomPrefix
      else if value = 0x0C then Some Name
      else if value = 0x0D then Some DnsUpstreams
      else None)"

datatype protocol = Http2 | Http3

primrec protocol_as_u8 :: "protocol \<Rightarrow> u8" where
  "protocol_as_u8 Http2 = 0x01"
| "protocol_as_u8 Http3 = 0x02"

definition protocol_from_u8 :: "u8 \<Rightarrow> protocol dl_result" where
  "protocol_from_u8 value =
     (if value = 0x01 then Inr Http2 else if value = 0x02 then Inr Http3 else Inl (InvalidProtocol value))"

definition CURRENT_VERSION :: u64 where
  "CURRENT_VERSION = 1"

record deep_link_config =
  dl_hostname :: bytes
  dl_addresses :: "bytes list"
  dl_username :: bytes
  dl_password :: bytes
  dl_client_random_prefix :: "bytes option"
  dl_custom_sni :: "bytes option"
  dl_has_ipv6 :: bool
  dl_skip_verification :: bool
  dl_certificate :: "bytes option"
  dl_upstream_protocol :: protocol
  dl_anti_dpi :: bool
  dl_name :: "bytes option"
  dl_dns_upstreams :: "bytes list"

definition validate :: "deep_link_config \<Rightarrow> unit dl_result" where
  "validate c =
     (if dl_hostname c = [] then Inl (MissingRequiredField ''hostname'')
      else if dl_addresses c = [] then Inl (MissingRequiredField ''addresses'')
      else if dl_username c = [] then Inl (MissingRequiredField ''username'')
      else if dl_password c = [] then Inl (MissingRequiredField ''password'')
      else Inr ())"

text \<open>The builder: every field is optional, and setting one replaces it.\<close>

record deep_link_config_builder =
  b_hostname :: "bytes option"
  b_addresses :: "bytes list option"
  b_username :: "bytes option"
  b_password :: "bytes option"
  b_client_random_prefix :: "bytes option"
  b_custom_sni :: "bytes option"
  b_has_ipv6 :: "bool option"
  b_skip_verification :: "bool option"
  b_certificate :: "bytes option"
  b_upstream_protocol :: "protocol option"
  b_anti_dpi :: "bool option"
  b_name :: "bytes option"
  b_dns_upstreams :: "bytes list option"

definition builder :: deep_link_config_builder where
  "builder = \<lparr>b_hostname = None, b_addresses = None, b_username = None, b_password = None,
     b_client_random_prefix = None, b_custom_sni = None, b_has_ipv6 = None, b_skip_verification = None,
     b_certificate = None, b_upstream_protocol = None, b_anti_dpi = None, b_name = None,
     b_dns_upstreams = None\<rparr>"

definition set_hostname :: "bytes \<Rightarrow> deep_link_config_builder \<Rightarrow> deep_link_config_builder" where
  "set_hostname v b = b\<lparr>b_hostname := Some v\<rparr>"

definition set_addresses :: "bytes list \<Rightarrow> deep_link_config_builder \<Rightarrow> deep_link_config_builder" where
  "set_addresses v b = b\<lparr>b_addresses := Some v\<rparr>"

definition set_username :: "bytes \<Rightarrow> deep_link_config_builder \<Rightarrow> deep_link_config_builder" where
  "set_username v b = b\<lparr>b_username := Some v\<rparr>"

definition set_password :: "bytes \<Rightarrow> deep_link_config_builder \<Rightarrow> deep_link_config_builder" where
  "set_password v b = b\<lparr>b_password := Some v\<rparr>"

definition set_custom_sni :: "bytes option \<Rightarrow> deep_link_config_builder \<Rightarrow> deep_link_config_builder" where
  "set_custom_sni v b = b\<lparr>b_custom_sni := v\<rparr>"

definition set_has_ipv6 :: "bool \<Rightarrow> deep_link_config_builder \<Rightarrow> deep_link_config_builder" where
  "set_has_ipv6 v b = b\<lparr>b_has_ipv6 := Some v\<rparr>"

definition set_skip_verification :: "bool \<Rightarrow> deep_link_config_builder \<Rightarrow> deep_link_config_builder" where
  "set_skip_verification v b = b\<lparr>b_skip_verification := Some v\<rparr>"

definition set_certificate :: "bytes option \<Rightarrow> deep_link_config_builder \<Rightarrow> deep_link_config_builder" where
  "set_certificate v b = b\<lparr>b_certificate := v\<rparr>"

definition set_upstream_protocol :: "protocol \<Rightarrow> deep_link_config_builder \<Rightarrow> deep_link_config_builder" where
  "set_upstream_protocol v b = b\<lparr>b_upstream_protocol := Some v\<rparr>"

definition set_anti_dpi :: "bool \<Rightarrow> deep_link_config_builder \<Rightarrow> deep_link_config_builder" where
  "set_anti_dpi v b = b\<lparr>b_anti_dpi := Some v\<rparr>"

definition set_client_random_prefix :: "bytes option \<Rightarrow> deep_link_config_builder \<Rightarrow> deep_link_config_builder" where
  "set_client_random_prefix v b = b\<lparr>b_client_random_prefix := v\<rparr>"

definition set_name :: "bytes option \<Rightarrow> deep_link_config_builder \<Rightarrow> deep_link_config_builder" where
  "set_name v b = b\<lparr>b_name := v\<rparr>"

definition set_dns_upstreams :: "bytes list \<Rightarrow> deep_link_config_builder \<Rightarrow> deep_link_config_builder" where
  "set_dns_upstreams v b = b\<lparr>b_dns_upstreams := Some v\<rparr>"

definition unwrap_or :: "'a \<Rightarrow> 'a option \<Rightarrow> 'a" where
  "unwrap_or d v = (case v of None \<Rightarrow> d | Some x \<Rightarrow> x)"

text \<open>\<open>hex_decode\<close> is \<^verbatim>\<open>hex::decode\<close>, with the text of its error.\<close>

type_synonym hex_decoder = "bytes \<Rightarrow> string + bytes"

definition check_hex :: "hex_decoder \<Rightarrow> string \<Rightarrow> bytes \<Rightarrow> unit dl_result" where
  "check_hex hex_decode what s =
     and_then (map_err (\<lambda>e. InvalidAddress (what @ '' must be valid hex: '' @ e)) (hex_decode s)) (\<lambda>_. Inr ())"

definition build :: "hex_decoder \<Rightarrow> deep_link_config_builder \<Rightarrow> deep_link_config dl_result" where
  "build hex_decode b =
     and_then (case b_client_random_prefix b of
                 None \<Rightarrow> Inr ()
               | Some pfx \<Rightarrow>
                   if pfx \<noteq> [] then check_hex hex_decode ''client_random_prefix'' pfx else Inr ()) (\<lambda>_.
     and_then (ok_or (MissingRequiredField ''hostname'') (b_hostname b)) (\<lambda>hostname.
     and_then (ok_or (MissingRequiredField ''addresses'') (b_addresses b)) (\<lambda>addresses.
     and_then (ok_or (MissingRequiredField ''username'') (b_username b)) (\<lambda>username.
     and_then (ok_or (MissingRequiredField ''password'') (b_password b)) (\<lambda>password.
       let config = \<lparr>dl_hostname = hostname, dl_addresses = addresses, dl_username = username,
             dl_password = password, dl_client_random_prefix = b_client_random_prefix b,
             dl_custom_sni = b_custom_sni b, dl_has_ipv6 = unwrap_or True (b_has_ipv6 b),
             dl_skip_verification = unwrap_or False (b_skip_verification b),
             dl_certificate = b_certificate b,
             dl_upstream_protocol = unwrap_or Http2 (b_upstream_protocol b),
             dl_anti_dpi = unwrap_or False (b_anti_dpi b), dl_name = b_name b,
             dl_dns_upstreams = unwrap_or [] (b_dns_upstreams b)\<rparr>
       in and_then (validate config) (\<lambda>_. Inr config))))))"

definition protocol_from_str :: "string \<Rightarrow> protocol dl_result" where
  "protocol_from_str s =
     (if s = ''http2'' then Inr Http2
      else if s = ''http3'' then Inr Http3
      else Inl (InvalidAddress (''unknown upstream_protocol: '' @ s)))"

primrec protocol_to_string :: "protocol \<Rightarrow> string" where
  "protocol_to_string Http2 = ''http2''"
| "protocol_to_string Http3 = ''http3''"

subsection \<open>Encoder (\<^verbatim>\<open>encode.rs\<close>)\<close>

definition encode_tlv :: "tlv_tag \<Rightarrow> bytes \<Rightarrow> bytes dl_result" where
  "encode_tlv tag value =
     and_then (encode_varint (ucast (tag_as_u8 tag))) (\<lambda>t.
     and_then (encode_varint (word_of_nat (length value))) (\<lambda>l. Inr (t @ l @ value)))"

definition encode_string_field :: "tlv_tag \<Rightarrow> bytes \<Rightarrow> bytes dl_result" where
  "encode_string_field tag value = encode_tlv tag value"

definition encode_bool_field :: "tlv_tag \<Rightarrow> bool \<Rightarrow> bytes dl_result" where
  "encode_bool_field tag value = encode_tlv tag (if value then [0x01] else [0x00])"

definition encode_protocol_field :: "protocol \<Rightarrow> bytes dl_result" where
  "encode_protocol_field p = encode_tlv UpstreamProtocol [protocol_as_u8 p]"

fun encode_string_array :: "bytes list \<Rightarrow> bytes dl_result" where
  "encode_string_array [] = Inr []"
| "encode_string_array (s # ss) =
     and_then (encode_varint (word_of_nat (length s))) (\<lambda>l.
     and_then (encode_string_array ss) (\<lambda>rest. Inr (l @ s @ rest)))"

text \<open>\<open>extend_payload payload r\<close> is \<^verbatim>\<open>payload.extend(r?)\<close>.\<close>

definition extend_payload :: "bytes \<Rightarrow> bytes dl_result \<Rightarrow> bytes dl_result" where
  "extend_payload payload r = and_then r (\<lambda>x. Inr (payload @ x))"

fun extend_addresses :: "bytes \<Rightarrow> bytes list \<Rightarrow> bytes dl_result" where
  "extend_addresses payload [] = Inr payload"
| "extend_addresses payload (a # as) =
     and_then (extend_payload payload (encode_string_field Address a)) (\<lambda>payload. extend_addresses payload as)"

definition encode_tlv_payload :: "deep_link_config \<Rightarrow> bytes dl_result" where
  "encode_tlv_payload c =
     and_then (validate c) (\<lambda>_.
     and_then (encode_varint CURRENT_VERSION) (\<lambda>version_bytes.
     and_then (extend_payload [] (encode_tlv Version version_bytes)) (\<lambda>p.
     and_then (extend_payload p (encode_string_field Hostname (dl_hostname c))) (\<lambda>p.
     and_then (extend_payload p (encode_string_field Username (dl_username c))) (\<lambda>p.
     and_then (extend_payload p (encode_string_field Password (dl_password c))) (\<lambda>p.
     and_then (extend_addresses p (dl_addresses c)) (\<lambda>p.
     and_then (case dl_client_random_prefix c of
                 None \<Rightarrow> Inr p
               | Some pfx \<Rightarrow>
                   if pfx \<noteq> [] then extend_payload p (encode_string_field ClientRandomPrefix pfx) else Inr p) (\<lambda>p.
     and_then (case dl_custom_sni c of
                 None \<Rightarrow> Inr p | Some sni \<Rightarrow> extend_payload p (encode_string_field CustomSni sni)) (\<lambda>p.
     and_then (if \<not> dl_has_ipv6 c then extend_payload p (encode_bool_field HasIpv6 False) else Inr p) (\<lambda>p.
     and_then (if dl_skip_verification c then extend_payload p (encode_bool_field SkipVerification True) else Inr p) (\<lambda>p.
     and_then (if dl_anti_dpi c then extend_payload p (encode_bool_field AntiDpi True) else Inr p) (\<lambda>p.
     and_then (case dl_certificate c of
                 None \<Rightarrow> Inr p | Some cert \<Rightarrow> extend_payload p (encode_tlv Certificate cert)) (\<lambda>p.
     and_then (if dl_upstream_protocol c \<noteq> Http2
               then extend_payload p (encode_protocol_field (dl_upstream_protocol c)) else Inr p) (\<lambda>p.
     and_then (case dl_name c of
                 None \<Rightarrow> Inr p | Some name \<Rightarrow> extend_payload p (encode_string_field Name name)) (\<lambda>p.
       if dl_dns_upstreams c \<noteq> [] then
         and_then (encode_string_array (dl_dns_upstreams c)) (\<lambda>value. extend_payload p (encode_tlv DnsUpstreams value))
       else Inr p)))))))))))))))"

text \<open>\<open>b64_encode\<close> is the URL-safe base64 engine without padding; \<^verbatim>\<open>PREFIX\<close> is \<^verbatim>\<open>tt://?\<close>.\<close>

definition SCHEME :: bytes where
  "SCHEME = [116, 116, 58, 47, 47]"

definition PREFIX :: bytes where
  "PREFIX = SCHEME @ [63]"

definition encode :: "(bytes \<Rightarrow> bytes) \<Rightarrow> deep_link_config \<Rightarrow> bytes dl_result" where
  "encode b64_encode c = and_then (encode_tlv_payload c) (\<lambda>payload. Inr (PREFIX @ b64_encode payload))"

subsection \<open>Decoder (\<^verbatim>\<open>decode.rs\<close>)\<close>

definition decode_string :: "bytes \<Rightarrow> bytes dl_result" where
  "decode_string data = (if valid_utf8 data then Inr data else Inl InvalidUtf8)"

lemma decode_varint_progress:
  "decode_varint data offset = Inr (n, offset') \<Longrightarrow> offset < offset' \<and> offset' \<le> length data"
  by (auto simp: decode_varint_def Let_def split: if_splits)

function decode_string_array_from :: "bytes \<Rightarrow> nat \<Rightarrow> bytes list \<Rightarrow> bytes list dl_result" where
  "decode_string_array_from data offset result =
     (if offset < length data then
        case decode_varint data offset of
          Inl e \<Rightarrow> Inl (Io e)
        | Inr (n, offset) \<Rightarrow>
            let len = unat n
            in if offset + len > length data then Inl (TruncatedListEntry len (length data - offset))
               else and_then (decode_string (take len (drop offset data)))
                      (\<lambda>s. decode_string_array_from data (offset + len) (result @ [s]))
      else Inr result)"
  by pat_completeness auto

termination
  by (relation "measure (\<lambda>(data, offset, _). length data - offset)")
    (auto dest!: decode_varint_progress)

definition decode_string_array :: "bytes \<Rightarrow> bytes list dl_result" where
  "decode_string_array data = decode_string_array_from data 0 []"

definition decode_bool :: "bytes \<Rightarrow> bool dl_result" where
  "decode_bool data =
     (if length data \<noteq> 1 then Inl (InvalidBoolean (case data of [] \<Rightarrow> 0xFF | b # _ \<Rightarrow> b))
      else if data ! 0 = 0x00 then Inr False
      else if data ! 0 = 0x01 then Inr True
      else Inl (InvalidBoolean (data ! 0)))"

definition decode_protocol :: "bytes \<Rightarrow> protocol dl_result" where
  "decode_protocol data =
     (if length data \<noteq> 1 then Inl (InvalidProtocol (case data of [] \<Rightarrow> 0xFF | b # _ \<Rightarrow> b))
      else protocol_from_u8 (data ! 0))"

text \<open>\<open>next_field data offset\<close>: nothing at the end of the data, else a field or an error, and the new offset.\<close>

definition next_field :: "bytes \<Rightarrow> nat \<Rightarrow> ((tlv_tag option \<times> bytes) dl_result \<times> nat) option" where
  "next_field data offset =
     (if offset \<ge> length data then None
      else
        case decode_varint data offset of
          Inl e \<Rightarrow> Some (Inl (Io e), offset)
        | Inr (tag_u64, offset) \<Rightarrow>
            let tag = tag_from_u8 (ucast tag_u64)
            in (case decode_varint data offset of
                  Inl e \<Rightarrow> Some (Inl (Io e), offset)
                | Inr (n, offset) \<Rightarrow>
                    let len = unat n
                    in if offset + len > length data
                       then Some (Inl (TruncatedTlv (ucast tag_u64) len (length data - offset)), offset)
                       else Some (Inr (tag, take len (drop offset data)), offset + len)))"

record dl_fields =
  f_hostname :: "bytes option"
  f_addresses :: "bytes list"
  f_username :: "bytes option"
  f_password :: "bytes option"
  f_custom_sni :: "bytes option"
  f_has_ipv6 :: bool
  f_skip_verification :: bool
  f_certificate :: "bytes option"
  f_upstream_protocol :: protocol
  f_anti_dpi :: bool
  f_client_random_prefix :: "bytes option"
  f_name :: "bytes option"
  f_dns_upstreams :: "bytes list"

definition dl_defaults :: dl_fields where
  "dl_defaults = \<lparr>f_hostname = None, f_addresses = [], f_username = None, f_password = None,
     f_custom_sni = None, f_has_ipv6 = True, f_skip_verification = False, f_certificate = None,
     f_upstream_protocol = Http2, f_anti_dpi = False, f_client_random_prefix = None, f_name = None,
     f_dns_upstreams = []\<rparr>"

fun split_once :: "u8 \<Rightarrow> bytes \<Rightarrow> (bytes \<times> bytes) option" where
  "split_once c [] = None"
| "split_once c (b # bs) =
     (if b = c then Some ([], bs)
      else case split_once c bs of None \<Rightarrow> None | Some (p, m) \<Rightarrow> Some (b # p, m))"

definition check_prefix :: "hex_decoder \<Rightarrow> bytes \<Rightarrow> unit dl_result" where
  "check_prefix hex_decode pfx =
     (let (prefix_part, mask_part) = unwrap_or (pfx, []) (split_once 47 pfx)
      in and_then (check_hex hex_decode ''client_random_prefix'' prefix_part) (\<lambda>_.
           check_hex hex_decode ''client_random_prefix mask'' mask_part))"

definition apply_field :: "hex_decoder \<Rightarrow> tlv_tag \<Rightarrow> bytes \<Rightarrow> dl_fields \<Rightarrow> dl_fields dl_result" where
  "apply_field hex_decode tag value f =
     (case tag of
        Version \<Rightarrow>
          and_then (map_err Io (decode_varint value 0)) (\<lambda>(v, _).
            if v > CURRENT_VERSION then Inl (UnsupportedVersion v CURRENT_VERSION) else Inr f)
      | Hostname \<Rightarrow> and_then (decode_string value) (\<lambda>s. Inr (f\<lparr>f_hostname := Some s\<rparr>))
      | Address \<Rightarrow> and_then (decode_string value) (\<lambda>s. Inr (f\<lparr>f_addresses := f_addresses f @ [s]\<rparr>))
      | CustomSni \<Rightarrow> and_then (decode_string value) (\<lambda>s. Inr (f\<lparr>f_custom_sni := Some s\<rparr>))
      | HasIpv6 \<Rightarrow> and_then (decode_bool value) (\<lambda>b. Inr (f\<lparr>f_has_ipv6 := b\<rparr>))
      | Username \<Rightarrow> and_then (decode_string value) (\<lambda>s. Inr (f\<lparr>f_username := Some s\<rparr>))
      | Password \<Rightarrow> and_then (decode_string value) (\<lambda>s. Inr (f\<lparr>f_password := Some s\<rparr>))
      | SkipVerification \<Rightarrow> and_then (decode_bool value) (\<lambda>b. Inr (f\<lparr>f_skip_verification := b\<rparr>))
      | Certificate \<Rightarrow> Inr (f\<lparr>f_certificate := Some value\<rparr>)
      | UpstreamProtocol \<Rightarrow> and_then (decode_protocol value) (\<lambda>p. Inr (f\<lparr>f_upstream_protocol := p\<rparr>))
      | AntiDpi \<Rightarrow> and_then (decode_bool value) (\<lambda>b. Inr (f\<lparr>f_anti_dpi := b\<rparr>))
      | ClientRandomPrefix \<Rightarrow>
          and_then (decode_string value) (\<lambda>pfx.
          and_then (check_prefix hex_decode pfx) (\<lambda>_. Inr (f\<lparr>f_client_random_prefix := Some pfx\<rparr>)))
      | Name \<Rightarrow> and_then (decode_string value) (\<lambda>s. Inr (f\<lparr>f_name := Some s\<rparr>))
      | DnsUpstreams \<Rightarrow> and_then (decode_string_array value) (\<lambda>ss. Inr (f\<lparr>f_dns_upstreams := ss\<rparr>)))"

lemma next_field_progress:
  "next_field data offset = Some (Inr (t, v), offset') \<Longrightarrow> offset < offset' \<and> offset' \<le> length data"
  by (auto simp: next_field_def Let_def split: if_splits sum.splits prod.splits dest!: decode_varint_progress)

function decode_fields :: "hex_decoder \<Rightarrow> bytes \<Rightarrow> nat \<Rightarrow> dl_fields \<Rightarrow> dl_fields dl_result" where
  "decode_fields hex_decode data offset f =
     (case next_field data offset of
        None \<Rightarrow> Inr f
      | Some (Inl e, _) \<Rightarrow> Inl e
      | Some (Inr (None, value), offset) \<Rightarrow> decode_fields hex_decode data offset f
      | Some (Inr (Some tag, value), offset) \<Rightarrow>
          and_then (apply_field hex_decode tag value f) (\<lambda>f. decode_fields hex_decode data offset f))"
  by pat_completeness auto

termination
  by (relation "measure (\<lambda>(_, data, offset, _). length data - offset)")
    (auto dest!: next_field_progress)

declare decode_fields.simps [simp del] decode_string_array_from.simps [simp del]

definition decode_tlv_payload :: "hex_decoder \<Rightarrow> bytes \<Rightarrow> deep_link_config dl_result" where
  "decode_tlv_payload hex_decode payload =
     and_then (decode_fields hex_decode payload 0 dl_defaults) (\<lambda>f.
     and_then (ok_or (MissingRequiredField ''hostname'') (f_hostname f)) (\<lambda>hostname.
       if f_addresses f = [] then Inl (MissingRequiredField ''addresses'')
       else
         and_then (ok_or (MissingRequiredField ''username'') (f_username f)) (\<lambda>username.
         and_then (ok_or (MissingRequiredField ''password'') (f_password f)) (\<lambda>password.
           let config = \<lparr>dl_hostname = hostname, dl_addresses = f_addresses f, dl_username = username,
                 dl_password = password, dl_client_random_prefix = f_client_random_prefix f,
                 dl_custom_sni = f_custom_sni f, dl_has_ipv6 = f_has_ipv6 f,
                 dl_skip_verification = f_skip_verification f, dl_certificate = f_certificate f,
                 dl_upstream_protocol = f_upstream_protocol f, dl_anti_dpi = f_anti_dpi f,
                 dl_name = f_name f, dl_dns_upstreams = f_dns_upstreams f\<rparr>
           in and_then (validate config) (\<lambda>_. Inr config)))))"

definition starts_with :: "bytes \<Rightarrow> bytes \<Rightarrow> bool" where
  "starts_with p s \<longleftrightarrow> take (length p) s = p"

definition strip_prefix :: "bytes \<Rightarrow> bytes \<Rightarrow> bytes option" where
  "strip_prefix p s = (if starts_with p s then Some (drop (length p) s) else None)"

text \<open>The first \<open>n\<close> characters: a character ends before the next byte that is not a continuation.\<close>

fun take_chars :: "nat \<Rightarrow> bytes \<Rightarrow> bytes" where
  "take_chars n [] = []"
| "take_chars n (b # bs) =
     (if utf8_cont b then b # take_chars n bs
      else case n of 0 \<Rightarrow> [] | Suc k \<Rightarrow> b # take_chars k bs)"

definition decode :: "(bytes \<Rightarrow> string + bytes) \<Rightarrow> hex_decoder \<Rightarrow> bytes \<Rightarrow> deep_link_config dl_result" where
  "decode b64_decode hex_decode uri =
     (if \<not> starts_with SCHEME uri then Inl (InvalidScheme (take_chars 20 uri))
      else
        and_then (ok_or (InvalidScheme uri)
                    (case strip_prefix PREFIX uri of Some e \<Rightarrow> Some e | None \<Rightarrow> strip_prefix SCHEME uri)) (\<lambda>encoded.
        and_then (map_err InvalidBase64 (b64_decode encoded)) (decode_tlv_payload hex_decode)))"

end
