(* ===== verification/Deep_Link_Correct.thy ===== *)
theory Deep_Link_Correct
  imports Deep_Link
begin

section \<open>Correctness of deep links\<close>

text \<open>
  Variable-length integers, fields and whole configurations survive encoding and decoding; fields with an
  unknown tag are skipped; and whatever bytes a link has, a configuration that is decoded from it is valid.
\<close>

unbundle bit_operations_syntax

subsection \<open>Variable-length integers\<close>

lemma be_bytes_first: "be_bytes (Suc k) n ! 0 = word_of_nat (n div 256 ^ k)"
proof (induction k arbitrary: n)
  case (Suc k)
  have "be_bytes (Suc (Suc k)) n ! 0 = be_bytes (Suc k) (n div 256) ! 0" by (simp add: nth_append)
  with Suc show ?case by (simp add: div_mult2_eq)
qed simp

lemma unat_drop_six: "m < 256 \<Longrightarrow> unat (drop_bit 6 (word_of_nat m :: u8)) = m div 64"
  by (simp only: unsigned_drop_bit_eq) (simp add: drop_bit_eq_div unat_of_nat take_bit_eq_mod)

lemma varint_first:
  assumes "n < 2 ^ (8 * k + 6)" and "c < 4"
  shows "drop_bit 6 (be_bytes (Suc k) (n + c * 2 ^ (8 * k + 6)) ! 0) = word_of_nat c"
proof -
  have e: "(2 :: nat) ^ (8 * k + 6) = 64 * 256 ^ k" by (simp add: power_add power_mult)
  have "n div 256 ^ k < 64" using assms(1) by (simp add: e less_mult_imp_div_less)
  moreover have "(n + c * 2 ^ (8 * k + 6)) div 256 ^ k = n div 256 ^ k + c * 64"
  proof -
    have "n + c * 2 ^ (8 * k + 6) = n + (c * 64) * 256 ^ k" by (simp add: e)
    then show ?thesis by (simp only: div_mult_self1 [of "256 ^ k"] power_not_zero zero_neq_numeral not_False_eq_True add.commute)
  qed
  ultimately have "unat (drop_bit 6 (word_of_nat ((n + c * 2 ^ (8 * k + 6)) div 256 ^ k) :: u8)) = c"
    using assms(2) unat_drop_six [of "n div 256 ^ k + c * 64"] by (simp del: of_nat_add)
  then show ?thesis using assms(2) by (simp only: be_bytes_first) (simp add: word_unat_eq_iff unat_of_nat)
qed

lemma or_push_bit:
  assumes "unat v < 2 ^ k"
  shows "(v :: 'a::len word) OR push_bit k c = v + push_bit k c"
proof -
  have "\<not> bit v i" if "k \<le> i" for i
  proof
    assume "bit v i"
    then have "bit (unat v) i" by (simp add: bit_unsigned_iff)
    then have "unat v div 2 ^ i \<noteq> 0" by (metis bit_iff_odd even_zero)
    moreover have "unat v < 2 ^ i" by (rule less_le_trans [OF assms]) (simp add: that)
    ultimately show False by simp
  qed
  then have "\<not> bit (v AND push_bit k c) i" for i by (cases "k \<le> i") (simp_all add: bit_and_iff bit_push_bit_iff)
  then have "v AND push_bit k c = 0" by (intro bit_eqI) simp
  then show ?thesis by (simp add: disjunctive_add_eq_or)
qed

text \<open>\<open>varint k c v\<close>: the value \<open>v\<close> in \<open>Suc k\<close> bytes behind the length code \<open>c\<close>.\<close>

definition varint :: "nat \<Rightarrow> nat \<Rightarrow> u64 \<Rightarrow> bytes" where
  "varint k c v = be_bytes (Suc k) (unat v + c * 2 ^ (8 * k + 6))"

lemma length_varint [simp]: "length (varint k c v) = Suc k"
  by (simp add: varint_def)

lemma varint_nonempty [simp]: "varint k c v \<noteq> []"
  by (metis length_varint list.size(3) nat.distinct(1))

lemma encode_varint_cases:
  "encode_varint v =
     (if unat v < 2 ^ 6 then Inr (varint 0 0 v)
      else if unat v < 2 ^ 14 then Inr (varint 1 1 v)
      else if unat v < 2 ^ 30 then Inr (varint 3 2 v)
      else if unat v < 2 ^ 62 then Inr (varint 7 3 v)
      else Inl (VarintOverflow v))"
proof -
  have le: "v \<le> 0x3F \<longleftrightarrow> unat v < 2 ^ 6" "v \<le> 0x3FFF \<longleftrightarrow> unat v < 2 ^ 14" "v \<le> 0x3FFFFFFF \<longleftrightarrow> unat v < 2 ^ 30"
    "v \<le> 0x3FFFFFFFFFFFFFFF \<longleftrightarrow> unat v < 2 ^ 62"
    by (auto simp: word_le_nat_alt)
  have 0: "[ucast v :: u8] = varint 0 0 v" by (simp add: varint_def unsigned_ucast_eq)
  have eqs: "varint (Suc 0) (Suc 0) v = be_bytes 2 (unat v + 0x4000)" "varint 3 2 v = be_bytes 4 (unat v + 0x80000000)"
    "varint 7 3 v = be_bytes 8 (unat v + 0xC000000000000000)"
    by (simp_all add: varint_def numeral_2_eq_2 [symmetric] del: be_bytes.simps)
  have 1: "u16_be (ucast (v OR 0x4000)) = varint 1 1 v" if "unat v < 2 ^ 14"
    using that or_push_bit [OF that, of 1]
    by (simp add: u16_be_def eqs unsigned_ucast_eq take_bit_eq_mod unat_word_ariths(1))
  have 2: "u32_be (ucast (v OR 0x80000000)) = varint 3 2 v" if "unat v < 2 ^ 30"
    using that or_push_bit [OF that, of 2]
    by (simp add: u32_be_def eqs unsigned_ucast_eq take_bit_eq_mod unat_word_ariths(1))
  have 3: "u64_be (v OR 0xC000000000000000) = varint 7 3 v" if "unat v < 2 ^ 62"
    using that or_push_bit [OF that, of 3]
    by (simp add: u64_be_def eqs take_bit_eq_mod unat_word_ariths(1))
  show ?thesis unfolding encode_varint_def le by (auto simp: 0 1 2 3)
qed

lemma varint_prefix:
  assumes "unat v < 2 ^ (8 * k + 6)" and "c < 4"
  shows "drop_bit 6 ((pre @ varint k c v @ rest) ! length pre) = (word_of_nat c :: u8)"
proof -
  have "(pre @ varint k c v @ rest) ! length pre = varint k c v ! 0" by (simp add: nth_append)
  with varint_first [OF assms] show ?thesis by (simp only: varint_def)
qed

lemma and_low_bits: "unat ((w :: 'a::len word) AND mask n) = unat w mod 2 ^ n"
proof -
  have "w AND mask n = take_bit n w" by (simp add: take_bit_eq_mask)
  then show ?thesis by (simp only: unsigned_take_bit_eq) (simp add: take_bit_eq_mod)
qed

lemma be_nat_varint:
  assumes "unat v < 2 ^ (8 * k + 6)" and "c < 4"
  shows "be_nat (varint k c v) = unat v + c * 2 ^ (8 * k + 6)"
proof -
  have "unat v + c * 2 ^ (8 * k + 6) < 4 * 2 ^ (8 * k + 6)"
  proof -
    have "c * 2 ^ (8 * k + 6) \<le> 3 * (2 :: nat) ^ (8 * k + 6)" using assms(2) by (intro mult_right_mono) simp_all
    with assms(1) show ?thesis by linarith
  qed
  also have "4 * 2 ^ (8 * k + 6) = (256 :: nat) ^ Suc k" by (simp add: power_add power_mult)
  finally show ?thesis by (simp only: varint_def be_nat_be_bytes mod_less)
qed

lemma low_bits_varint:
  assumes "unat v < 2 ^ (8 * k + 6)" and "c < 4" and "LENGTH('a::len) = 8 * Suc k"
  shows "unat ((word_of_nat (be_nat (varint k c v)) :: 'a word) AND mask (8 * k + 6)) = unat v"
proof -
  have "be_nat (varint k c v) < 2 ^ LENGTH('a)"
    using be_nat_less [of "varint k c v"] assms(3) by (simp add: power_mult power_add)
  then have "unat (word_of_nat (be_nat (varint k c v)) :: 'a word) = be_nat (varint k c v)"
    by (simp only: unat_of_nat mod_less)
  then show ?thesis using assms by (simp only: and_low_bits be_nat_varint mod_mult_self1 mod_less)
qed

lemma masks: "(0x3FFF :: u16) = mask 14" "(0x3FFFFFFF :: u32) = mask 30" "(0x3FFFFFFFFFFFFFFF :: u64) = mask 62" "(0x3F :: u8) = mask 6"
  by (simp_all add: mask_eq_exp_minus_1)

lemma ucast_eq_unat: "unat (w :: 'a::len word) = unat v \<Longrightarrow> ucast w = (v :: 'b::len word)"
proof -
  assume e: "unat w = unat v"
  have "ucast w = (word_of_nat (unat w) :: 'b word)" by simp
  then show ?thesis unfolding e by simp
qed

lemma decode_varint_at:
  assumes "offset = length pre"
  shows "unat v < 2 ^ 6 \<Longrightarrow> decode_varint (pre @ varint 0 0 v @ rest) offset = Inr (v, offset + 1)"
    and "unat v < 2 ^ 14 \<Longrightarrow> decode_varint (pre @ varint 1 1 v @ rest) offset = Inr (v, offset + 2)"
    and "unat v < 2 ^ 30 \<Longrightarrow> decode_varint (pre @ varint 3 2 v @ rest) offset = Inr (v, offset + 4)"
    and "unat v < 2 ^ 62 \<Longrightarrow> decode_varint (pre @ varint 7 3 v @ rest) offset = Inr (v, offset + 8)"
proof -
  assume v: "unat v < 2 ^ 6"
  have "varint 0 0 v = [ucast v]" using v by (simp add: varint_def)
  moreover have "ucast ((ucast v :: u8) AND 0x3F) = v"
    using v by (intro ucast_eq_unat) (simp only: masks and_low_bits, simp add: unsigned_ucast_eq take_bit_eq_mod)
  ultimately show "decode_varint (pre @ varint 0 0 v @ rest) offset = Inr (v, offset + 1)"
    using v varint_prefix [of v 0 0 pre rest] assms by (simp add: decode_varint_def Let_def nth_append)
next
  assume v: "unat v < 2 ^ 14"
  have "ucast ((word_of_nat (be_nat (varint 1 1 v)) :: u16) AND 0x3FFF) = v"
    using v low_bits_varint [of v 1 1, where 'a = 16] by (intro ucast_eq_unat) (simp add: masks)
  then show "decode_varint (pre @ varint 1 1 v @ rest) offset = Inr (v, offset + 2)"
    using v varint_prefix [of v 1 1 pre rest] assms by (simp add: decode_varint_def Let_def)
next
  assume v: "unat v < 2 ^ 30"
  have "ucast ((word_of_nat (be_nat (varint 3 2 v)) :: u32) AND 0x3FFFFFFF) = v"
    using v low_bits_varint [of v 3 2, where 'a = 32] by (intro ucast_eq_unat) (simp add: masks)
  then show "decode_varint (pre @ varint 3 2 v @ rest) offset = Inr (v, offset + 4)"
    using v varint_prefix [of v 3 2 pre rest] assms by (simp add: decode_varint_def Let_def)
next
  assume v: "unat v < 2 ^ 62"
  have "(word_of_nat (be_nat (varint 7 3 v)) :: u64) AND 0x3FFFFFFFFFFFFFFF = v"
    using v low_bits_varint [of v 7 3, where 'a = 64] by (intro word_unat_eq_iff [THEN iffD2]) (simp add: masks)
  then show "decode_varint (pre @ varint 7 3 v @ rest) offset = Inr (v, offset + 8)"
    using v varint_prefix [of v 7 3 pre rest] assms by (simp add: decode_varint_def Let_def)
qed

lemma decode_encode_varint:
  "encode_varint v = Inr bs \<Longrightarrow> decode_varint (pre @ bs @ rest) (length pre) = Inr (v, length pre + length bs)"
  using decode_varint_at [OF refl, of v pre rest] by (auto simp: encode_varint_cases split: if_splits)

lemma encode_varint_total: "unat v < 2 ^ 62 \<Longrightarrow> \<exists>bs. encode_varint v = Inr bs"
  by (auto simp: encode_varint_cases)

lemma decode_varint_shift:
  "decode_varint (pre @ xs) (length pre + k) =
     (case decode_varint xs k of Inl e \<Rightarrow> Inl e | Inr (v, n) \<Rightarrow> Inr (v, length pre + n))"
  by (simp add: decode_varint_def Let_def nth_append drop_append)

subsection \<open>Fields\<close>

lemma next_field_shift:
  "next_field (pre @ xs) (length pre + k) =
     (case next_field xs k of None \<Rightarrow> None | Some (r, n) \<Rightarrow> Some (r, length pre + n))"
  by (simp add: next_field_def Let_def decode_varint_shift drop_append split: sum.split prod.split) auto

lemma decode_fields_shift:
  "decode_fields hex (pre @ xs) (length pre + k) f = decode_fields hex xs k f"
proof (induction hex xs k f rule: decode_fields.induct)
  case (1 hex xs k f)
  show ?case
  proof (cases "next_field xs k")
    case None
    then show ?thesis by (simp add: decode_fields.simps [of hex "pre @ xs"] decode_fields.simps [of hex xs] next_field_shift)
  next
    case (Some p)
    obtain r n where p: "p = (r, n)" by (cases p)
    show ?thesis
    proof (cases r)
      case (Inl e)
      with Some p show ?thesis
        by (simp add: decode_fields.simps [of hex "pre @ xs"] decode_fields.simps [of hex xs] next_field_shift)
    next
      case (Inr q)
      obtain t v where q: "q = (t, v)" by (cases q)
      have "and_then (apply_field hex tag v f) (decode_fields hex (pre @ xs) (length pre + n)) =
          and_then (apply_field hex tag v f) (decode_fields hex xs n)" if "t = Some tag" for tag
        using 1(2) [OF Some p [symmetric] Inr q [symmetric] that] by (cases "apply_field hex tag v f") auto
      moreover have "decode_fields hex (pre @ xs) (length pre + n) f = decode_fields hex xs n f" if "t = None"
        using 1(1) [OF Some p [symmetric] Inr q [symmetric] that] .
      ultimately show ?thesis using Some p Inr q
        by (cases t) (simp_all add: decode_fields.simps [of hex "pre @ xs"] decode_fields.simps [of hex xs] next_field_shift)
    qed
  qed
qed

text \<open>A field with any tag number.\<close>

definition raw_tlv :: "u64 \<Rightarrow> bytes \<Rightarrow> bytes" where
  "raw_tlv tag v =
     (case (encode_varint tag, encode_varint (word_of_nat (length v))) of
        (Inr t, Inr l) \<Rightarrow> t @ l @ v | _ \<Rightarrow> [])"

abbreviation tlv :: "tlv_tag \<Rightarrow> bytes \<Rightarrow> bytes" where
  "tlv t v \<equiv> raw_tlv (ucast (tag_as_u8 t)) v"

lemma unat_u64: "n < 2 ^ 62 \<Longrightarrow> unat (word_of_nat n :: u64) = n"
  by (simp add: unat_of_nat)

lemma tag_number_small: "unat (ucast (b :: u8) :: u64) < 2 ^ 62"
  using unat_byte_less [of b] by (simp add: unsigned_ucast_eq take_bit_eq_mod)

lemma byte_through_u64 [simp]: "(ucast (ucast (b :: u8) :: u64) :: u8) = b"
  using unat_byte_less [of b] by (intro ucast_eq_unat) (simp add: unsigned_ucast_eq take_bit_eq_mod)

lemma encode_tlv_eq: "length v < 2 ^ 62 \<Longrightarrow> encode_tlv t v = Inr (tlv t v)"
  using encode_varint_total [of "word_of_nat (length v)"] encode_varint_total [OF tag_number_small [of "tag_as_u8 t"]]
  by (auto simp: encode_tlv_def raw_tlv_def unat_u64)

lemma next_field_raw:
  assumes "length v < 2 ^ 62" and "unat tag < 2 ^ 62"
  shows "next_field (raw_tlv tag v @ rest) 0 = Some (Inr (tag_from_u8 (ucast tag), v), length (raw_tlv tag v))"
proof -
  obtain t where t: "encode_varint tag = Inr t" using encode_varint_total [OF assms(2)] by auto
  obtain l where l: "encode_varint (word_of_nat (length v)) = Inr l"
    using encode_varint_total [of "word_of_nat (length v)"] assms(1) by (auto simp: unat_u64)
  have "length t > 0" using t by (auto simp: encode_varint_cases split: if_splits)
  moreover have "decode_varint (t @ l @ v @ rest) 0 = Inr (tag, length t)"
    using decode_encode_varint [OF t, of "[]" "l @ v @ rest"] by simp
  moreover have "decode_varint (t @ l @ v @ rest) (length t) = Inr (word_of_nat (length v), length t + length l)"
    using decode_encode_varint [OF l, of t "v @ rest"] by simp
  moreover have "raw_tlv tag v = t @ l @ v" by (simp add: raw_tlv_def t l)
  ultimately show ?thesis using assms(1) by (simp add: next_field_def Let_def unat_u64)
qed

lemma tag_roundtrip [simp]: "tag_from_u8 (tag_as_u8 t) = Some t"
  by (cases t) (simp_all add: tag_from_u8_def)

lemma decode_fields_next:
  assumes "next_field (xs @ rest) 0 = Some (Inr (t, v), length xs)"
  shows "decode_fields hex (xs @ rest) 0 f =
    (case t of None \<Rightarrow> decode_fields hex rest 0 f
     | Some tag \<Rightarrow> and_then (apply_field hex tag v f) (decode_fields hex rest 0))"
proof -
  have "decode_fields hex (xs @ rest) (length xs) = decode_fields hex rest 0"
    using decode_fields_shift [of hex xs rest 0] by (simp add: fun_eq_iff)
  with assms show ?thesis by (subst decode_fields.simps) (simp split: option.split)
qed

lemma decode_fields_tlv:
  assumes "length v < 2 ^ 62"
  shows "decode_fields hex (tlv t v @ rest) 0 f = and_then (apply_field hex t v f) (decode_fields hex rest 0)"
  using decode_fields_next [OF next_field_raw [OF assms tag_number_small]] by simp

fun apply_fields :: "hex_decoder \<Rightarrow> (tlv_tag \<times> bytes) list \<Rightarrow> dl_fields \<Rightarrow> dl_fields dl_result" where
  "apply_fields hex [] f = Inr f"
| "apply_fields hex ((t, v) # ts) f = and_then (apply_field hex t v f) (apply_fields hex ts)"

lemma apply_fields_append:
  "apply_fields hex (ts @ us) f = and_then (apply_fields hex ts f) (apply_fields hex us)"
proof (induction ts arbitrary: f)
  case (Cons t ts)
  then show ?case by (cases t; cases "apply_field hex (fst t) (snd t) f") simp_all
qed simp

definition fields_bytes :: "(tlv_tag \<times> bytes) list \<Rightarrow> bytes" where
  "fields_bytes ts = concat (map (\<lambda>(t, v). tlv t v) ts)"

lemma fields_bytes_simps [simp]:
  "fields_bytes [] = []" "fields_bytes ((t, v) # ts) = tlv t v @ fields_bytes ts"
  "fields_bytes (ts @ us) = fields_bytes ts @ fields_bytes us"
  by (simp_all add: fields_bytes_def)

lemma decode_fields_bytes:
  assumes "list_all (\<lambda>(t, v). length v < 2 ^ 62) ts"
  shows "decode_fields hex (fields_bytes ts @ rest) 0 f = and_then (apply_fields hex ts f) (decode_fields hex rest 0)"
  using assms
proof (induction ts arbitrary: f)
  case (Cons t ts)
  obtain u v where t: "t = (u, v)" by (cases t)
  with Cons decode_fields_tlv [of v hex u "fields_bytes ts @ rest" f] show ?case
    by (cases "apply_field hex u v f") simp_all
qed simp

lemma unknown_field_ignored:
  assumes "length v < 2 ^ 62" and "unat tag < 2 ^ 62" and "tag_from_u8 (ucast tag) = None"
    and "list_all (\<lambda>(t, v). length v < 2 ^ 62) ts"
  shows "decode_fields hex (fields_bytes ts @ raw_tlv tag v @ rest) 0 f = decode_fields hex (fields_bytes ts @ rest) 0 f"
proof -
  have "decode_fields hex (raw_tlv tag v @ rest) 0 = decode_fields hex rest 0"
    using decode_fields_next [OF next_field_raw [OF assms(1,2)]] assms(3) by (simp add: fun_eq_iff)
  with decode_fields_bytes [OF assms(4)] show ?thesis by simp
qed

subsection \<open>Configurations\<close>

definition array_bytes :: "bytes list \<Rightarrow> bytes" where
  "array_bytes ss = concat (map (\<lambda>s. (case encode_varint (word_of_nat (length s)) of Inr l \<Rightarrow> l | Inl _ \<Rightarrow> []) @ s) ss)"

lemma encode_string_array_eq:
  "list_all (\<lambda>s. length s < 2 ^ 62) ss \<Longrightarrow> encode_string_array ss = Inr (array_bytes ss)"
proof (induction ss)
  case (Cons s ss)
  then obtain l where "encode_varint (word_of_nat (length s)) = Inr l"
    using encode_varint_total [of "word_of_nat (length s)"] by (auto simp: unat_u64)
  with Cons show ?case by (simp add: array_bytes_def)
qed (simp add: array_bytes_def)

lemma decode_array_bytes:
  assumes "list_all (\<lambda>s. length s < 2 ^ 62 \<and> valid_utf8 s) ss"
  shows "decode_string_array_from (pre @ array_bytes ss) (length pre) acc = Inr (acc @ ss)"
  using assms
proof (induction ss arbitrary: pre acc)
  case Nil
  then show ?case by (simp add: array_bytes_def decode_string_array_from.simps)
next
  case (Cons s ss)
  then obtain l where l: "encode_varint (word_of_nat (length s)) = Inr l"
    using encode_varint_total [of "word_of_nat (length s)"] by (auto simp: unat_u64)
  have "length l > 0" using l by (auto simp: encode_varint_cases split: if_splits)
  have b: "array_bytes (s # ss) = l @ s @ array_bytes ss" by (simp add: array_bytes_def l)
  have "decode_varint (pre @ l @ s @ array_bytes ss) (length pre) = Inr (word_of_nat (length s), length pre + length l)"
    by (rule decode_encode_varint [OF l])
  moreover have "decode_string s = Inr s" "unat (word_of_nat (length s) :: u64) = length s"
    using Cons.prems by (simp_all add: decode_string_def unat_u64)
  moreover have "decode_string_array_from (pre @ l @ s @ array_bytes ss) (length pre + length l + length s) (acc @ [s]) =
      Inr (acc @ s # ss)"
    using Cons.IH [of "pre @ l @ s" "acc @ [s]"] Cons.prems by (simp add: add.assoc)
  ultimately show ?case using \<open>length l > 0\<close> unfolding b
    by (subst decode_string_array_from.simps) simp
qed

text \<open>The fields of a configuration, in the order of the encoder.\<close>

definition opt_field :: "tlv_tag \<Rightarrow> bytes option \<Rightarrow> (tlv_tag \<times> bytes) list" where
  "opt_field t v = (case v of None \<Rightarrow> [] | Some x \<Rightarrow> [(t, x)])"

definition flag_field :: "tlv_tag \<Rightarrow> bool \<Rightarrow> u8 \<Rightarrow> (tlv_tag \<times> bytes) list" where
  "flag_field t b x = (if b then [(t, [x])] else [])"

definition effective_prefix :: "bytes option \<Rightarrow> bytes option" where
  "effective_prefix p = (if p = Some [] then None else p)"

definition fields_of :: "deep_link_config \<Rightarrow> (tlv_tag \<times> bytes) list" where
  "fields_of c =
     [(Version, [1]), (Hostname, dl_hostname c), (Username, dl_username c), (Password, dl_password c)] @
     map (Pair Address) (dl_addresses c) @
     opt_field ClientRandomPrefix (effective_prefix (dl_client_random_prefix c)) @
     opt_field CustomSni (dl_custom_sni c) @
     flag_field HasIpv6 (\<not> dl_has_ipv6 c) 0 @
     flag_field SkipVerification (dl_skip_verification c) 1 @
     flag_field AntiDpi (dl_anti_dpi c) 1 @
     opt_field Certificate (dl_certificate c) @
     flag_field UpstreamProtocol (dl_upstream_protocol c \<noteq> Http2) 2 @
     opt_field Name (dl_name c) @
     (if dl_dns_upstreams c = [] then [] else [(DnsUpstreams, array_bytes (dl_dns_upstreams c))])"

definition config_fits :: "deep_link_config \<Rightarrow> bool" where
  "config_fits c \<longleftrightarrow> list_all (\<lambda>(t, v). length v < 2 ^ 62) (fields_of c) \<and>
     list_all (\<lambda>s. length s < 2 ^ 62) (dl_dns_upstreams c)"

lemma extend_addresses_eq:
  "list_all (\<lambda>a. length a < 2 ^ 62) as \<Longrightarrow> extend_addresses p as = Inr (p @ fields_bytes (map (Pair Address) as))"
  by (induction as arbitrary: p) (simp_all add: extend_payload_def encode_string_field_def encode_tlv_eq)

lemma encode_tlv_payload_eq:
  assumes "validate c = Inr ()" and "config_fits c"
  shows "encode_tlv_payload c = Inr (fields_bytes (fields_of c))"
proof -
  have fits: "list_all (\<lambda>(t, v). length v < 2 ^ 62) (fields_of c)" and dns: "list_all (\<lambda>s. length s < 2 ^ 62) (dl_dns_upstreams c)"
    using assms(2) by (simp_all add: config_fits_def)
  have version: "encode_varint CURRENT_VERSION = Inr [1]" by (simp add: encode_varint_def CURRENT_VERSION_def)
  have tlvs: "extend_payload p (encode_tlv t v) = Inr (p @ tlv t v)" if "length v < 2 ^ 62" for p t v
    using that by (simp add: extend_payload_def encode_tlv_eq)
  have opts: "(case v of None \<Rightarrow> Inr p | Some x \<Rightarrow> extend_payload p (encode_tlv t x)) = Inr (p @ fields_bytes (opt_field t v))"
    if "list_all (\<lambda>(t, v). length v < 2 ^ 62) (opt_field t v)" for p t v
    using that by (cases v) (simp_all add: opt_field_def tlvs)
  have pfx: "(case v of None \<Rightarrow> Inr p | Some x \<Rightarrow> if x \<noteq> [] then extend_payload p (encode_tlv t x) else Inr p) =
      Inr (p @ fields_bytes (opt_field t (effective_prefix v)))"
    if "list_all (\<lambda>(t, v). length v < 2 ^ 62) (opt_field t (effective_prefix v))" for p t v
    using that by (cases v) (auto simp: opt_field_def effective_prefix_def tlvs)
  have sizes: "length (dl_hostname c) < 2 ^ 62" "length (dl_username c) < 2 ^ 62" "length (dl_password c) < 2 ^ 62"
    "list_all (\<lambda>a. length a < 2 ^ 62) (dl_addresses c)"
    "dl_dns_upstreams c \<noteq> [] \<Longrightarrow> length (array_bytes (dl_dns_upstreams c)) < 2 ^ 62"
    using fits by (auto simp: fields_of_def list_all_iff)
  have optional: "list_all (\<lambda>(t, v). length v < 2 ^ 62) (opt_field ClientRandomPrefix (effective_prefix (dl_client_random_prefix c)))"
    "list_all (\<lambda>(t, v). length v < 2 ^ 62) (opt_field CustomSni (dl_custom_sni c))"
    "list_all (\<lambda>(t, v). length v < 2 ^ 62) (opt_field Certificate (dl_certificate c))"
    "list_all (\<lambda>(t, v). length v < 2 ^ 62) (opt_field Name (dl_name c))"
    using fits by (simp_all add: fields_of_def)
  have protocol: "(if dl_upstream_protocol c \<noteq> Http2 then extend_payload p (encode_protocol_field (dl_upstream_protocol c)) else Inr p) =
      Inr (p @ fields_bytes (flag_field UpstreamProtocol (dl_upstream_protocol c \<noteq> Http2) 2))" for p
    by (cases "dl_upstream_protocol c") (simp_all add: encode_protocol_field_def flag_field_def tlvs)
  have bools: "(if b then extend_payload p (encode_bool_field t True) else Inr p) = Inr (p @ fields_bytes (flag_field t b 1))"
    "(if b then extend_payload p (encode_bool_field t False) else Inr p) = Inr (p @ fields_bytes (flag_field t b 0))" for b p t
    by (simp_all add: encode_bool_field_def flag_field_def tlvs)
  have array: "(if dl_dns_upstreams c \<noteq> [] then and_then (encode_string_array (dl_dns_upstreams c))
        (\<lambda>value. extend_payload p (encode_tlv DnsUpstreams value)) else Inr p) =
      Inr (p @ fields_bytes (if dl_dns_upstreams c = [] then [] else [(DnsUpstreams, array_bytes (dl_dns_upstreams c))]))" for p
    using dns sizes by (simp add: encode_string_array_eq tlvs)
  have version_tlv: "extend_payload p (encode_tlv Version [1]) = Inr (p @ fields_bytes [(Version, [1])])" for p
    by (simp add: tlvs)
  show ?thesis using assms(1) sizes
    by (simp only: encode_tlv_payload_def version and_then_simps version_tlv encode_string_field_def tlvs
        extend_addresses_eq pfx [OF optional(1)] opts [OF optional(2)] opts [OF optional(3)] opts [OF optional(4)]
        bools protocol array fields_of_def)
      (simp only: fields_bytes_simps append_assoc append_Nil append_Cons)
qed

text \<open>What a link can carry: UTF-8 strings, a prefix the decoder accepts, and fields whose length is a varint.\<close>

definition opt_all :: "('a \<Rightarrow> bool) \<Rightarrow> 'a option \<Rightarrow> bool" where
  "opt_all P v = (case v of None \<Rightarrow> True | Some x \<Rightarrow> P x)"

definition config_ok :: "hex_decoder \<Rightarrow> deep_link_config \<Rightarrow> bool" where
  "config_ok hex c \<longleftrightarrow> validate c = Inr () \<and> config_fits c \<and>
     valid_utf8 (dl_hostname c) \<and> valid_utf8 (dl_username c) \<and> valid_utf8 (dl_password c) \<and>
     list_all valid_utf8 (dl_addresses c) \<and> list_all valid_utf8 (dl_dns_upstreams c) \<and>
     opt_all valid_utf8 (dl_custom_sni c) \<and> opt_all valid_utf8 (dl_name c) \<and>
     opt_all (\<lambda>p. valid_utf8 p \<and> (p \<noteq> [] \<longrightarrow> check_prefix hex p = Inr ())) (dl_client_random_prefix c)"

lemma apply_addresses:
  "list_all valid_utf8 as \<Longrightarrow>
     apply_fields hex (map (Pair Address) as) f = Inr (f\<lparr>f_addresses := f_addresses f @ as\<rparr>)"
  by (induction as arbitrary: f) (simp_all add: apply_field_def decode_string_def)

lemma apply_flags:
  "apply_fields hex (flag_field HasIpv6 b 0) f = Inr (f\<lparr>f_has_ipv6 := (if b then False else f_has_ipv6 f)\<rparr>)"
  "apply_fields hex (flag_field SkipVerification b 1) f = Inr (f\<lparr>f_skip_verification := (b \<or> f_skip_verification f)\<rparr>)"
  "apply_fields hex (flag_field AntiDpi b 1) f = Inr (f\<lparr>f_anti_dpi := (b \<or> f_anti_dpi f)\<rparr>)"
  "apply_fields hex (flag_field UpstreamProtocol b 2) f =
     Inr (f\<lparr>f_upstream_protocol := (if b then Http3 else f_upstream_protocol f)\<rparr>)"
  by (simp_all add: flag_field_def apply_field_def decode_bool_def decode_protocol_def protocol_from_u8_def)

definition override :: "'a option \<Rightarrow> 'a option \<Rightarrow> 'a option" where
  "override old v = (case v of None \<Rightarrow> old | Some x \<Rightarrow> Some x)"

lemma apply_options:
  "opt_all (\<lambda>p. valid_utf8 p \<and> check_prefix hex p = Inr ()) v \<Longrightarrow>
     apply_fields hex (opt_field ClientRandomPrefix v) f =
       Inr (f\<lparr>f_client_random_prefix := override (f_client_random_prefix f) v\<rparr>)"
  "opt_all valid_utf8 v \<Longrightarrow> apply_fields hex (opt_field CustomSni v) f = Inr (f\<lparr>f_custom_sni := override (f_custom_sni f) v\<rparr>)"
  "opt_all valid_utf8 v \<Longrightarrow> apply_fields hex (opt_field Name v) f = Inr (f\<lparr>f_name := override (f_name f) v\<rparr>)"
  "apply_fields hex (opt_field Certificate v) f = Inr (f\<lparr>f_certificate := override (f_certificate f) v\<rparr>)"
  by (cases v; simp add: opt_field_def opt_all_def override_def apply_field_def decode_string_def)+

lemma apply_array:
  assumes "list_all valid_utf8 ss" and "list_all (\<lambda>s. length s < 2 ^ 62) ss" and "f_dns_upstreams f = []"
  shows "apply_fields hex (if ss = [] then [] else [(DnsUpstreams, array_bytes ss)]) f = Inr (f\<lparr>f_dns_upstreams := ss\<rparr>)"
proof -
  have "list_all (\<lambda>s. length s < 2 ^ 62 \<and> valid_utf8 s) ss" using assms(1,2) by (simp add: list_all_iff)
  from decode_array_bytes [OF this, of "[]" "[]"] have "decode_string_array (array_bytes ss) = Inr ss"
    by (simp add: decode_string_array_def)
  then show ?thesis using assms(3) by (simp add: apply_field_def)
qed

definition normalised :: "deep_link_config \<Rightarrow> deep_link_config" where
  "normalised c = c\<lparr>dl_client_random_prefix := effective_prefix (dl_client_random_prefix c)\<rparr>"

lemma decode_payload_fields:
  assumes "config_ok hex c"
  shows "decode_tlv_payload hex (fields_bytes (fields_of c)) = Inr (normalised c)"
proof -
  have ok: "valid_utf8 (dl_hostname c)" "valid_utf8 (dl_username c)" "valid_utf8 (dl_password c)"
    "list_all valid_utf8 (dl_addresses c)" "list_all valid_utf8 (dl_dns_upstreams c)"
    "list_all (\<lambda>s. length s < 2 ^ 62) (dl_dns_upstreams c)" "opt_all valid_utf8 (dl_custom_sni c)"
    "opt_all valid_utf8 (dl_name c)" "validate c = Inr ()" "list_all (\<lambda>(t, v). length v < 2 ^ 62) (fields_of c)"
    using assms by (simp_all add: config_ok_def config_fits_def)
  have pfx: "opt_all (\<lambda>p. valid_utf8 p \<and> check_prefix hex p = Inr ()) (effective_prefix (dl_client_random_prefix c))"
    using assms by (auto simp: config_ok_def opt_all_def effective_prefix_def split: option.splits)
  have version: "apply_field hex Version [1] f = Inr f" for f
    by (simp add: apply_field_def decode_varint_def map_err_def CURRENT_VERSION_def)
  have required: "apply_field hex Hostname (dl_hostname c) f = Inr (f\<lparr>f_hostname := Some (dl_hostname c)\<rparr>)"
    "apply_field hex Username (dl_username c) f = Inr (f\<lparr>f_username := Some (dl_username c)\<rparr>)"
    "apply_field hex Password (dl_password c) f = Inr (f\<lparr>f_password := Some (dl_password c)\<rparr>)" for f
    using ok by (simp_all add: apply_field_def decode_string_def)
  define g where "g = \<lparr>f_hostname = Some (dl_hostname c), f_addresses = dl_addresses c, f_username = Some (dl_username c),
      f_password = Some (dl_password c), f_custom_sni = dl_custom_sni c, f_has_ipv6 = dl_has_ipv6 c,
      f_skip_verification = dl_skip_verification c, f_certificate = dl_certificate c,
      f_upstream_protocol = dl_upstream_protocol c, f_anti_dpi = dl_anti_dpi c,
      f_client_random_prefix = effective_prefix (dl_client_random_prefix c), f_name = dl_name c,
      f_dns_upstreams = dl_dns_upstreams c\<rparr>"
  have none: "override None v = v" for v :: "bytes option" by (simp add: override_def split: option.split)
  have http3: "dl_upstream_protocol c \<noteq> Http2 \<longrightarrow> Http3 = dl_upstream_protocol c"
    by (cases "dl_upstream_protocol c") simp_all
  have "apply_fields hex (fields_of c) dl_defaults = Inr g"
    using ok(1-8) pfx http3 unfolding fields_of_def g_def
    by (simp add: apply_fields_append version required apply_addresses apply_options apply_flags apply_array
        dl_defaults_def none)
  then have "decode_fields hex (fields_bytes (fields_of c)) 0 dl_defaults = Inr g"
    using decode_fields_bytes [OF ok(10), of hex "[]" dl_defaults]
    by (simp add: decode_fields.simps [of hex "[]"] next_field_def)
  moreover have "validate (normalised c) = Inr ()" "dl_addresses c \<noteq> []"
    using ok(9) by (auto simp: validate_def normalised_def split: if_splits)
  ultimately show ?thesis
    by (cases c) (simp add: decode_tlv_payload_def g_def ok_or_def Let_def normalised_def)
qed

lemma strip_scheme:
  "starts_with SCHEME (PREFIX @ x)" "strip_prefix PREFIX (PREFIX @ x) = Some x"
  by (simp_all add: starts_with_def strip_prefix_def PREFIX_def SCHEME_def)

subsection \<open>What a decoded configuration satisfies\<close>

definition fields_ok :: "hex_decoder \<Rightarrow> dl_fields \<Rightarrow> bool" where
  "fields_ok hex f \<longleftrightarrow> opt_all valid_utf8 (f_hostname f) \<and> opt_all valid_utf8 (f_username f) \<and>
     opt_all valid_utf8 (f_password f) \<and> list_all valid_utf8 (f_addresses f) \<and>
     list_all valid_utf8 (f_dns_upstreams f) \<and> opt_all valid_utf8 (f_custom_sni f) \<and>
     opt_all valid_utf8 (f_name f) \<and>
     opt_all (\<lambda>p. valid_utf8 p \<and> check_prefix hex p = Inr ()) (f_client_random_prefix f)"

lemma and_then_Inr: "and_then r k = Inr y \<longleftrightarrow> (\<exists>x. r = Inr x \<and> k x = Inr y)"
  by (cases r) simp_all

lemma decode_string_Inr: "decode_string s = Inr t \<longleftrightarrow> t = s \<and> valid_utf8 s"
  by (auto simp: decode_string_def)

lemma decoded_array_utf8:
  "decode_string_array_from data offset acc = Inr ss \<Longrightarrow> list_all valid_utf8 acc \<Longrightarrow> list_all valid_utf8 ss"
proof (induction data offset acc rule: decode_string_array_from.induct)
  case (1 data offset acc)
  then show ?case
    by (auto simp: decode_string_array_from.simps [of data offset acc] and_then_Inr decode_string_Inr Let_def
        split: if_splits sum.splits)
qed

lemma apply_field_ok: "apply_field hex t v f = Inr g \<Longrightarrow> fields_ok hex f \<Longrightarrow> fields_ok hex g"
  using decoded_array_utf8 [of v 0 "[]"]
  by (cases t) (auto simp: apply_field_def and_then_Inr decode_string_Inr fields_ok_def opt_all_def
      decode_string_array_def split: if_splits)

lemma decode_fields_ok: "decode_fields hex data offset f = Inr g \<Longrightarrow> fields_ok hex f \<Longrightarrow> fields_ok hex g"
proof (induction hex data offset f rule: decode_fields.induct)
  case (1 hex data offset f)
  show ?case
  proof (cases "next_field data offset")
    case None
    with 1(3,4) show ?thesis by (simp add: decode_fields.simps)
  next
    case (Some p)
    obtain r n where p: "p = (r, n)" by (cases p)
    with Some 1(3) obtain q where r: "r = Inr q" by (cases r) (simp_all add: decode_fields.simps)
    obtain t v where q: "q = (t, v)" by (cases q)
    note hyps = Some p [symmetric] r q [symmetric]
    show ?thesis
    proof (cases t)
      case None
      with 1(1) [OF hyps None] 1(3,4) Some p r q show ?thesis by (simp add: decode_fields.simps [of hex data offset])
    next
      case (Some tag)
      with 1(3) hyps obtain h where "apply_field hex tag v f = Inr h" "decode_fields hex data n h = Inr g"
        by (auto simp: decode_fields.simps [of hex data offset] and_then_Inr)
      with 1(2) [OF hyps Some] apply_field_ok 1(4) show ?thesis by blast
    qed
  qed
qed

lemma decoded_payload_ok:
  assumes "decode_tlv_payload hex payload = Inr c"
  shows "validate c = Inr ()" and "config_fits c \<Longrightarrow> config_ok hex c"
proof -
  from assms obtain f where f: "decode_fields hex payload 0 dl_defaults = Inr f" and v: "validate c = Inr ()"
    and c: "f_hostname f = Some (dl_hostname c)" "f_username f = Some (dl_username c)" "f_password f = Some (dl_password c)"
      "dl_addresses c = f_addresses f" "dl_dns_upstreams c = f_dns_upstreams f" "dl_custom_sni c = f_custom_sni f"
      "dl_name c = f_name f" "dl_client_random_prefix c = f_client_random_prefix f"
    by (auto simp: decode_tlv_payload_def and_then_Inr ok_or_def Let_def split: option.splits if_splits)
  have "fields_ok hex f" by (rule decode_fields_ok [OF f]) (simp add: fields_ok_def dl_defaults_def opt_all_def)
  with v c show "config_fits c \<Longrightarrow> config_ok hex c"
    by (auto simp: fields_ok_def config_ok_def opt_all_def split: option.splits)
  show "validate c = Inr ()" by (rule v)
qed

lemma encode_decode:
  assumes "\<And>x. b64_decode (b64_encode x) = Inr x" and "config_ok hex c"
  shows "\<exists>uri. encode b64_encode c = Inr uri \<and> decode b64_decode hex uri = Inr (normalised c)"
  using assms encode_tlv_payload_eq [of c] decode_payload_fields [OF assms(2)]
  by (simp add: encode_def decode_def strip_scheme ok_or_def map_err_def config_ok_def)

subsection \<open>The builder\<close>

text \<open>A builder whose setters have been called with the fields of a configuration.\<close>

definition builder_for :: "deep_link_config \<Rightarrow> deep_link_config_builder" where
  "builder_for c =
     set_hostname (dl_hostname c) (set_addresses (dl_addresses c) (set_username (dl_username c)
     (set_password (dl_password c) (set_custom_sni (dl_custom_sni c) (set_has_ipv6 (dl_has_ipv6 c)
     (set_skip_verification (dl_skip_verification c) (set_certificate (dl_certificate c)
     (set_upstream_protocol (dl_upstream_protocol c) (set_anti_dpi (dl_anti_dpi c)
     (set_client_random_prefix (dl_client_random_prefix c) (set_name (dl_name c)
     (set_dns_upstreams (dl_dns_upstreams c) builder))))))))))))"

lemmas builder_setters = set_hostname_def set_addresses_def set_username_def set_password_def set_custom_sni_def
  set_has_ipv6_def set_skip_verification_def set_certificate_def set_upstream_protocol_def set_anti_dpi_def
  set_client_random_prefix_def set_name_def set_dns_upstreams_def builder_def

text \<open>The builder gives that configuration back if it is valid and its prefix has no mask.\<close>

lemma build_builder_for:
  assumes "validate c = Inr ()" and "opt_all (\<lambda>p. p \<noteq> [] \<longrightarrow> (\<exists>b. hex p = Inr b)) (dl_client_random_prefix c)"
  shows "build hex (builder_for c) = Inr c"
proof -
  have "(case dl_client_random_prefix c of None \<Rightarrow> Inr () | Some p \<Rightarrow>
      if p \<noteq> [] then check_hex hex ''client_random_prefix'' p else Inr ()) = Inr ()"
    using assms(2) by (auto simp: opt_all_def check_hex_def map_err_def split: option.splits)
  then show ?thesis using assms(1)
    by (cases c) (simp add: build_def builder_for_def builder_setters ok_or_def unwrap_or_def Let_def)
qed

subsection \<open>Properties\<close>

text \<open>A configuration with an optional field of every kind, and crates that stand in for the real ones.\<close>

definition sample_link_config :: deep_link_config where
  "sample_link_config = \<lparr>dl_hostname = [118, 112, 110], dl_addresses = [[49, 46, 49], [50]], dl_username = [97],
     dl_password = [98], dl_client_random_prefix = Some [97, 97, 47, 102, 48], dl_custom_sni = Some [120],
     dl_has_ipv6 = False, dl_skip_verification = False, dl_certificate = Some [0x30, 0xFF], dl_upstream_protocol = Http3,
     dl_anti_dpi = True, dl_name = None, dl_dns_upstreams = [[49], [50, 51]]\<rparr>"

definition accept_hex :: hex_decoder where
  "accept_hex s = Inr s"

lemma sample_link_config_ok: "config_ok accept_hex sample_link_config"
  by (simp add: config_ok_def sample_link_config_def validate_def config_fits_def fields_of_def opt_field_def
      flag_field_def effective_prefix_def array_bytes_def encode_varint_def opt_all_def check_prefix_def
      check_hex_def map_err_def unwrap_or_def accept_hex_def)

text \<open>
  (C7) A configuration survives the deep link: for every valid configuration of UTF-8 strings whose client
  random prefix the decoder accepts and whose fields have lengths below 2^62, encoding succeeds, and
  decoding the link gives back the configuration, with an empty client random prefix read as none. The
  base64 engine is any pair of functions whose decoder inverts the encoder.
\<close>

theorem deep_link_roundtrip:
  assumes "\<And>x. b64_decode (b64_encode x) = Inr x" and "config_ok hex c"
  shows "\<exists>uri. encode b64_encode c = Inr uri \<and>
    decode b64_decode hex uri =
      Inr (c\<lparr>dl_client_random_prefix :=
        (if dl_client_random_prefix c = Some [] then None else dl_client_random_prefix c)\<rparr>)"
  using encode_decode [of b64_decode b64_encode hex c] assms by (simp add: normalised_def effective_prefix_def)

theorem deep_link_roundtrip_witness:
  "config_ok accept_hex sample_link_config \<and>
   (\<exists>uri. encode (\<lambda>x. rev x) sample_link_config = Inr uri \<and>
      decode (\<lambda>x. Inr (rev x)) accept_hex uri = Inr sample_link_config)"
  using deep_link_roundtrip [of "\<lambda>x. Inr (rev x)" "\<lambda>x. rev x" accept_hex sample_link_config] sample_link_config_ok
  by (simp add: sample_link_config_def)

text \<open>
  Variable-length integers: a value below 2^62 is written in 1, 2, 4 or 8 bytes, the fewest whose
  14, 30 or 62 value bits suffice, and is read back at any offset with the offset behind it, whatever
  follows; a value from 2^62 on is refused.
\<close>

theorem varint_roundtrip:
  "(unat v < 2 ^ 62 \<longrightarrow>
     (\<exists>bs. encode_varint v = Inr bs \<and>
       length bs = (if unat v < 2 ^ 6 then 1 else if unat v < 2 ^ 14 then 2 else if unat v < 2 ^ 30 then 4 else 8) \<and>
       decode_varint (pre @ bs @ rest) (length pre) = Inr (v, length pre + length bs))) \<and>
   (2 ^ 62 \<le> unat v \<longrightarrow> encode_varint v = Inl (VarintOverflow v))"
proof (intro conjI impI)
  assume v: "unat v < 2 ^ 62"
  then obtain bs where bs: "encode_varint v = Inr bs" using encode_varint_total by blast
  moreover have "length bs = (if unat v < 2 ^ 6 then 1 else if unat v < 2 ^ 14 then 2 else if unat v < 2 ^ 30 then 4 else 8)"
    using bs v by (auto simp: encode_varint_cases split: if_splits)
  ultimately show "\<exists>bs. encode_varint v = Inr bs \<and>
       length bs = (if unat v < 2 ^ 6 then 1 else if unat v < 2 ^ 14 then 2 else if unat v < 2 ^ 30 then 4 else 8) \<and>
       decode_varint (pre @ bs @ rest) (length pre) = Inr (v, length pre + length bs)"
    using decode_encode_varint [OF bs, of pre rest] by blast
qed (simp add: encode_varint_cases)

theorem varint_roundtrip_witness:
  "\<exists>bs. encode_varint 1000 = Inr bs \<and> length bs = 2 \<and> decode_varint ([7] @ bs @ [9]) 1 = Inr (1000, 3)"
  using varint_roundtrip [of 1000 "[7]" "[9]"] by auto

text \<open>
  Forward compatibility: a field whose tag number is not one of the fourteen known tags modulo 256,
  put between the fields of a payload, does not change what the payload decodes to.
\<close>

theorem unknown_tags_ignored:
  assumes "list_all (\<lambda>(t, v). length v < 2 ^ 62) ts" and "length v < 2 ^ 62" and "unat tag < 2 ^ 62"
    and "tag_from_u8 (ucast tag) = None"
  shows "decode_tlv_payload hex (fields_bytes ts @ raw_tlv tag v @ rest) = decode_tlv_payload hex (fields_bytes ts @ rest)"
  unfolding decode_tlv_payload_def unknown_field_ignored [OF assms(2-4,1)] ..

theorem unknown_tags_ignored_witness:
  "decode_tlv_payload accept_hex (fields_bytes [(Hostname, [97])] @ raw_tlv 14 [1, 2] @ fields_bytes [(Username, [98])]) =
   decode_tlv_payload accept_hex (fields_bytes [(Hostname, [97])] @ fields_bytes [(Username, [98])])"
  using unknown_tags_ignored [of "[(Hostname, [97])]" "[1, 2]" 14 accept_hex "fields_bytes [(Username, [98])]"]
  by (simp add: tag_from_u8_def)

text \<open>
  (C26) Whatever the bytes of a link, a configuration decoded from it has a host name, an address, a user
  name and a password, all its strings are UTF-8, and its client random prefix and mask are hexadecimal;
  so that, when its fields have lengths below 2^62, it can be encoded again and decodes to itself (with an
  empty prefix read as none).
\<close>

theorem decoded_config_valid:
  assumes "decode b64_decode hex uri = Inr c"
  shows "dl_hostname c \<noteq> [] \<and> dl_addresses c \<noteq> [] \<and> dl_username c \<noteq> [] \<and> dl_password c \<noteq> [] \<and>
    (config_fits c \<longrightarrow> config_ok hex c \<and>
      (\<forall>b64_encode. (\<forall>x. b64_decode (b64_encode x) = Inr x) \<longrightarrow>
        (\<exists>uri. encode b64_encode c = Inr uri \<and>
           decode b64_decode hex uri = Inr (c\<lparr>dl_client_random_prefix := effective_prefix (dl_client_random_prefix c)\<rparr>))))"
proof -
  from assms obtain payload where "decode_tlv_payload hex payload = Inr c"
    by (auto simp: decode_def and_then_Inr split: if_splits)
  note ok = decoded_payload_ok [OF this]
  have "dl_hostname c \<noteq> [] \<and> dl_addresses c \<noteq> [] \<and> dl_username c \<noteq> [] \<and> dl_password c \<noteq> []"
    using ok(1) by (auto simp: validate_def split: if_splits)
  with ok(2) encode_decode show ?thesis by (fastforce simp: normalised_def)
qed

theorem decoded_config_valid_witness:
  "\<exists>uri. decode (\<lambda>x. Inr x) accept_hex uri = Inr sample_link_config \<and> dl_hostname sample_link_config \<noteq> []"
proof -
  obtain uri where "decode (\<lambda>x. Inr x) accept_hex uri = Inr (normalised sample_link_config)"
    using encode_decode [of "\<lambda>x. Inr x" "\<lambda>x. x" accept_hex sample_link_config] sample_link_config_ok by auto
  then have "decode (\<lambda>x. Inr x) accept_hex uri = Inr sample_link_config"
    by (simp add: normalised_def effective_prefix_def sample_link_config_def)
  with decoded_config_valid [OF this] show ?thesis by blast
qed

end
