(* ===== verification/Icmp_Mux.thy ===== *)
theory Icmp_Mux
  imports Wire_Utils
begin

section \<open>ICMP multiplexer of the client (\<^verbatim>\<open>core/src/http_icmp_multiplexer.{h,cpp}\<close>)\<close>

text \<open>
  The client's half of the ICMP tunnel: echo requests are written to one HTTP stream in packets of 23
  bytes, replies are read from it in packets of 22 bytes. Calls of the three callbacks and events for the
  upstream's handler are appended to \<open>im_out\<close>; the results of the callbacks are arguments. The handler does
  not call back into the multiplexer. A failed assertion, and \<^verbatim>\<open>value()\<close> of an empty optional, set
  the ghost flag \<open>im_asserted\<close>.
\<close>

subsection \<open>State\<close>

definition ICMPPKT_ID_SIZE :: nat where "ICMPPKT_ID_SIZE = 2"
definition ICMPPKT_ADDR_SIZE :: nat where "ICMPPKT_ADDR_SIZE = 16"
definition ICMPPKT_SEQNO_SIZE :: nat where "ICMPPKT_SEQNO_SIZE = 2"
definition ICMPPKT_TTL_SIZE :: nat where "ICMPPKT_TTL_SIZE = 1"
definition ICMPPKT_DATA_SIZE :: nat where "ICMPPKT_DATA_SIZE = 2"
definition ICMPPKT_TYPE_SIZE :: nat where "ICMPPKT_TYPE_SIZE = 1"
definition ICMPPKT_CODE_SIZE :: nat where "ICMPPKT_CODE_SIZE = 1"
definition ICMPPKT_REQ_SIZE :: nat where
  "ICMPPKT_REQ_SIZE = ICMPPKT_ID_SIZE + ICMPPKT_ADDR_SIZE + ICMPPKT_SEQNO_SIZE + ICMPPKT_TTL_SIZE + ICMPPKT_DATA_SIZE"
definition ICMPPKT_REPLY_SIZE :: nat where
  "ICMPPKT_REPLY_SIZE = ICMPPKT_ID_SIZE + ICMPPKT_ADDR_SIZE + ICMPPKT_TYPE_SIZE + ICMPPKT_CODE_SIZE + ICMPPKT_SEQNO_SIZE"

lemmas icmppkt_sizes [simp] =
  ICMPPKT_ID_SIZE_def ICMPPKT_ADDR_SIZE_def ICMPPKT_SEQNO_SIZE_def ICMPPKT_TTL_SIZE_def ICMPPKT_DATA_SIZE_def
  ICMPPKT_TYPE_SIZE_def ICMPPKT_CODE_SIZE_def ICMPPKT_REQ_SIZE_def ICMPPKT_REPLY_SIZE_def

record icmp_echo_request =
  rq_peer :: socket_address
  rq_id :: u16
  rq_seqno :: u16
  rq_ttl :: u8
  rq_data_size :: u16

record icmp_echo_reply =
  rp_peer :: socket_address
  rp_id :: u16
  rp_seqno :: u16
  rp_type :: u8
  rp_code :: u8

datatype icmp_mux_state = MS_IDLE | MS_ESTABLISHED

datatype icmp_effect =
    IcmpConnectRequest tunnel_address string
  | IcmpSendData u64 bytes
  | IcmpConsume u64 nat
  | SERVER_EVENT_ECHO_REPLY icmp_echo_reply

record icmp_mux =
  im_state :: icmp_mux_state
  im_stream_id :: "u64 option"
  im_reply_buffer :: bytes
  im_out :: "icmp_effect list"
  im_asserted :: bool

definition new_icmp_mux :: icmp_mux where
  "new_icmp_mux = \<lparr>im_state = MS_IDLE, im_stream_id = None, im_reply_buffer = [], im_out = [], im_asserted = False\<rparr>"

definition icmp_emit :: "icmp_effect \<Rightarrow> icmp_mux \<Rightarrow> icmp_mux" where
  "icmp_emit e m = m\<lparr>im_out := im_out m @ [e]\<rparr>"

definition icmp_assert :: "bool \<Rightarrow> icmp_mux \<Rightarrow> icmp_mux" where
  "icmp_assert b m = (if b then m else m\<lparr>im_asserted := True\<rparr>)"

subsection \<open>Requests\<close>

definition icmp_close :: "icmp_mux \<Rightarrow> icmp_mux" where
  "icmp_close m = m\<lparr>im_state := MS_IDLE, im_stream_id := None, im_reply_buffer := []\<rparr>"

definition compose_icmp_request :: "icmp_echo_request \<Rightarrow> bytes option" where
  "compose_icmp_request request = do {
     w \<leftarrow> put_u16 (rq_id request) (Writer (replicate ICMPPKT_REQ_SIZE 0) 0);
     w \<leftarrow> put_ip_padded (rq_peer request) w;
     w \<leftarrow> put_u16 (rq_seqno request) w;
     w \<leftarrow> put_u8 (rq_ttl request) w;
     w \<leftarrow> put_u16 (rq_data_size request) w;
     Some (wr_buffer w)
   }"

text \<open>\<open>r\<close> is the result of the callback that sends data.\<close>

definition send_request_established :: "int \<Rightarrow> icmp_echo_request \<Rightarrow> icmp_mux \<Rightarrow> bool \<times> icmp_mux" where
  "send_request_established r request m =
     (case (compose_icmp_request request, im_stream_id m) of
        (Some packet, Some i) \<Rightarrow> (r = 0, icmp_emit (IcmpSendData i packet) m)
      | _ \<Rightarrow> (False, icmp_assert False m))"

text \<open>\<open>stream\<close> is the result of the callback that sends the connect request.\<close>

definition icmp_send_request :: "u64 option \<Rightarrow> int \<Rightarrow> icmp_echo_request \<Rightarrow> icmp_mux \<Rightarrow> bool \<times> icmp_mux" where
  "icmp_send_request stream r request m =
     (case im_state m of
        MS_IDLE \<Rightarrow>
          let m = icmp_assert (im_stream_id m = None) m;
              m = icmp_emit (IcmpConnectRequest (NameDst (NamePort ''_icmp'' 0)) ''_icmp'') m;
              m = m\<lparr>im_stream_id := stream\<rparr>
          in if stream = None then (False, m)
             else send_request_established r request (m\<lparr>im_state := MS_ESTABLISHED\<rparr>)
      | MS_ESTABLISHED \<Rightarrow> send_request_established r request m)"

definition icmp_handle_response :: "icmp_mux \<Rightarrow> icmp_mux" where
  "icmp_handle_response m = icmp_assert (im_state m = MS_ESTABLISHED) m"

subsection \<open>Replies\<close>

definition read_icmp_reply :: "bytes \<Rightarrow> icmp_echo_reply option" where
  "read_icmp_reply r = do {
     (i, r) \<leftarrow> get_u16 r;
     (peer, r) \<leftarrow> get_ip_padded r;
     (t, r) \<leftarrow> get_u8 r;
     (c, r) \<leftarrow> get_u8 r;
     (seqno, r) \<leftarrow> get_u16 r;
     Some \<lparr>rp_peer = peer, rp_id = i, rp_seqno = seqno, rp_type = t, rp_code = c\<rparr>
   }"

definition report_icmp_reply :: "bytes \<Rightarrow> icmp_mux \<Rightarrow> icmp_mux" where
  "report_icmp_reply raw_reply m =
     (case read_icmp_reply raw_reply of
        None \<Rightarrow> icmp_assert False m
      | Some reply \<Rightarrow> (icmp_emit (SERVER_EVENT_ECHO_REPLY reply) m)\<lparr>im_reply_buffer := []\<rparr>)"

definition process_reply_chunk :: "bytes \<Rightarrow> icmp_mux \<Rightarrow> bytes \<times> icmp_mux" where
  "process_reply_chunk data m =
     (if im_reply_buffer m = [] \<and> length data \<ge> ICMPPKT_REPLY_SIZE
      then (drop ICMPPKT_REPLY_SIZE data, report_icmp_reply (take ICMPPKT_REPLY_SIZE data) m)
      else
        let to_read = min (length data) (ICMPPKT_REPLY_SIZE - length (im_reply_buffer m));
            m = m\<lparr>im_reply_buffer := im_reply_buffer m @ take to_read data\<rparr>;
            data = drop to_read data
        in if length (im_reply_buffer m) < ICMPPKT_REPLY_SIZE then (data, m)
           else
             let m = icmp_assert (length (im_reply_buffer m) = ICMPPKT_REPLY_SIZE) m
             in (data, report_icmp_reply (im_reply_buffer m) m))"

text \<open>
  The loop over a chunk; \<open>None\<close> is a loop that does not end, which needs a step that consumes nothing.
\<close>

partial_function (option) process_replies :: "bytes \<Rightarrow> icmp_mux \<Rightarrow> icmp_mux option" where
  "process_replies data m =
     (if data = [] then Some m
      else process_replies (fst (process_reply_chunk data m)) (snd (process_reply_chunk data m)))"

definition icmp_process_read_event :: "bytes \<Rightarrow> icmp_mux \<Rightarrow> icmp_mux option" where
  "icmp_process_read_event data m =
     (let m = icmp_assert (im_state m = MS_ESTABLISHED) m
      in case process_replies data m of
           None \<Rightarrow> None
         | Some m \<Rightarrow>
             Some (case im_stream_id m of
                     None \<Rightarrow> icmp_assert False m
                   | Some i \<Rightarrow> icmp_emit (IcmpConsume i (length data)) m))"

end
