(* ===== verification/Icmp_Message.thy ===== *)
theory Icmp_Message
  imports Endpoint_Net
begin

section \<open>ICMP messages of the endpoint (\<^verbatim>\<open>lib/src/icmp_utils.rs\<close>)\<close>

text \<open>
  The ICMP and ICMPv6 messages the endpoint exchanges with the network: their types, the parser, the
  serializer of echo requests and the extraction of the request that a reply or an error message answers.
  A message variant with its struct is one constructor with the fields of the struct, first the code.
\<close>

subsection \<open>Sizes\<close>

definition TYPE_SIZE :: nat where "TYPE_SIZE = 1"
definition CODE_SIZE :: nat where "CODE_SIZE = 1"
definition CHECKSUM_SIZE :: nat where "CHECKSUM_SIZE = 2"
definition ICMP_ID_SIZE :: nat where "ICMP_ID_SIZE = 2"
definition ICMP_SEQNO_SIZE :: nat where "ICMP_SEQNO_SIZE = 2"
definition ICMP_MIN_COMMON_HEADER_SIZE :: nat where
  "ICMP_MIN_COMMON_HEADER_SIZE = TYPE_SIZE + CODE_SIZE + CHECKSUM_SIZE + 4"
definition ICMP_V4_MIN_MATCHING_DATA_SIZE :: nat where
  "ICMP_V4_MIN_MATCHING_DATA_SIZE = MIN_IPV4_HEADER_SIZE + ICMP_MIN_COMMON_HEADER_SIZE"
definition ECHO_HEADER_SIZE :: nat where
  "ECHO_HEADER_SIZE = TYPE_SIZE + CODE_SIZE + CHECKSUM_SIZE + ICMP_ID_SIZE + ICMP_SEQNO_SIZE"

lemmas icmp_sizes = TYPE_SIZE_def CODE_SIZE_def CHECKSUM_SIZE_def ICMP_ID_SIZE_def ICMP_SEQNO_SIZE_def
  ICMP_MIN_COMMON_HEADER_SIZE_def ICMP_V4_MIN_MATCHING_DATA_SIZE_def ECHO_HEADER_SIZE_def ip_header_sizes

subsection \<open>Messages\<close>

record echo =
  ec_code :: u8
  ec_identifier :: u16
  ec_sequence_number :: u16
  ec_data :: bytes

datatype v4_message =
    V4DestinationUnreachable u8 bytes
  | V4TimeExceeded u8 bytes
  | V4ParameterProblem u8 u8 bytes
  | V4SourceQuench u8 bytes
  | V4Redirect u8 u32 bytes
  | V4Echo echo
  | V4EchoReply echo
  | V4Timestamp u8 u16 u16 u32 u32 u32
  | V4TimestampReply u8 u16 u16 u32 u32 u32
  | V4InformationRequest u8 u16 u16
  | V4InformationReply u8 u16 u16

datatype v6_message =
    V6DestinationUnreachable u8 bytes
  | V6PacketTooBig u8 u32 bytes
  | V6TimeExceeded u8 bytes
  | V6ParameterProblem u8 u32 bytes
  | V6EchoRequest echo
  | V6EchoReply echo

datatype icmp_message = V4 v4_message | V6 v6_message

datatype deserialize_error =
    InvalidLength nat nat
  | EmptyPacket
  | MessageType u8
  | DestinationUnreachableCode u8
  | TimeExceededCode u8

text \<open>Two echos are equal if they have the same numbers and the data of one begins with the data of the other.\<close>

definition echo_eq :: "echo \<Rightarrow> echo \<Rightarrow> bool" where
  "echo_eq a b \<longleftrightarrow>
     (if ec_identifier a \<noteq> ec_identifier b \<or> ec_sequence_number a \<noteq> ec_sequence_number b then False
      else if length (ec_data a) \<ge> length (ec_data b) then take (length (ec_data b)) (ec_data a) = ec_data b
      else take (length (ec_data a)) (ec_data b) = ec_data a)"

definition echo_serialize :: "u8 \<Rightarrow> echo \<Rightarrow> bytes" where
  "echo_serialize type_id e =
     (let packet = [type_id, 0] @ u16_be 0 @ u16_be (ec_identifier e) @ u16_be (ec_sequence_number e) @ ec_data e
      in take 2 packet @ u16_be (rfc1071_checksum packet) @ drop 4 packet)"

subsection \<open>Attributes\<close>

primrec v4_type_id :: "v4_message \<Rightarrow> u8" where
  "v4_type_id (V4DestinationUnreachable c d) = 3"
| "v4_type_id (V4TimeExceeded c d) = 11"
| "v4_type_id (V4ParameterProblem c p d) = 12"
| "v4_type_id (V4SourceQuench c d) = 4"
| "v4_type_id (V4Redirect c g d) = 5"
| "v4_type_id (V4Echo e) = 8"
| "v4_type_id (V4EchoReply e) = 0"
| "v4_type_id (V4Timestamp c i s a b d) = 13"
| "v4_type_id (V4TimestampReply c i s a b d) = 14"
| "v4_type_id (V4InformationRequest c i s) = 15"
| "v4_type_id (V4InformationReply c i s) = 16"

primrec v4_code :: "v4_message \<Rightarrow> u8" where
  "v4_code (V4DestinationUnreachable c d) = c"
| "v4_code (V4TimeExceeded c d) = c"
| "v4_code (V4ParameterProblem c p d) = c"
| "v4_code (V4SourceQuench c d) = c"
| "v4_code (V4Redirect c g d) = c"
| "v4_code (V4Echo e) = ec_code e"
| "v4_code (V4EchoReply e) = ec_code e"
| "v4_code (V4Timestamp c i s a b d) = c"
| "v4_code (V4TimestampReply c i s a b d) = c"
| "v4_code (V4InformationRequest c i s) = c"
| "v4_code (V4InformationReply c i s) = c"

definition v4_len :: "v4_message \<Rightarrow> nat" where
  "v4_len m = ICMP_MIN_COMMON_HEADER_SIZE +
     (case m of
        V4DestinationUnreachable c d \<Rightarrow> length d
      | V4TimeExceeded c d \<Rightarrow> length d
      | V4ParameterProblem c p d \<Rightarrow> length d
      | V4SourceQuench c d \<Rightarrow> length d
      | V4Redirect c g d \<Rightarrow> length d
      | V4Echo e \<Rightarrow> length (ec_data e)
      | V4EchoReply e \<Rightarrow> length (ec_data e)
      | V4Timestamp c i s a b d \<Rightarrow> 4 + 4 + 4
      | V4TimestampReply c i s a b d \<Rightarrow> 4 + 4 + 4
      | V4InformationRequest c i s \<Rightarrow> 0
      | V4InformationReply c i s \<Rightarrow> 0)"

primrec v6_type_id :: "v6_message \<Rightarrow> u8" where
  "v6_type_id (V6DestinationUnreachable c d) = 1"
| "v6_type_id (V6PacketTooBig c m d) = 2"
| "v6_type_id (V6TimeExceeded c d) = 3"
| "v6_type_id (V6ParameterProblem c p d) = 4"
| "v6_type_id (V6EchoRequest e) = 128"
| "v6_type_id (V6EchoReply e) = 129"

primrec v6_code :: "v6_message \<Rightarrow> u8" where
  "v6_code (V6DestinationUnreachable c d) = c"
| "v6_code (V6PacketTooBig c m d) = c"
| "v6_code (V6TimeExceeded c d) = c"
| "v6_code (V6ParameterProblem c p d) = c"
| "v6_code (V6EchoRequest e) = ec_code e"
| "v6_code (V6EchoReply e) = ec_code e"

definition v6_len :: "v6_message \<Rightarrow> nat" where
  "v6_len m = ICMP_MIN_COMMON_HEADER_SIZE +
     (case m of
        V6DestinationUnreachable c d \<Rightarrow> length d
      | V6PacketTooBig c m d \<Rightarrow> length d
      | V6TimeExceeded c d \<Rightarrow> length d
      | V6ParameterProblem c p d \<Rightarrow> length d
      | V6EchoRequest e \<Rightarrow> length (ec_data e)
      | V6EchoReply e \<Rightarrow> length (ec_data e))"

definition icmp_type_id :: "icmp_message \<Rightarrow> u8" where
  "icmp_type_id m = (case m of V4 x \<Rightarrow> v4_type_id x | V6 x \<Rightarrow> v6_type_id x)"

definition icmp_code :: "icmp_message \<Rightarrow> u8" where
  "icmp_code m = (case m of V4 x \<Rightarrow> v4_code x | V6 x \<Rightarrow> v6_code x)"

definition icmp_len :: "icmp_message \<Rightarrow> nat" where
  "icmp_len m = (case m of V4 x \<Rightarrow> v4_len x | V6 x \<Rightarrow> v6_len x)"

definition to_echo :: "icmp_message \<Rightarrow> echo option" where
  "to_echo m =
     (case m of
        V4 (V4Echo x) \<Rightarrow> Some x
      | V4 (V4EchoReply x) \<Rightarrow> Some x
      | V6 (V6EchoRequest x) \<Rightarrow> Some x
      | V6 (V6EchoReply x) \<Rightarrow> Some x
      | _ \<Rightarrow> None)"

subsection \<open>Parsing\<close>

text \<open>
  \<open>None\<close> is a panic: a read past the end of the packet, or the \<^verbatim>\<open>unreachable!\<close> of the
  serializer. The text of \<^verbatim>\<open>InvalidLength\<close> is its two numbers.
\<close>

type_synonym 'a parsed = "(deserialize_error + 'a) option"

datatype length_check = Exact nat | LowerBound nat

definition deserialize_packet ::
  "(u8 \<Rightarrow> bytes \<Rightarrow> 'a parsed) \<Rightarrow> bytes \<Rightarrow> length_check \<Rightarrow> ('a \<Rightarrow> 'm) \<Rightarrow> 'm parsed" where
  "deserialize_packet func packet check out_type =
     (let m = 1 + length packet
      in if (case check of Exact n \<Rightarrow> n \<noteq> m | LowerBound n \<Rightarrow> m < n)
         then Some (Inl (InvalidLength (case check of Exact n \<Rightarrow> n | LowerBound n \<Rightarrow> n) m))
         else do {
           (code, packet) \<leftarrow> get_u8 packet;
           body \<leftarrow> advance CHECKSUM_SIZE packet;
           r \<leftarrow> func code body;
           Some (case r of Inl e \<Rightarrow> Inl e | Inr x \<Rightarrow> Inr (out_type x))
         })"

definition parse_echo :: "u8 \<Rightarrow> bytes \<Rightarrow> echo parsed" where
  "parse_echo code packet = do {
     (identifier, packet) \<leftarrow> get_u16 packet;
     (sequence_number, packet) \<leftarrow> get_u16 packet;
     Some (Inr \<lparr>ec_code = code, ec_identifier = identifier, ec_sequence_number = sequence_number, ec_data = packet\<rparr>)
   }"

definition v4_parse_destination_unreachable :: "u8 \<Rightarrow> bytes \<Rightarrow> (u8 \<times> bytes) parsed" where
  "v4_parse_destination_unreachable code packet =
     (if code \<le> 5 then do { d \<leftarrow> advance 4 packet; Some (Inr (code, d)) }
      else Some (Inl (DestinationUnreachableCode code)))"

definition parse_source_quench :: "u8 \<Rightarrow> bytes \<Rightarrow> (u8 \<times> bytes) parsed" where
  "parse_source_quench code packet = do { d \<leftarrow> advance 4 packet; Some (Inr (code, d)) }"

definition parse_redirect :: "u8 \<Rightarrow> bytes \<Rightarrow> (u8 \<times> u32 \<times> bytes) parsed" where
  "parse_redirect code packet = do { (g, d) \<leftarrow> get_u32 packet; Some (Inr (code, g, d)) }"

definition parse_time_exceeded :: "u8 \<Rightarrow> bytes \<Rightarrow> (u8 \<times> bytes) parsed" where
  "parse_time_exceeded code packet =
     (if code \<le> 1 then do { d \<leftarrow> advance 4 packet; Some (Inr (code, d)) }
      else Some (Inl (TimeExceededCode code)))"

definition v4_parse_parameter_problem :: "u8 \<Rightarrow> bytes \<Rightarrow> (u8 \<times> u8 \<times> bytes) parsed" where
  "v4_parse_parameter_problem code packet = do {
     (pointer, packet) \<leftarrow> get_u8 packet;
     d \<leftarrow> advance 3 packet;
     Some (Inr (code, pointer, d))
   }"

definition parse_timestamp :: "u8 \<Rightarrow> bytes \<Rightarrow> (u8 \<times> u16 \<times> u16 \<times> u32 \<times> u32 \<times> u32) parsed" where
  "parse_timestamp code packet = do {
     (identifier, packet) \<leftarrow> get_u16 packet;
     (sequence_number, packet) \<leftarrow> get_u16 packet;
     (originate, packet) \<leftarrow> get_u32 packet;
     (receive, packet) \<leftarrow> get_u32 packet;
     (transmit, packet) \<leftarrow> get_u32 packet;
     Some (Inr (code, identifier, sequence_number, originate, receive, transmit))
   }"

definition parse_information :: "u8 \<Rightarrow> bytes \<Rightarrow> (u8 \<times> u16 \<times> u16) parsed" where
  "parse_information code packet = do {
     (identifier, packet) \<leftarrow> get_u16 packet;
     (sequence_number, packet) \<leftarrow> get_u16 packet;
     Some (Inr (code, identifier, sequence_number))
   }"

definition v4_deserialize :: "bytes \<Rightarrow> v4_message parsed" where
  "v4_deserialize packet =
     (case packet of
        [] \<Rightarrow> Some (Inl EmptyPacket)
      | t # packet \<Rightarrow>
          (let matching = LowerBound (ICMP_MIN_COMMON_HEADER_SIZE + ICMP_V4_MIN_MATCHING_DATA_SIZE)
           in if t = 0 then deserialize_packet parse_echo packet (LowerBound ECHO_HEADER_SIZE) V4EchoReply
              else if t = 3 then
                deserialize_packet v4_parse_destination_unreachable packet matching
                  (\<lambda>(c, d). V4DestinationUnreachable c d)
              else if t = 4 then
                deserialize_packet parse_source_quench packet matching (\<lambda>(c, d). V4SourceQuench c d)
              else if t = 5 then
                deserialize_packet parse_redirect packet matching (\<lambda>(c, g, d). V4Redirect c g d)
              else if t = 8 then deserialize_packet parse_echo packet (LowerBound ECHO_HEADER_SIZE) V4Echo
              else if t = 11 then
                deserialize_packet parse_time_exceeded packet matching (\<lambda>(c, d). V4TimeExceeded c d)
              else if t = 12 then
                deserialize_packet v4_parse_parameter_problem packet matching (\<lambda>(c, p, d). V4ParameterProblem c p d)
              else if t = 13 then
                deserialize_packet parse_timestamp packet (Exact 20) (\<lambda>(c, i, s, a, b, d). V4Timestamp c i s a b d)
              else if t = 14 then
                deserialize_packet parse_timestamp packet (Exact 20) (\<lambda>(c, i, s, a, b, d). V4TimestampReply c i s a b d)
              else if t = 15 then
                deserialize_packet parse_information packet (Exact 20) (\<lambda>(c, i, s). V4InformationRequest c i s)
              else if t = 16 then
                deserialize_packet parse_information packet (Exact 20) (\<lambda>(c, i, s). V4InformationReply c i s)
              else Some (Inl (MessageType t))))"

definition v6_parse_destination_unreachable :: "u8 \<Rightarrow> bytes \<Rightarrow> (u8 \<times> bytes) parsed" where
  "v6_parse_destination_unreachable code packet =
     (if code \<le> 6 then do { d \<leftarrow> advance 4 packet; Some (Inr (code, d)) }
      else Some (Inl (DestinationUnreachableCode code)))"

definition parse_packet_too_big :: "u8 \<Rightarrow> bytes \<Rightarrow> (u8 \<times> u32 \<times> bytes) parsed" where
  "parse_packet_too_big code packet = do { (mtu, d) \<leftarrow> get_u32 packet; Some (Inr (code, mtu, d)) }"

definition v6_parse_parameter_problem :: "u8 \<Rightarrow> bytes \<Rightarrow> (u8 \<times> u32 \<times> bytes) parsed" where
  "v6_parse_parameter_problem code packet = do { (pointer, d) \<leftarrow> get_u32 packet; Some (Inr (code, pointer, d)) }"

definition v6_deserialize :: "bytes \<Rightarrow> v6_message parsed" where
  "v6_deserialize packet =
     (case packet of
        [] \<Rightarrow> Some (Inl EmptyPacket)
      | t # packet \<Rightarrow>
          (let matching = LowerBound (ICMP_MIN_COMMON_HEADER_SIZE + MIN_IPV6_HEADER_SIZE)
           in if t = 1 then
                deserialize_packet v6_parse_destination_unreachable packet matching
                  (\<lambda>(c, d). V6DestinationUnreachable c d)
              else if t = 2 then
                deserialize_packet parse_packet_too_big packet matching (\<lambda>(c, m, d). V6PacketTooBig c m d)
              else if t = 3 then
                deserialize_packet parse_time_exceeded packet matching (\<lambda>(c, d). V6TimeExceeded c d)
              else if t = 4 then
                deserialize_packet v6_parse_parameter_problem packet matching (\<lambda>(c, p, d). V6ParameterProblem c p d)
              else if t = 128 then
                deserialize_packet parse_echo packet (LowerBound ICMP_MIN_COMMON_HEADER_SIZE) V6EchoRequest
              else if t = 129 then
                deserialize_packet parse_echo packet (LowerBound ICMP_MIN_COMMON_HEADER_SIZE) V6EchoReply
              else Some (Inl (MessageType t))))"

subsection \<open>Serializing\<close>

definition v4_serialize :: "v4_message \<Rightarrow> bytes option" where
  "v4_serialize m = (case m of V4Echo x \<Rightarrow> Some (echo_serialize (v4_type_id m) x) | _ \<Rightarrow> None)"

definition v6_serialize :: "v6_message \<Rightarrow> bytes option" where
  "v6_serialize m = (case m of V6EchoRequest x \<Rightarrow> Some (echo_serialize (v6_type_id m) x) | _ \<Rightarrow> None)"

definition icmp_serialize :: "icmp_message \<Rightarrow> bytes option" where
  "icmp_serialize m = (case m of V4 x \<Rightarrow> v4_serialize x | V6 x \<Rightarrow> v6_serialize x)"

subsection \<open>The request a message answers\<close>

text \<open>The echo request in the payload of a quoted packet; \<open>t\<close> is its type, \<open>n\<close> the least length.\<close>

definition quoted_echo :: "u8 \<Rightarrow> nat \<Rightarrow> bytes \<Rightarrow> echo option option" where
  "quoted_echo t n payload =
     (case payload of
        [] \<Rightarrow> Some None
      | b # payload \<Rightarrow>
          if b \<noteq> t then Some None
          else do {
            r \<leftarrow> deserialize_packet parse_echo payload (LowerBound n) id;
            Some (case r of Inl e \<Rightarrow> None | Inr x \<Rightarrow> Some x)
          })"

definition v4_responded_echo_request :: "v4_message \<Rightarrow> echo option option" where
  "v4_responded_echo_request m =
     (let quoted = (\<lambda>icmp_data. do {
            h \<leftarrow> skip_ipv4_header icmp_data;
            case h of
              None \<Rightarrow> Some None
            | Some (proto, payload) \<Rightarrow>
                if proto \<noteq> IPPROTO_ICMP then Some None else quoted_echo 8 ECHO_HEADER_SIZE payload
          })
      in case m of
           V4DestinationUnreachable c d \<Rightarrow> quoted d
         | V4TimeExceeded c d \<Rightarrow> quoted d
         | V4ParameterProblem c p d \<Rightarrow> quoted d
         | V4SourceQuench c d \<Rightarrow> quoted d
         | V4Redirect c g d \<Rightarrow> quoted d
         | V4EchoReply x \<Rightarrow> Some (Some x)
         | _ \<Rightarrow> Some None)"

definition v6_responded_echo_request :: "v6_message \<Rightarrow> echo option option" where
  "v6_responded_echo_request m =
     (let quoted = (\<lambda>icmp_data. do {
            h \<leftarrow> skip_ipv6_header icmp_data;
            case h of
              None \<Rightarrow> Some None
            | Some (proto, payload) \<Rightarrow>
                if proto \<noteq> IPPROTO_ICMPV6 then Some None else quoted_echo 128 ICMP_MIN_COMMON_HEADER_SIZE payload
          })
      in case m of
           V6DestinationUnreachable c d \<Rightarrow> quoted d
         | V6PacketTooBig c mtu d \<Rightarrow> quoted d
         | V6TimeExceeded c d \<Rightarrow> quoted d
         | V6ParameterProblem c p d \<Rightarrow> quoted d
         | V6EchoRequest x \<Rightarrow> Some None
         | V6EchoReply x \<Rightarrow> Some (Some x))"

definition responded_echo_request :: "icmp_message \<Rightarrow> echo option option" where
  "responded_echo_request m =
     (case m of V4 x \<Rightarrow> v4_responded_echo_request x | V6 x \<Rightarrow> v6_responded_echo_request x)"

end
