(* ===== verification/Icmp_Codec.thy ===== *)
theory Icmp_Codec
  imports Icmp_Message
begin

section \<open>ICMP codec of the endpoint (\<^verbatim>\<open>lib/src/http_icmp_codec.rs\<close>)\<close>

text \<open>
  The endpoint's half of the ICMP tunnel: the decoder of the 23 byte packets with the client's echo
  requests and the encoder of the 22 byte packets with the replies. The data of an echo is random, of the
  length the client asks for: \<open>fill k n\<close> stands for the \<open>n\<close> bytes that the \<open>k\<close>-th use of the random generator
  (crate \<^verbatim>\<open>ring\<close>) yields; the ghost field \<open>id_fills\<close> counts the uses.
\<close>

definition ICMP_REQ_PACKET_SIZE :: nat where
  "ICMP_REQ_PACKET_SIZE = 2 + 16 + 2 + 1 + 2"

definition ICMP_REPLY_PACKET_SIZE :: nat where
  "ICMP_REPLY_PACKET_SIZE = 2 + 16 + 1 + 1 + 2"

lemmas icmp_packet_sizes [simp] = ICMP_REQ_PACKET_SIZE_def ICMP_REPLY_PACKET_SIZE_def

record icmp_decoder =
  id_buffer :: bytes
  id_fills :: nat

record icmp_request_datagram =
  iq_peer :: bytes
  iq_message :: icmp_message
  iq_ttl :: u8

record icmp_reply_datagram =
  ia_peer :: bytes
  ia_message :: icmp_message

definition new_icmp_decoder :: icmp_decoder where
  "new_icmp_decoder = \<lparr>id_buffer = [], id_fills = 0\<rparr>"

definition on_message_chunk :: "bytes \<Rightarrow> icmp_decoder \<Rightarrow> ((bytes \<times> bytes) option \<times> icmp_decoder) option" where
  "on_message_chunk chunk d =
     (if id_buffer d \<noteq> [] \<or> length (id_buffer d) + length chunk < ICMP_REQ_PACKET_SIZE then
        if ICMP_REQ_PACKET_SIZE < length (id_buffer d) then None
        else
          let k = min (length chunk) (ICMP_REQ_PACKET_SIZE - length (id_buffer d));
              buffer = id_buffer d @ take k chunk;
              chunk = drop k chunk
          in if \<not> length buffer \<le> ICMP_REQ_PACKET_SIZE then None
             else if length buffer < ICMP_REQ_PACKET_SIZE
             then (if chunk \<noteq> [] then None else Some (None, d\<lparr>id_buffer := buffer\<rparr>))
             else Some (Some (buffer, chunk), d\<lparr>id_buffer := []\<rparr>)
      else Some (Some (take ICMP_REQ_PACKET_SIZE chunk, drop ICMP_REQ_PACKET_SIZE chunk), d))"

definition read_icmp_request :: "(nat \<Rightarrow> nat \<Rightarrow> bytes) \<Rightarrow> nat \<Rightarrow> bytes \<Rightarrow> icmp_request_datagram option" where
  "read_icmp_request fill k raw = do {
     (identifier, raw) \<leftarrow> get_u16 raw;
     (destination, raw) \<leftarrow> get_fixed_size_ip raw;
     (sequence_number, raw) \<leftarrow> get_u16 raw;
     (ttl, raw) \<leftarrow> get_u8 raw;
     (data_size, raw) \<leftarrow> get_u16 raw;
     let echo = \<lparr>ec_code = 0, ec_identifier = identifier, ec_sequence_number = sequence_number,
       ec_data = fill k (unat data_size)\<rparr>;
     Some \<lparr>iq_peer = destination,
       iq_message = (if length destination = 4 then V4 (V4Echo echo) else V6 (V6EchoRequest echo)),
       iq_ttl = ttl\<rparr>
   }"

definition icmp_decode_chunk ::
  "(nat \<Rightarrow> nat \<Rightarrow> bytes) \<Rightarrow> bytes \<Rightarrow> icmp_decoder \<Rightarrow> (icmp_request_datagram decode_result \<times> icmp_decoder) option" where
  "icmp_decode_chunk fill data d = do {
     (r, d) \<leftarrow> on_message_chunk data d;
     case r of
       None \<Rightarrow> Some (WantMore, d)
     | Some (raw, tail) \<Rightarrow> do {
         g \<leftarrow> read_icmp_request fill (id_fills d) raw;
         Some (Complete g tail, d\<lparr>id_fills := id_fills d + 1\<rparr>)
       }
   }"

text \<open>The outer option is a panic, the inner one the source's.\<close>

definition icmp_encode_packet :: "icmp_reply_datagram \<Rightarrow> bytes option option" where
  "icmp_encode_packet g = do {
     r \<leftarrow> responded_echo_request (ia_message g);
     Some (case r of
             None \<Rightarrow> None
           | Some echo \<Rightarrow>
               Some (u16_be (ec_identifier echo) @ put_fixed_size_ip (ia_peer g) @
                 [icmp_type_id (ia_message g), icmp_code (ia_message g)] @ u16_be (ec_sequence_number echo)))
   }"

end
