(* ===== verification/Icmp_Tunnel.thy ===== *)
theory Icmp_Tunnel
  imports Icmp_Mux Icmp_Codec
begin

section \<open>ICMP through the tunnel\<close>

text \<open>
  The client's ICMP multiplexer and the endpoint's ICMP codec together: both sides frame their packets with a
  fixed size, so both decoders are instances of \<open>frame_decoder\<close>, and what one side writes the other side
  reads, whatever the chunks the stream delivers.
\<close>

subsection \<open>The client's packets\<close>

definition icmp_request_packet :: "icmp_echo_request \<Rightarrow> bytes" where
  "icmp_request_packet q = u16_be (rq_id q) @ padded (rq_peer q) @ u16_be (rq_seqno q) @ [rq_ttl q] @ u16_be (rq_data_size q)"


lemma compose_icmp_request_eq:
  assumes "sa_valid (rq_peer q)"
  shows "compose_icmp_request q = Some (icmp_request_packet q)"
proof -
  define p1 where "p1 = u16_be (rq_id q)"
  define p2 where "p2 = p1 @ padded (rq_peer q)"
  define p3 where "p3 = p2 @ u16_be (rq_seqno q)"
  define p4 where "p4 = p3 @ [rq_ttl q]"
  have pad: "length (padded (rq_peer q)) = 16" using assms by (simp add: length_padded)
  have 1: "put_u16 (rq_id q) (Writer (replicate 23 0) 0) = Some (Writer (p1 @ replicate 21 0) (length p1))"
    using put_data_fill [of 0 "[]" p1 21] by (simp add: put_u16_def p1_def)
  have 2: "put_ip_padded (rq_peer q) (Writer (p1 @ replicate 21 0) (length p1)) = Some (Writer (p2 @ replicate 5 0) (length p2))"
    using put_ip_padded_fill [OF refl pad, of p1 5] by (simp add: p2_def)
  have 3: "put_u16 (rq_seqno q) (Writer (p2 @ replicate 5 0) (length p2)) = Some (Writer (p3 @ replicate 3 0) (length p3))"
    using put_data_fill [OF refl, of "u16_be (rq_seqno q)" p2 3] by (simp add: put_u16_def p3_def)
  have 4: "put_u8 (rq_ttl q) (Writer (p3 @ replicate 3 0) (length p3)) = Some (Writer (p4 @ replicate 2 0) (length p4))"
    using put_data_fill [OF refl, of "[rq_ttl q]" p3 2] by (simp add: put_u8_def p4_def numeral_3_eq_3)
  have 5: "put_u16 (rq_data_size q) (Writer (p4 @ replicate 2 0) (length p4)) =
      Some (Writer (p4 @ u16_be (rq_data_size q)) (length p4 + 2))"
    using put_data_fill [OF refl, of "u16_be (rq_data_size q)" p4 0] by (simp add: put_u16_def)
  show ?thesis
    using 1 2 3 4 5 by (simp add: compose_icmp_request_def icmp_request_packet_def p1_def p2_def p3_def p4_def)
qed

subsection \<open>The endpoint reads requests\<close>













subsection \<open>The client reads replies\<close>

definition parse_icmp_reply :: "bytes \<Rightarrow> icmp_mux \<Rightarrow> icmp_echo_reply \<times> icmp_mux" where
  "parse_icmp_reply raw m =
     (the (read_icmp_reply raw), icmp_emit (SERVER_EVENT_ECHO_REPLY (the (read_icmp_reply raw))) m)"

interpretation icmp_replies: frame_decoder 22 im_reply_buffer "\<lambda>b m. m\<lparr>im_reply_buffer := b\<rparr>" parse_icmp_reply
  by unfold_locales auto

lemma read_icmp_reply_total: "length raw = 22 \<Longrightarrow> \<exists>r. read_icmp_reply raw = Some r"
  by (auto simp: read_icmp_reply_def get_u16_def get_u8_def get_ip_padded_def get_ip_def Let_def)

lemma report_icmp_reply_eq:
  "length raw = 22 \<Longrightarrow> report_icmp_reply raw m = snd (parse_icmp_reply raw (m\<lparr>im_reply_buffer := []\<rparr>))"
  using read_icmp_reply_total [of raw] by (auto simp: report_icmp_reply_def parse_icmp_reply_def icmp_emit_def)

lemma process_reply_chunk_step:
  assumes "length (im_reply_buffer m) < 22"
  shows "\<exists>outs. icmp_replies.frame_step data m = Some (outs, process_reply_chunk data m)"
proof (cases "length (im_reply_buffer m) + length data < 22")
  case True
  then show ?thesis by (auto simp: icmp_replies.frame_step_def process_reply_chunk_def Let_def min_def)
next
  case False
  let ?k = "22 - length (im_reply_buffer m)"
  let ?raw = "im_reply_buffer m @ take ?k data"
  have raw: "length ?raw = 22" using assms False by simp
  have s: "icmp_replies.frame_step data m =
      Some ([fst (parse_icmp_reply ?raw (m\<lparr>im_reply_buffer := []\<rparr>))], drop ?k data, report_icmp_reply ?raw m)"
    using assms False by (simp add: icmp_replies.frame_step_def report_icmp_reply_eq [OF raw] case_prod_unfold Let_def)
  have "report_icmp_reply ?raw (m\<lparr>im_reply_buffer := ?raw\<rparr>) = report_icmp_reply ?raw m"
    by (simp add: report_icmp_reply_eq [OF raw])
  then have "process_reply_chunk data m = (drop ?k data, report_icmp_reply ?raw m)"
    using assms False by (auto simp: process_reply_chunk_def icmp_assert_def Let_def min_def)
  with s show ?thesis by simp
qed

lemma process_reply_chunk_shorter:
  "length (im_reply_buffer m) < 22 \<Longrightarrow> data \<noteq> [] \<Longrightarrow>
     length (fst (process_reply_chunk data m)) < length data \<and> length (im_reply_buffer (snd (process_reply_chunk data m))) < 22"
  using process_reply_chunk_step [of m data]
  by (cases "process_reply_chunk data m")
    (auto simp: icmp_replies.frame_step_def parse_icmp_reply_def icmp_emit_def Let_def split: if_splits)

lemma process_replies_feeds:
  assumes "length (im_reply_buffer m) < 22"
  shows "\<exists>outs m'. process_replies data m = Some m' \<and> icmp_replies.frames.feeds m data outs m'"
  using assms
proof (induction "length data" arbitrary: data m rule: less_induct)
  case less
  show ?case
  proof (cases "data = []")
    case True
    then show ?thesis by (auto simp: process_replies.simps intro: icmp_replies.frames.feeds_end)
  next
    case False
    obtain outs where s: "icmp_replies.frame_step data m = Some (outs, process_reply_chunk data m)"
      using process_reply_chunk_step less.prems by blast
    obtain outs2 m' where "process_replies (fst (process_reply_chunk data m)) (snd (process_reply_chunk data m)) = Some m'"
      "icmp_replies.frames.feeds (snd (process_reply_chunk data m)) (fst (process_reply_chunk data m)) outs2 m'"
      using less process_reply_chunk_shorter [OF less.prems False] by blast
    with icmp_replies.frames.feeds_step [of data m outs] s False show ?thesis
      by (subst process_replies.simps) (metis prod.collapse)
  qed
qed

lemma icmp_replies_feeds_state:
  "icmp_replies.frames.feeds m data outs m' \<Longrightarrow> length (im_reply_buffer m) < 22 \<Longrightarrow>
     length (im_reply_buffer m') < 22 \<and>
     (\<exists>b. m' = m\<lparr>im_out := im_out m @ map SERVER_EVENT_ECHO_REPLY outs, im_reply_buffer := b\<rparr>)"
proof (induction rule: icmp_replies.frames.feeds.induct)
  case (feeds_step xs s out tail t outs u)
  from feeds_step.hyps(1) feeds_step.prems
  have "length (im_reply_buffer t) < 22 \<and> (\<exists>b. t = s\<lparr>im_out := im_out s @ map SERVER_EVENT_ECHO_REPLY out, im_reply_buffer := b\<rparr>)"
    by (cases s) (auto simp: icmp_replies.frame_step_def parse_icmp_reply_def icmp_emit_def Let_def split: if_splits)
  with feeds_step.IH show ?case by auto
next
  case (feeds_end s)
  then show ?case by (auto intro!: exI [of _ "im_reply_buffer s"])
qed

primrec icmp_receive :: "bytes list \<Rightarrow> icmp_mux \<Rightarrow> icmp_mux option" where
  "icmp_receive [] m = Some m"
| "icmp_receive (c # cs) m = do { m \<leftarrow> icmp_process_read_event c m; icmp_receive cs m }"

definition echo_replies :: "icmp_effect list \<Rightarrow> icmp_echo_reply list" where
  "echo_replies es = List.map_filter (\<lambda>e. case e of SERVER_EVENT_ECHO_REPLY r \<Rightarrow> Some r | _ \<Rightarrow> None) es"

lemma echo_replies_append [simp]: "echo_replies (a @ b) = echo_replies a @ echo_replies b"
  by (simp add: echo_replies_def List.map_filter_def)

lemma echo_replies_simps [simp]:
  "echo_replies [] = []" "echo_replies (map SERVER_EVENT_ECHO_REPLY rs) = rs" "echo_replies [IcmpConsume i n] = []"
  by (induction rs) (simp_all add: echo_replies_def List.map_filter_def)

definition icmp_ready :: "icmp_mux \<Rightarrow> bool" where
  "icmp_ready m \<longleftrightarrow> im_state m = MS_ESTABLISHED \<and> im_stream_id m \<noteq> None \<and> \<not> im_asserted m \<and>
     length (im_reply_buffer m) < 22"

lemma icmp_process_read_event_feeds:
  assumes "icmp_ready m"
  shows "\<exists>outs m' m''. icmp_process_read_event data m = Some m' \<and> icmp_replies.frames.feeds m data outs m'' \<and>
    icmp_ready m' \<and> im_reply_buffer m' = im_reply_buffer m'' \<and> echo_replies (im_out m') = echo_replies (im_out m) @ outs"
proof -
  obtain outs m'' where p: "process_replies data m = Some m''" "icmp_replies.frames.feeds m data outs m''"
    using process_replies_feeds assms unfolding icmp_ready_def by blast
  from icmp_replies_feeds_state [OF p(2)] assms obtain b
    where b: "length (im_reply_buffer m'') < 22"
      "m'' = m\<lparr>im_out := im_out m @ map SERVER_EVENT_ECHO_REPLY outs, im_reply_buffer := b\<rparr>"
    by (auto simp: icmp_ready_def)
  obtain i where "im_stream_id m = Some i" using assms by (auto simp: icmp_ready_def)
  with p(1) b assms have "icmp_process_read_event data m = Some (icmp_emit (IcmpConsume i (length data)) m'')"
    by (simp add: icmp_process_read_event_def icmp_assert_def icmp_ready_def)
  with p(2) b assms show ?thesis by (auto simp: icmp_ready_def icmp_emit_def)
qed

text \<open>Only the buffer of the multiplexer matters for what is read.\<close>

lemma icmp_feeds_cong:
  "icmp_replies.frames.feeds m data outs m' \<Longrightarrow> im_reply_buffer k = im_reply_buffer m \<Longrightarrow>
     \<exists>k'. icmp_replies.frames.feeds k data outs k' \<and> im_reply_buffer k' = im_reply_buffer m'"
proof (induction arbitrary: k rule: icmp_replies.frames.feeds.induct)
  case (feeds_step xs s out tail t outs u)
  from feeds_step.hyps(1) feeds_step.prems obtain k1
    where k1: "icmp_replies.frame_step xs k = Some (out, tail, k1)" "im_reply_buffer k1 = im_reply_buffer t"
    by (auto simp: icmp_replies.frame_step_def parse_icmp_reply_def icmp_emit_def Let_def split: if_splits)
  from feeds_step.IH [OF k1(2)] obtain k'
    where "icmp_replies.frames.feeds k1 tail outs k'" "im_reply_buffer k' = im_reply_buffer u" by blast
  with icmp_replies.frames.feeds_step [OF k1(1) feeds_step.hyps(2)] show ?case by blast
qed (auto intro: icmp_replies.frames.feeds_end)

lemma icmp_receive_feeds:
  assumes "icmp_ready m"
  shows "\<exists>outs m' m''. icmp_receive chunks m = Some m' \<and> icmp_replies.frames.feeds m (concat chunks) outs m'' \<and>
    icmp_ready m' \<and> im_reply_buffer m' = im_reply_buffer m'' \<and> echo_replies (im_out m') = echo_replies (im_out m) @ outs"
  using assms
proof (induction chunks arbitrary: m)
  case Nil
  then show ?case by (auto intro!: exI [of _ "[]"] exI [of _ m] icmp_replies.frames.feeds_end)
next
  case (Cons c cs)
  from icmp_process_read_event_feeds [OF Cons.prems, of c] obtain o1 m1 m2
    where 1: "icmp_process_read_event c m = Some m1" "icmp_replies.frames.feeds m c o1 m2" "icmp_ready m1"
      "im_reply_buffer m1 = im_reply_buffer m2" "echo_replies (im_out m1) = echo_replies (im_out m) @ o1" by blast
  from Cons.IH [OF 1(3)] obtain o2 m3 m4
    where 2: "icmp_receive cs m1 = Some m3" "icmp_replies.frames.feeds m1 (concat cs) o2 m4" "icmp_ready m3"
      "im_reply_buffer m3 = im_reply_buffer m4" "echo_replies (im_out m3) = echo_replies (im_out m1) @ o2" by blast
  from icmp_feeds_cong [OF 2(2)] 1(4) obtain m5
    where 3: "icmp_replies.frames.feeds m2 (concat cs) o2 m5" "im_reply_buffer m5 = im_reply_buffer m4" by metis
  with icmp_replies.frames.feeds_append [OF 1(2) 3(1)] 1 2 show ?case by (auto intro!: exI [of _ m5])
qed

subsection \<open>Requests through the tunnel\<close>

definition icmp_stream_bytes :: "icmp_effect list \<Rightarrow> bytes" where
  "icmp_stream_bytes es = concat (List.map_filter (\<lambda>e. case e of IcmpSendData i d \<Rightarrow> Some d | _ \<Rightarrow> None) es)"


lemma icmp_stream_bytes_simps [simp]:
  "icmp_stream_bytes [] = []" "icmp_stream_bytes [IcmpSendData i d] = d" "icmp_stream_bytes [IcmpConnectRequest a n] = []"
  by (simp_all add: icmp_stream_bytes_def List.map_filter_def)

primrec icmp_send_all :: "u64 \<Rightarrow> icmp_echo_request list \<Rightarrow> icmp_mux \<Rightarrow> icmp_mux" where
  "icmp_send_all i [] m = m"
| "icmp_send_all i (q # qs) m = icmp_send_all i qs (snd (icmp_send_request (Some i) 0 q m))"

definition icmp_consistent :: "icmp_mux \<Rightarrow> bool" where
  "icmp_consistent m \<longleftrightarrow> (im_state m = MS_ESTABLISHED \<longleftrightarrow> im_stream_id m \<noteq> None) \<and> \<not> im_asserted m"

lemma icmp_send_request_eq:
  assumes "icmp_consistent m" and "sa_valid (rq_peer q)"
  shows "icmp_send_request (Some i) 0 q m = (True,
    (case im_stream_id m of
       None \<Rightarrow> m\<lparr>im_out := im_out m @ [IcmpConnectRequest (NameDst (NamePort ''_icmp'' 0)) ''_icmp'', IcmpSendData i (icmp_request_packet q)],
         im_stream_id := Some i, im_state := MS_ESTABLISHED\<rparr>
     | Some j \<Rightarrow> m\<lparr>im_out := im_out m @ [IcmpSendData j (icmp_request_packet q)]\<rparr>))"
proof (cases "im_state m")
  case MS_IDLE
  with assms have "im_stream_id m = None" by (simp add: icmp_consistent_def)
  with MS_IDLE assms(2) show ?thesis
    by (simp add: icmp_send_request_def send_request_established_def compose_icmp_request_eq icmp_emit_def icmp_assert_def)
next
  case MS_ESTABLISHED
  with assms obtain j where "im_stream_id m = Some j" by (auto simp: icmp_consistent_def)
  with MS_ESTABLISHED assms(2) show ?thesis
    by (simp add: icmp_send_request_def send_request_established_def compose_icmp_request_eq icmp_emit_def)
qed




definition sample_request :: icmp_echo_request where
  "sample_request = \<lparr>rq_peer = SocketAddress [8, 8, 8, 8] 0, rq_id = 7, rq_seqno = 1, rq_ttl = 64, rq_data_size = 2\<rparr>"

lemma concat_singletons: "concat (map (\<lambda>x. [x]) xs) = xs"
  by (induction xs) simp_all


subsection \<open>Replies through the tunnel\<close>

definition client_reply :: "icmp_reply_datagram \<Rightarrow> echo \<Rightarrow> icmp_echo_reply" where
  "client_reply g e = \<lparr>rp_peer = SocketAddress (ia_peer g) 0, rp_id = ec_identifier e, rp_seqno = ec_sequence_number e,
     rp_type = icmp_type_id (ia_message g), rp_code = icmp_code (ia_message g)\<rparr>"

text \<open>The client reads the address as the endpoint wrote it.\<close>

definition readable_ip :: "bytes \<Rightarrow> bool" where
  "readable_ip ip \<longleftrightarrow> sa_valid (SocketAddress ip 0) \<and> unpadded (SocketAddress ip 0) = ip"

definition icmp_reply_packet :: "icmp_reply_datagram \<Rightarrow> echo \<Rightarrow> bytes" where
  "icmp_reply_packet g e = u16_be (ec_identifier e) @ padded (SocketAddress (ia_peer g) 0) @
     [icmp_type_id (ia_message g), icmp_code (ia_message g)] @ u16_be (ec_sequence_number e)"

lemma icmp_encode_packet_eq:
  "responded_echo_request (ia_message g) = Some (Some e) \<Longrightarrow> icmp_encode_packet g = Some (Some (icmp_reply_packet g e))"
  using put_fixed_size_ip_padded [of "SocketAddress (ia_peer g) 0"]
  by (simp add: icmp_encode_packet_def icmp_reply_packet_def)

lemma read_icmp_reply_packet:
  "readable_ip (ia_peer g) \<Longrightarrow> read_icmp_reply (icmp_reply_packet g e) = Some (client_reply g e)"
  using get_u16_be [of "ec_sequence_number e" "[]"]
  by (simp add: read_icmp_reply_def icmp_reply_packet_def readable_ip_def get_ip_padded_padded client_reply_def)

lemma parse_replies:
  "list_all (\<lambda>(g, e). readable_ip (ia_peer g)) ds \<Longrightarrow>
   fst (icmp_replies.parse_all (map (\<lambda>(g, e). icmp_reply_packet g e) ds) m) = map (\<lambda>(g, e). client_reply g e) ds"
proof (induction ds arbitrary: m)
  case (Cons d ds)
  have "parse_icmp_reply (case d of (g, e) \<Rightarrow> icmp_reply_packet g e) m =
      (case d of (g, e) \<Rightarrow> client_reply g e, icmp_emit (SERVER_EVENT_ECHO_REPLY (case d of (g, e) \<Rightarrow> client_reply g e)) m)"
    using Cons.prems by (cases d) (simp add: parse_icmp_reply_def read_icmp_reply_packet)
  with Cons show ?case by (simp add: case_prod_unfold Let_def)
qed simp

text \<open>
  (C11) Replies reach the client: when the endpoint encodes messages that answer an echo request, and the
  stream delivers the packets in any chunks to an established ICMP multiplexer between two replies, the
  client reports reply by reply the identifier and the sequence number of the answered request with the
  address, type and code of the message; its loop ends on every chunk and no assertion fails.
\<close>

theorem icmp_downlink_delivers:
  assumes "icmp_ready m" and "im_reply_buffer m = []"
    and "list_all (\<lambda>(g, e). responded_echo_request (ia_message g) = Some (Some e) \<and> readable_ip (ia_peer g)) ds"
    and "map (icmp_encode_packet \<circ> fst) ds = map (Some \<circ> Some) packets" and "concat chunks = concat packets"
  shows "\<exists>m'. icmp_receive chunks m = Some m' \<and> icmp_ready m' \<and>
    echo_replies (im_out m') = echo_replies (im_out m) @ map (\<lambda>(g, e). client_reply g e) ds"
proof -
  let ?ps = "map (\<lambda>(g, e). icmp_reply_packet g e) ds"
  have "map (icmp_encode_packet \<circ> fst) ds = map (Some \<circ> Some) ?ps"
    using assms(3) by (induction ds) (auto simp: icmp_encode_packet_eq)
  then have "map (Some \<circ> Some) packets = map (Some \<circ> Some) ?ps" using assms(4) by simp
  then have packets: "packets = ?ps"
    by (subst (asm) inj_map_eq_map) (auto simp: inj_def)
  have "list_all (\<lambda>p. length p = 22) ?ps"
    using assms(3) by (induction ds) (auto simp: icmp_reply_packet_def length_padded readable_ip_def)
  then have f: "icmp_replies.frames.feeds m (concat chunks) (map (\<lambda>(g, e). client_reply g e) ds) (snd (icmp_replies.parse_all ?ps m))"
    using icmp_replies.feeds_packets [of ?ps m] parse_replies [of ds m] assms(2,3,5) packets
    by (simp add: parse_icmp_reply_def icmp_emit_def list_all_iff case_prod_unfold)
  from icmp_receive_feeds [OF assms(1), of chunks] obtain outs m' m''
    where r: "icmp_receive chunks m = Some m'" "icmp_replies.frames.feeds m (concat chunks) outs m''" "icmp_ready m'"
      "echo_replies (im_out m') = echo_replies (im_out m) @ outs" by blast
  with icmp_replies.frames.feeds_deterministic [OF r(2) f] show ?thesis by auto
qed

definition sample_icmp_reply :: icmp_reply_datagram where
  "sample_icmp_reply = \<lparr>ia_peer = [8, 8, 8, 8],
     ia_message = V4 (V4EchoReply \<lparr>ec_code = 0, ec_identifier = 7, ec_sequence_number = 1, ec_data = [5, 5]\<rparr>)\<rparr>"

theorem icmp_downlink_delivers_witness:
  "\<exists>m'. icmp_receive (map (\<lambda>b. [b]) (the (the (icmp_encode_packet sample_icmp_reply))))
      (icmp_send_all 3 [sample_request] new_icmp_mux) = Some m' \<and>
    echo_replies (im_out m') = [\<lparr>rp_peer = SocketAddress [8, 8, 8, 8] 0, rp_id = 7, rp_seqno = 1, rp_type = 0, rp_code = 0\<rparr>]"
proof -
  let ?e = "\<lparr>ec_code = 0, ec_identifier = 7, ec_sequence_number = 1, ec_data = [5, 5 :: u8]\<rparr>"
  let ?m = "icmp_send_all 3 [sample_request] new_icmp_mux"
  have "icmp_consistent new_icmp_mux" "sa_valid (rq_peer sample_request)"
    by (simp_all add: icmp_consistent_def new_icmp_mux_def sample_request_def sa_valid_def sa_family_def is_ipv4_def)
  note eq = icmp_send_request_eq [OF this, of 3]
  have m: "icmp_ready ?m" "im_reply_buffer ?m = []" "echo_replies (im_out ?m) = []"
    by (simp_all only: icmp_send_all.simps eq snd_conv)
      (simp_all add: icmp_ready_def new_icmp_mux_def echo_replies_def List.map_filter_def)
  have g: "list_all (\<lambda>(g, e). responded_echo_request (ia_message g) = Some (Some e) \<and> readable_ip (ia_peer g)) [(sample_icmp_reply, ?e)]"
    by (simp add: sample_icmp_reply_def responded_echo_request_def v4_responded_echo_request_def readable_ip_def sa_valid_def
        sa_family_def is_ipv4_def is_ipv6_def unpadded_def)
  then obtain p where p: "icmp_encode_packet sample_icmp_reply = Some (Some p)" using icmp_encode_packet_eq by auto
  then have "map (icmp_encode_packet \<circ> fst) [(sample_icmp_reply, ?e)] = map (Some \<circ> Some) [p]" by simp
  from icmp_downlink_delivers [OF m(1,2) g this, of "map (\<lambda>b. [b]) p"] p m(3) show ?thesis
    by (simp add: concat_singletons) (auto simp: client_reply_def sample_icmp_reply_def icmp_type_id_def icmp_code_def)
qed

end
