(* ===== verification/Icmp_Correct.thy ===== *)
theory Icmp_Correct
  imports Icmp_Message
begin

section \<open>Correctness of the ICMP messages\<close>

text \<open>
  What the endpoint's checksum computes, compared with the one's complement sum a receiver checks; that the
  parsers never read past the end of a packet; and how the request in a reply or in the quoted packet of an
  error message compares with the request that was sent.
\<close>

unbundle bit_operations_syntax

subsection \<open>Checksum\<close>

fun word_sum :: "bytes \<Rightarrow> nat" where
  "word_sum [] = 0"
| "word_sum [a] = unat a * 256"
| "word_sum (a # b # bs) = unat a * 256 + unat b + word_sum bs"

lemma fold16_decreases: "\<not> n < 65536 \<Longrightarrow> n mod 65536 + n div 65536 < (n :: nat)"
proof -
  assume "\<not> n < 65536"
  then have "0 < n div 65536" by simp
  moreover have "n = n div 65536 * 65536 + n mod 65536" by simp
  ultimately show ?thesis by linarith
qed

function fold16 :: "nat \<Rightarrow> nat" where
  "fold16 n = (if n < 65536 then n else fold16 (n mod 65536 + n div 65536))"
  by pat_completeness auto

termination
  by (relation "measure id") (use fold16_decreases in auto)

declare fold16.simps [simp del]

lemma word_sum_bound: "word_sum bs \<le> (length bs + 1) div 2 * 65535"
proof (induction bs rule: word_sum.induct)
  case (2 a)
  then show ?case using unat_byte_less [of a] by simp
next
  case (3 a b bs)
  then show ?case using unat_byte_less [of a] unat_byte_less [of b] by simp
qed simp

lemma checksum_loop_word_sum:
  "checksum_loop bs i s = s + word_of_nat (word_sum (drop i bs))" if "even i" for s
  using that
proof (induction bs i s rule: checksum_loop.induct)
  case (1 bs i s)
  show ?case
  proof (cases "i < length bs")
    case True
    then obtain a r where r: "drop i bs = a # r" "a = bs ! i" by (metis Cons_nth_drop_Suc)
    show ?thesis
    proof (cases r)
      case Nil
      with r have "length (drop i bs) = 1" by simp
      then have l: "length bs = i + 1" by simp
      with 1(2) have "odd (length bs)" by simp
      then show ?thesis using True l r Nil 1
        by (subst checksum_loop.simps) (simp add: checksum_loop.simps [of _ "i + 2"] push_bit_eq_mult Let_def)
    next
      case (Cons b q)
      with r have d: "drop i bs = a # b # q" by simp
      have b: "i + 1 < length bs" "b = bs ! (i + 1)" "drop (i + 2) bs = q"
        using arg_cong [OF d, of length] arg_cong [OF d, of "\<lambda>xs. xs ! 1"] arg_cong [OF d, of "drop 2"] by (simp_all add: add.commute)
      have "even (length bs) \<or> i + 1 < length bs - 1" using b(1) 1(2) by (cases "length bs = i + 2") auto
      then show ?thesis using 1(1) [OF True refl refl] 1(2) True r Cons b
        by (subst checksum_loop.simps) (simp add: push_bit_eq_mult Let_def algebra_simps)
    qed
  qed (simp add: checksum_loop.simps)
qed

text \<open>What the code computes: one fold, with the carry of the fold lost.\<close>

lemma rfc1071_checksum_eq:
  assumes "length bs \<le> 131072"
  shows "unat (rfc1071_checksum bs) = 65535 - (word_sum bs div 65536 + word_sum bs) mod 65536"
proof -
  have "(length bs + 1) div 2 * 65535 \<le> 65536 * 65535" using assms by (intro mult_right_mono) simp_all
  with word_sum_bound [of bs] have w: "word_sum bs < 4294967296" by simp
  let ?s = "word_of_nat (word_sum bs) :: u32"
  have s: "unat ?s = word_sum bs" using w by (simp add: unat_of_nat)
  have sum: "checksum_loop bs 0 0 = ?s" using checksum_loop_word_sum [of 0 bs 0] by simp
  have "unat (drop_bit 16 ?s) = word_sum bs div 65536"
    by (simp only: unsigned_drop_bit_eq) (simp add: drop_bit_eq_div s take_bit_eq_mod w)
  then have "unat (drop_bit 16 ?s + ?s) mod 65536 = (word_sum bs div 65536 + word_sum bs) mod 65536"
    by (simp add: unat_word_ariths(1) s mod_mod_cancel)
  moreover have "(ucast (NOT x) :: u16) = NOT (ucast x)" for x :: u32
    by (rule bit_eqI) (simp add: bit_simps)
  moreover have "unat (NOT y) = 65535 - unat y" for y :: u16
  proof -
    have y: "unat y \<le> 65535" using unsigned_less [of y, where ?'a = nat] by simp
    then have "(word_of_nat (65535 - unat y) :: u16) = - 1 - y" by (simp add: of_nat_diff)
    then have "NOT y = word_of_nat (65535 - unat y)" by (simp add: not_eq_complement)
    then show ?thesis by (simp only: unat_of_nat) simp
  qed
  ultimately show ?thesis by (simp add: rfc1071_checksum_def sum unsigned_ucast_eq take_bit_eq_mod Let_def)
qed

lemma fold16_mod: "fold16 n = (if n = 0 then 0 else if n mod 65535 = 0 then 65535 else n mod 65535)"
proof (induction n rule: fold16.induct)
  case (1 n)
  show ?case
  proof (cases "n < 65536")
    case True
    then have f: "fold16 n = n" by (subst fold16.simps) (simp only: if_True)
    show ?thesis
    proof (cases "n = 65535")
      case False
      with \<open>n < 65536\<close> have "n < 65535" by linarith
      then have "n mod 65535 = n" by (rule mod_less)
      with f show ?thesis by simp
    qed (use f in simp)
  next
    case False
    define k where "k = n mod 65536 + n div 65536"
    have "n = n div 65536 * 65536 + n mod 65536" by simp
    then have "n = n div 65536 * 65535 + k" unfolding k_def by linarith
    then have "n mod 65535 = (n div 65536 * 65535 + k) mod 65535" by (rule arg_cong)
    then have "n mod 65535 = k mod 65535" by (simp only: mod_mult_self3)
    moreover have "k \<noteq> 0" "n \<noteq> 0" using False by (auto simp: k_def)
    moreover have "fold16 n = fold16 k" using False unfolding k_def by (subst fold16.simps) (simp only: if_False)
    ultimately show ?thesis using 1 [OF False, folded k_def] by (simp only: if_False)
  qed
qed

lemma word_sum_append: "even (length xs) \<Longrightarrow> word_sum (xs @ ys) = word_sum xs + word_sum ys"
  by (induction xs rule: word_sum.induct) simp_all

lemma word_sum_u16: "word_sum (u16_be w) = unat w"
proof -
  have ab: "u16_be w = [word_of_nat (unat w div 256), word_of_nat (unat w)]" by (simp add: u16_be_def numeral_2_eq_2)
  have "be_nat [a, b] = word_sum [a, b]" for a b by (simp add: be_nat_def)
  then have "word_sum (u16_be w) = be_nat (u16_be w)" unfolding ab by simp
  then show ?thesis by simp
qed

definition echo_fields :: "u8 \<Rightarrow> echo \<Rightarrow> bytes" where
  "echo_fields type_id e = [type_id, 0] @ u16_be (ec_identifier e) @ u16_be (ec_sequence_number e) @ ec_data e"

lemma echo_serialize_sum:
  "word_sum (echo_serialize t e) = word_sum (echo_fields t e) +
     unat (rfc1071_checksum ([t, 0] @ u16_be 0 @ u16_be (ec_identifier e) @ u16_be (ec_sequence_number e) @ ec_data e))"
  by (simp add: echo_serialize_def echo_fields_def word_sum_append word_sum_u16 Let_def)

lemma echo_checksum_sum:
  "word_sum ([t, 0] @ u16_be 0 @ u16_be (ec_identifier e) @ u16_be (ec_sequence_number e) @ ec_data e) =
     word_sum (echo_fields t e)"
  by (simp add: echo_fields_def word_sum_append word_sum_u16)

text \<open>
  (C38) The checksum of the ICMP echo messages that the endpoint sends is right exactly when folding the
  carries of the sum of its 16 bit words once leaves no further carry: then, and only then, the words of the
  message with its checksum add up to 65535 in one's complement arithmetic, which is what the receiver
  checks.
\<close>

theorem echo_checksum_correct_iff:
  assumes "length (ec_data e) \<le> 131064"
  shows "fold16 (word_sum (echo_serialize t e)) = 65535 \<longleftrightarrow>
    (let s = word_sum (echo_fields t e) in s div 65536 + s mod 65536 < 65536)"
proof -
  let ?p = "[t, 0] @ u16_be 0 @ u16_be (ec_identifier e) @ u16_be (ec_sequence_number e) @ ec_data e"
  define n where "n = word_sum (echo_fields t e)"
  define hi where "hi = n div 65536"
  define lo where "lo = n mod 65536"
  have n: "n = hi * 65536 + lo" "lo < 65536" by (simp_all add: hi_def lo_def)
  have c: "unat (rfc1071_checksum ?p) = 65535 - (hi + lo) mod 65536"
    using rfc1071_checksum_eq [of ?p, unfolded echo_checksum_sum, folded n_def] assms by (simp add: mod_simps hi_def lo_def)
  have "(length (echo_fields t e) + 1) div 2 * 65535 \<le> 65536 * 65535"
    using assms by (intro mult_right_mono) (simp_all add: echo_fields_def)
  with word_sum_bound [of "echo_fields t e"] have "n < 65536 * 65536" by (simp add: n_def)
  then have hi: "hi < 65536" unfolding hi_def by (rule less_mult_imp_div_less)
  have total: "word_sum (echo_serialize t e) = n + (65535 - (hi + lo) mod 65536)"
    using c by (simp add: echo_serialize_sum n_def)
  have "fold16 (word_sum (echo_serialize t e)) = 65535 \<longleftrightarrow> hi + lo < 65536"
  proof (cases "hi + lo < 65536")
    case True
    then have "word_sum (echo_serialize t e) = (hi + 1) * 65535" using total n by simp
    with True show ?thesis by (simp add: fold16_mod)
  next
    case False
    then have "(hi + lo) mod 65536 = hi + lo - 65536" using hi n(2) by (simp add: mod_if)
    then have "word_sum (echo_serialize t e) = (hi + 2) * 65535 + 1" using total n False hi by simp
    then have "word_sum (echo_serialize t e) mod 65535 = 1" by (simp only: mod_mult_self3) simp
    with False show ?thesis by (simp add: fold16_mod)
  qed
  then show ?thesis by (simp add: Let_def n_def [symmetric] hi_def [symmetric] lo_def [symmetric])
qed

theorem echo_checksum_correct_iff_witness:
  "fold16 (word_sum (echo_serialize 8 \<lparr>ec_code = 0, ec_identifier = 0xF800, ec_sequence_number = 0xFFFF, ec_data = []\<rparr>)) \<noteq> 65535"
  using echo_checksum_correct_iff [of "\<lparr>ec_code = 0, ec_identifier = 0xF800, ec_sequence_number = 0xFFFF, ec_data = []\<rparr>" 8]
  by (simp add: echo_fields_def word_sum_append word_sum_u16)

subsection \<open>Parsing\<close>

lemma get_total:
  "2 \<le> length b \<Longrightarrow> get_u16 b = Some (word_of_nat (be_nat (take 2 b)), drop 2 b)"
  "4 \<le> length b \<Longrightarrow> get_u32 b = Some (word_of_nat (be_nat (take 4 b)), drop 4 b)"
  "1 \<le> length b \<Longrightarrow> get_u8 b = Some (hd b, drop 1 b)"
  "n \<le> length b \<Longrightarrow> advance n b = Some (drop n b)"
  by (auto simp: get_u16_def get_u32_def get_u8_def advance_def)

lemma deserialize_packet_total:
  assumes "\<And>code body. n \<le> length body + 4 \<Longrightarrow> \<exists>r. func code body = Some r" and "4 \<le> n"
  shows "\<exists>r. deserialize_packet func packet (LowerBound n) out = Some r"
    and "\<exists>r. deserialize_packet func packet (Exact n) out = Some r"
proof -
  have "\<exists>r. func (hd packet) (drop 3 packet) = Some r" if "n \<le> 1 + length packet"
    using assms(1) [of "drop 3 packet" "hd packet"] that by simp
  then show "\<exists>r. deserialize_packet func packet (LowerBound n) out = Some r"
    "\<exists>r. deserialize_packet func packet (Exact n) out = Some r"
    using assms(2) by (auto simp: deserialize_packet_def get_total CHECKSUM_SIZE_def drop_drop numeral_3_eq_3 split: if_splits)
qed

lemma parsers_total:
  "8 \<le> length b + 4 \<Longrightarrow> \<exists>r. parse_echo c b = Some r"
  "8 \<le> length b + 4 \<Longrightarrow> \<exists>r. v4_parse_destination_unreachable c b = Some r"
  "8 \<le> length b + 4 \<Longrightarrow> \<exists>r. v6_parse_destination_unreachable c b = Some r"
  "8 \<le> length b + 4 \<Longrightarrow> \<exists>r. parse_source_quench c b = Some r"
  "8 \<le> length b + 4 \<Longrightarrow> \<exists>r. parse_redirect c b = Some r"
  "8 \<le> length b + 4 \<Longrightarrow> \<exists>r. parse_time_exceeded c b = Some r"
  "8 \<le> length b + 4 \<Longrightarrow> \<exists>r. v4_parse_parameter_problem c b = Some r"
  "8 \<le> length b + 4 \<Longrightarrow> \<exists>r. v6_parse_parameter_problem c b = Some r"
  "8 \<le> length b + 4 \<Longrightarrow> \<exists>r. parse_packet_too_big c b = Some r"
  "8 \<le> length b + 4 \<Longrightarrow> \<exists>r. parse_information c b = Some r"
  "20 \<le> length b + 4 \<Longrightarrow> \<exists>r. parse_timestamp c b = Some r"
  by (simp_all add: parse_echo_def v4_parse_destination_unreachable_def v6_parse_destination_unreachable_def
      parse_source_quench_def parse_redirect_def parse_time_exceeded_def v4_parse_parameter_problem_def
      v6_parse_parameter_problem_def parse_packet_too_big_def parse_information_def parse_timestamp_def get_total)

lemma deserialize_total: "\<exists>r. v4_deserialize p = Some r" "\<exists>r. v6_deserialize p = Some r"
  by (cases p; simp add: v4_deserialize_def v6_deserialize_def icmp_sizes deserialize_packet_total parsers_total Let_def)+

lemma echo_serialize_eq:
  "echo_serialize t e = [t, 0] @
     u16_be (rfc1071_checksum ([t, 0] @ u16_be 0 @ u16_be (ec_identifier e) @ u16_be (ec_sequence_number e) @ ec_data e)) @
     u16_be (ec_identifier e) @ u16_be (ec_sequence_number e) @ ec_data e"
  by (simp add: echo_serialize_def Let_def)

text \<open>An echo that was serialized and perhaps cut short, but not within its header.\<close>

definition cut_echo :: "nat \<Rightarrow> echo \<Rightarrow> echo" where
  "cut_echo k e = \<lparr>ec_code = 0, ec_identifier = ec_identifier e, ec_sequence_number = ec_sequence_number e,
     ec_data = take (k - 8) (ec_data e)\<rparr>"

lemma take_serialized:
  assumes "8 \<le> k"
  obtains c where "take k (echo_serialize t e) =
    t # 0 # u16_be c @ u16_be (ec_identifier e) @ u16_be (ec_sequence_number e) @ take (k - 8) (ec_data e)"
proof -
  have k: "k = 8 + (k - 8)" using assms by simp
  have "take 8 (echo_serialize t e) @ take (k - 8) (drop 8 (echo_serialize t e)) =
    t # 0 # u16_be (rfc1071_checksum ([t, 0] @ u16_be 0 @ u16_be (ec_identifier e) @ u16_be (ec_sequence_number e) @ ec_data e))
      @ u16_be (ec_identifier e) @ u16_be (ec_sequence_number e) @ take (k - 8) (ec_data e)"
    by (simp add: echo_serialize_eq)
  then show thesis by (intro that) (subst k, subst take_add, assumption)
qed

lemma parse_serialized:
  assumes "n \<le> 8"
  shows "deserialize_packet parse_echo (0 # u16_be c @ u16_be (ec_identifier e) @ u16_be (ec_sequence_number e) @ take (k - 8) (ec_data e))
    (LowerBound n) out = Some (Inr (out (cut_echo k e)))"
  using assms
  by (simp add: deserialize_packet_def CHECKSUM_SIZE_def advance_def parse_echo_def cut_echo_def Let_def)

lemma cut_echo_eq: "echo_eq (cut_echo k e) e" "echo_eq e (cut_echo k e)"
  by (auto simp: echo_eq_def cut_echo_def min_def)

end
