(* ===== verification/Icmp_Manager.thy ===== *)
theory Icmp_Manager
  imports Icmp_Mux "HOL-Library.Multiset"
begin

section \<open>ICMP request manager of the client (\<^verbatim>\<open>core/src/icmp_manager.cpp\<close>)\<close>

text \<open>
  The manager pairs the echo requests of the client with the replies from the network and makes up a reply
  for requests that time out. \<^verbatim>\<open>std::map\<close> is an association list in ascending order of its keys; the
  value \<open>None\<close> is a null pointer. The clock is an argument, in nanoseconds. Replies that the manager raises by
  itself are appended to \<open>mg_raised\<close>. The ghost fields \<open>mg_accepted\<close> and \<open>mg_answered\<close> list the identifier and the
  sequence number of every request that was passed on, and of every request that got its reply.
\<close>

subsection \<open>State\<close>

record request_attempt =
  ra_seqno :: u16
  ra_timeout_ts :: int

record request_info =
  ri_original_peer :: socket_address
  ri_tries :: "request_attempt list"

datatype message_status = IM_MSGS_PASS | IM_MSGS_DROP

record icmp_manager =
  mg_requests :: "(u16 \<times> request_info option) list"
  mg_request_timeout :: int
  mg_timer :: bool
  mg_raised :: "icmp_echo_reply list"
  mg_asserted :: bool
  mg_accepted :: "(u16 \<times> u16) list"
  mg_answered :: "(u16 \<times> u16) list"

definition DEFAULT_PING_REQUEST_TIMEOUT :: int where
  "DEFAULT_PING_REQUEST_TIMEOUT = 3 * 1000000000"

definition ICMP_MT_ECHO_REPLY :: u8 where "ICMP_MT_ECHO_REPLY = 0"
definition ICMPV6_MT_ECHO_REPLY :: u8 where "ICMPV6_MT_ECHO_REPLY = 129"
definition ICMP_MT_DROP :: u8 where "ICMP_MT_DROP = 84"

definition manager_init :: "int option \<Rightarrow> icmp_manager" where
  "manager_init timeout =
     \<lparr>mg_requests = [], mg_request_timeout = (case timeout of Some t \<Rightarrow> t | None \<Rightarrow> DEFAULT_PING_REQUEST_TIMEOUT),
      mg_timer = False, mg_raised = [], mg_asserted = False, mg_accepted = [], mg_answered = []\<rparr>"

definition manager_deinit :: "icmp_manager \<Rightarrow> icmp_manager" where
  "manager_deinit m = m\<lparr>mg_timer := False, mg_requests := []\<rparr>"

subsection \<open>Ordered maps\<close>

fun map_insert :: "u16 \<Rightarrow> 'v \<Rightarrow> (u16 \<times> 'v) list \<Rightarrow> (u16 \<times> 'v) list" where
  "map_insert k v [] = [(k, v)]"
| "map_insert k v ((k', v') # m) =
     (if k < k' then (k, v) # (k', v') # m
      else if k = k' then (k, v) # m
      else (k', v') # map_insert k v m)"

definition map_erase :: "u16 \<Rightarrow> (u16 \<times> 'v) list \<Rightarrow> (u16 \<times> 'v) list" where
  "map_erase k m = filter (\<lambda>(k', _). k' \<noteq> k) m"

subsection \<open>Operations\<close>

definition register_request :: "int \<Rightarrow> icmp_echo_request \<Rightarrow> icmp_manager \<Rightarrow> message_status \<times> icmp_manager" where
  "register_request now request m =
     (let info = (case map_of (mg_requests m) (rq_id request) of
                    Some (Some info) \<Rightarrow> info
                  | _ \<Rightarrow> \<lparr>ri_original_peer = rq_peer request, ri_tries = []\<rparr>);
          is_already_on_wire = list_ex (\<lambda>i. ra_seqno i = rq_seqno request) (ri_tries info)
      in if is_already_on_wire
         then (IM_MSGS_DROP, m\<lparr>mg_requests := map_insert (rq_id request) (Some info) (mg_requests m)\<rparr>)
         else
           let try = \<lparr>ra_seqno = rq_seqno request, ra_timeout_ts = now + mg_request_timeout m\<rparr>;
               info = info\<lparr>ri_tries := ri_tries info @ [try]\<rparr>
           in (IM_MSGS_PASS, m\<lparr>mg_requests := map_insert (rq_id request) (Some info) (mg_requests m), mg_timer := True,
                 mg_accepted := mg_accepted m @ [(rq_id request, rq_seqno request)]\<rparr>))"

text \<open>The attempt a reply belongs to: the one with its number, or the oldest one for an error message.\<close>

definition find_attempt :: "icmp_echo_reply \<Rightarrow> request_attempt list \<Rightarrow> request_attempt option" where
  "find_attempt reply tries =
     (if \<not> (is_ipv4 (rp_peer reply) \<and> rp_type reply \<noteq> ICMP_MT_ECHO_REPLY) \<and>
         \<not> (is_ipv6 (rp_peer reply) \<and> rp_type reply \<noteq> ICMPV6_MT_ECHO_REPLY)
      then find (\<lambda>i. ra_seqno i = rp_seqno reply) tries
      else case tries of [] \<Rightarrow> None | t # _ \<Rightarrow> Some t)"

definition register_reply :: "icmp_echo_reply \<Rightarrow> icmp_manager \<Rightarrow> message_status \<times> icmp_echo_reply \<times> icmp_manager" where
  "register_reply reply m =
     (case map_of (mg_requests m) (rp_id reply) of
        None \<Rightarrow> (IM_MSGS_DROP, reply, m)
      | Some None \<Rightarrow>
          (IM_MSGS_DROP, reply, m\<lparr>mg_requests := map_erase (rp_id reply) (mg_requests m), mg_asserted := True\<rparr>)
      | Some (Some info) \<Rightarrow>
          (case find_attempt reply (ri_tries info) of
             None \<Rightarrow> (IM_MSGS_DROP, reply, m)
           | Some t \<Rightarrow>
               let tries = remove1 t (ri_tries info)
               in (IM_MSGS_PASS, reply\<lparr>rp_seqno := ra_seqno t\<rparr>,
                   m\<lparr>mg_requests := (if tries = [] then map_erase (rp_id reply) (mg_requests m)
                       else map_insert (rp_id reply) (Some (info\<lparr>ri_tries := tries\<rparr>)) (mg_requests m)),
                     mg_answered := mg_answered m @ [(rp_id reply, ra_seqno t)]\<rparr>)))"

definition make_reply_on_timeout :: "u16 \<Rightarrow> socket_address \<Rightarrow> u16 \<Rightarrow> icmp_echo_reply" where
  "make_reply_on_timeout key peer seqno =
     \<lparr>rp_peer = peer, rp_id = key, rp_seqno = seqno, rp_type = ICMP_MT_DROP, rp_code = 0\<rparr>"

text \<open>The inner loop: the attempts of one request.\<close>

fun expire_tries :: "int \<Rightarrow> u16 \<Rightarrow> socket_address \<Rightarrow> request_attempt list \<Rightarrow> request_attempt list \<times> icmp_echo_reply list" where
  "expire_tries now key peer [] = ([], [])"
| "expire_tries now key peer (t # ts) =
     (let (kept, raised) = expire_tries now key peer ts
      in if now < ra_timeout_ts t then (t # kept, raised)
         else (kept, make_reply_on_timeout key peer (ra_seqno t) # raised))"

text \<open>The outer loop; \<open>None\<close> is the dereference of a null pointer.\<close>

fun expire_requests ::
  "int \<Rightarrow> (u16 \<times> request_info option) list \<Rightarrow> ((u16 \<times> request_info option) list \<times> icmp_echo_reply list) option" where
  "expire_requests now [] = Some ([], [])"
| "expire_requests now ((key, None) # rs) = None"
| "expire_requests now ((key, Some info) # rs) =
     (let (kept, raised) = expire_tries now key (ri_original_peer info) (ri_tries info)
      in case expire_requests now rs of
           None \<Rightarrow> None
         | Some (rs, later) \<Rightarrow>
             Some (if kept = [] then rs else (key, Some (info\<lparr>ri_tries := kept\<rparr>)) # rs, raised @ later))"

definition manager_timer_callback :: "int \<Rightarrow> icmp_manager \<Rightarrow> icmp_manager" where
  "manager_timer_callback now m =
     (case expire_requests now (mg_requests m) of
        None \<Rightarrow> m\<lparr>mg_asserted := True\<rparr>
      | Some (rs, raised) \<Rightarrow>
          m\<lparr>mg_requests := rs, mg_raised := mg_raised m @ raised,
            mg_answered := mg_answered m @ map (\<lambda>r. (rp_id r, rp_seqno r)) raised\<rparr>)"

subsection \<open>Invariant\<close>

definition pending_of :: "u16 \<times> request_info option \<Rightarrow> (u16 \<times> u16) list" where
  "pending_of r = (case snd r of None \<Rightarrow> [] | Some info \<Rightarrow> map (\<lambda>t. (fst r, ra_seqno t)) (ri_tries info))"

definition pending :: "icmp_manager \<Rightarrow> (u16 \<times> u16) list" where
  "pending m = concat (map pending_of (mg_requests m))"

text \<open>An entry has a request, its attempts have different numbers, and there is at least one.\<close>

definition entry_ok :: "u16 \<times> request_info option \<Rightarrow> bool" where
  "entry_ok r \<longleftrightarrow> (case snd r of None \<Rightarrow> False | Some info \<Rightarrow> ri_tries info \<noteq> [] \<and> distinct (map ra_seqno (ri_tries info)))"

definition manager_inv :: "icmp_manager \<Rightarrow> bool" where
  "manager_inv m \<longleftrightarrow> sorted_wrt (<) (map fst (mg_requests m)) \<and> list_all entry_ok (mg_requests m) \<and> \<not> mg_asserted m \<and>
     mset (mg_accepted m) = mset (mg_answered m) + mset (pending m) \<and> (mg_requests m \<noteq> [] \<longrightarrow> mg_timer m)"

datatype manager_event = RequestEvent int icmp_echo_request | ReplyEvent icmp_echo_reply | TimerEvent int

fun manager_step :: "manager_event \<Rightarrow> icmp_manager \<Rightarrow> icmp_manager" where
  "manager_step (RequestEvent now q) m = snd (register_request now q m)"
| "manager_step (ReplyEvent r) m = snd (snd (register_reply r m))"
| "manager_step (TimerEvent now) m = manager_timer_callback now m"

lemma map_insert_keys: "set (map fst (map_insert k v m)) = insert k (set (map fst m))"
  by (induction k v m rule: map_insert.induct) auto

lemma map_insert_sorted: "sorted_wrt (<) (map fst m) \<Longrightarrow> sorted_wrt (<) (map fst (map_insert k v m))"
proof (induction m)
  case (Cons p m)
  then show ?case using map_insert_keys [of k v m] by (cases p) auto
qed simp

lemma map_erase_sorted: "sorted_wrt (<) (map fst m) \<Longrightarrow> sorted_wrt (<) (map fst (map_erase k m))"
  by (auto simp: map_erase_def sorted_wrt_map intro: sorted_wrt_filter)

lemma map_erase_all: "list_all P m \<Longrightarrow> list_all P (map_erase k m)"
  by (auto simp: map_erase_def list_all_iff)

lemma map_insert_all: "list_all P m \<Longrightarrow> P (k, v) \<Longrightarrow> list_all P (map_insert k v m)"
  by (induction m) auto

lemma map_of_sorted_None: "sorted_wrt (<) (map fst m) \<Longrightarrow> \<forall>x\<in>set m. (k :: u16) < fst x \<Longrightarrow> map_of m k = None"
  by (induction m) auto

text \<open>The sum over the entries after an insertion and an erasure.\<close>

lemma sum_map_insert:
  fixes f :: "u16 \<times> 'v \<Rightarrow> 'a multiset"
  assumes "sorted_wrt (<) (map fst m)"
  shows "sum_list (map f (map_insert k v m)) + (case map_of m k of None \<Rightarrow> {#} | Some w \<Rightarrow> f (k, w)) =
    sum_list (map f m) + f (k, v)"
  using assms
proof (induction m)
  case (Cons p m)
  show ?case
  proof (cases "k < fst p")
    case True
    with Cons.prems have "map_of (p # m) k = None" by (intro map_of_sorted_None) auto
    with True show ?thesis by (cases p) (simp add: ac_simps)
  next
    case False
    with Cons show ?thesis by (cases p) (auto simp: ac_simps split: option.splits)
  qed
qed simp

lemma sum_map_erase:
  fixes f :: "u16 \<times> 'v \<Rightarrow> 'a multiset"
  assumes "sorted_wrt (<) (map fst m)"
  shows "sum_list (map f (map_erase k m)) + (case map_of m k of None \<Rightarrow> {#} | Some w \<Rightarrow> f (k, w)) = sum_list (map f m)"
  using assms
proof (induction m)
  case (Cons p m)
  show ?case
  proof (cases "fst p = k")
    case True
    with Cons.prems have "\<forall>x\<in>set m. k < fst x" by auto
    then have "map_erase k m = m" by (auto simp: map_erase_def filter_id_conv)
    with True show ?thesis by (cases p) (simp add: map_erase_def ac_simps)
  next
    case False
    with Cons show ?thesis by (cases p) (auto simp: map_erase_def ac_simps split: option.splits)
  qed
qed (simp add: map_erase_def)

lemma mset_pending: "mset (pending m) = sum_list (map (mset \<circ> pending_of) (mg_requests m))"
  by (simp add: pending_def mset_concat comp_def)

end
