(* ===== verification/Icmp_Manager_Correct.thy ===== *)
theory Icmp_Manager_Correct
  imports Icmp_Manager
begin

section \<open>Correctness of the ICMP request manager\<close>

text \<open>
  Every operation keeps the invariant of the table of requests; so every accepted request is answered exactly
  once, by a reply from the network or by the timer.
\<close>

lemma map_of_all: "map_of m k = Some v \<Longrightarrow> list_all P m \<Longrightarrow> P (k, v)"
  by (auto dest!: map_of_SomeD simp: list_all_iff)

lemma register_request_inv: "manager_inv m \<Longrightarrow> manager_inv (snd (register_request now q m))"
proof -
  assume m: "manager_inv m"
  let ?k = "rq_id q"
  define info where "info = (case map_of (mg_requests m) ?k of Some (Some info) \<Rightarrow> info
    | _ \<Rightarrow> \<lparr>ri_original_peer = rq_peer q, ri_tries = []\<rparr>)"
  have s: "sorted_wrt (<) (map fst (mg_requests m))" and ok: "list_all entry_ok (mg_requests m)" using m by (simp_all add: manager_inv_def)
  have old: "(case map_of (mg_requests m) ?k of None \<Rightarrow> {#} | Some w \<Rightarrow> mset (pending_of (?k, w))) =
      mset (map (\<lambda>t. (?k, ra_seqno t)) (ri_tries info))" and distinct: "distinct (map ra_seqno (ri_tries info))"
    using map_of_all [OF _ ok, of ?k] by (auto simp: info_def pending_of_def entry_ok_def split: option.splits)
  note ins = sum_map_insert [OF s, where f = "mset \<circ> pending_of" and k = ?k, unfolded comp_def, simplified old]
  show "manager_inv (snd (register_request now q m))"
  proof (cases "list_ex (\<lambda>i. ra_seqno i = rq_seqno q) (ri_tries info)")
    case True
    then have ne: "ri_tries info \<noteq> []" by auto
    have r: "register_request now q m = (IM_MSGS_DROP, m\<lparr>mg_requests := map_insert ?k (Some info) (mg_requests m)\<rparr>)"
      using True by (simp add: register_request_def flip: info_def)
    have e: "entry_ok (?k, Some info)" using ne distinct by (simp add: entry_ok_def)
    have p: "mset (pending_of (?k, Some info)) = mset (map (\<lambda>t. (?k, ra_seqno t)) (ri_tries info))" by (simp add: pending_of_def)
    have "mset (pending (snd (register_request now q m))) = mset (pending m)"
      using ins [of "Some info"] p by (simp add: r mset_pending comp_def)
    moreover have "mg_requests m \<noteq> []" using ne by (auto simp: info_def)
    ultimately show ?thesis
      using m map_insert_sorted [OF s] map_insert_all [OF ok e] by (simp add: manager_inv_def r)
  next
    case False
    define info' where "info' = info\<lparr>ri_tries := ri_tries info @ [\<lparr>ra_seqno = rq_seqno q, ra_timeout_ts = now + mg_request_timeout m\<rparr>]\<rparr>"
    have r: "register_request now q m = (IM_MSGS_PASS, m\<lparr>mg_requests := map_insert ?k (Some info') (mg_requests m), mg_timer := True,
        mg_accepted := mg_accepted m @ [(?k, rq_seqno q)]\<rparr>)"
      using False by (simp add: register_request_def info'_def flip: info_def)
    have e: "entry_ok (?k, Some info')" using False distinct by (auto simp: entry_ok_def info'_def list_ex_iff)
    have p: "mset (pending_of (?k, Some info')) = mset (map (\<lambda>t. (?k, ra_seqno t)) (ri_tries info)) + {#(?k, rq_seqno q)#}"
      by (simp add: pending_of_def info'_def)
    have "mset (pending (snd (register_request now q m))) = mset (pending m) + {#(?k, rq_seqno q)#}"
      using ins [of "Some info'"] p by (simp add: r mset_pending comp_def)
    then show ?thesis
      using m e map_insert_sorted [OF s] map_insert_all [OF ok e] by (simp add: manager_inv_def r)
  qed
qed

lemma find_attempt_member: "find_attempt reply ts = Some t \<Longrightarrow> t \<in> set ts"
  by (auto simp: find_attempt_def find_Some_iff split: if_splits list.splits)

lemma register_reply_inv: "manager_inv m \<Longrightarrow> manager_inv (snd (snd (register_reply r m)))"
proof -
  assume m: "manager_inv m"
  let ?k = "rp_id r"
  have s: "sorted_wrt (<) (map fst (mg_requests m))" and ok: "list_all entry_ok (mg_requests m)" using m by (simp_all add: manager_inv_def)
  show ?thesis
  proof (cases "\<exists>info t. map_of (mg_requests m) ?k = Some (Some info) \<and> find_attempt r (ri_tries info) = Some t")
    case False
    have "map_of (mg_requests m) ?k \<noteq> Some None" using map_of_all [OF _ ok, of ?k None] by (auto simp: entry_ok_def)
    with False m show ?thesis by (auto simp: register_reply_def split: option.splits)
  next
    case True
    then obtain info t where i: "map_of (mg_requests m) ?k = Some (Some info)" "find_attempt r (ri_tries info) = Some t" by blast
    define tries where "tries = remove1 t (ri_tries info)"
    define rs where "rs = (if tries = [] then map_erase ?k (mg_requests m)
      else map_insert ?k (Some (info\<lparr>ri_tries := tries\<rparr>)) (mg_requests m))"
    have r: "snd (snd (register_reply r m)) = m\<lparr>mg_requests := rs, mg_answered := mg_answered m @ [(?k, ra_seqno t)]\<rparr>"
      using i by (simp add: register_reply_def tries_def rs_def Let_def)
    have t: "t \<in> set (ri_tries info)" by (rule find_attempt_member [OF i(2)])
    then have "mset (ri_tries info) = mset tries + {#t#}" by (simp add: tries_def)
    then have p: "mset (pending_of (?k, Some info)) = mset (map (\<lambda>t. (?k, ra_seqno t)) tries) + {#(?k, ra_seqno t)#}"
      by (simp add: pending_of_def)
    have d: "distinct (map ra_seqno tries)"
      using map_of_all [OF i(1) ok] by (auto simp: entry_ok_def tries_def distinct_map intro: inj_on_subset dest: set_remove1_subset [THEN subsetD])
    have sum: "sum_list (map (mset \<circ> pending_of) rs) + {#(?k, ra_seqno t)#} = sum_list (map (mset \<circ> pending_of) (mg_requests m))"
    proof (cases "tries = []")
      case True
      then show ?thesis using sum_map_erase [OF s, of "mset \<circ> pending_of" ?k] i(1) p by (simp add: rs_def)
    next
      case False
      have "pending_of (?k, Some (info\<lparr>ri_tries := tries\<rparr>)) = map (\<lambda>t. (?k, ra_seqno t)) tries" by (simp add: pending_of_def)
      then show ?thesis
        using False sum_map_insert [OF s, of "mset \<circ> pending_of" ?k "Some (info\<lparr>ri_tries := tries\<rparr>)"] i(1) p
        by (simp add: rs_def)
    qed
    have "sorted_wrt (<) (map fst rs)" using map_erase_sorted [OF s] map_insert_sorted [OF s] by (simp add: rs_def)
    moreover have "list_all entry_ok rs"
      using map_erase_all [OF ok] map_insert_all [OF ok] d by (simp add: rs_def entry_ok_def)
    moreover have "mg_requests m \<noteq> []" using i(1) by auto
    ultimately show ?thesis
      using m sum unfolding r by (simp add: manager_inv_def mset_pending flip: sum)
  qed
qed

lemma expire_tries_eq:
  "expire_tries now k p ts = (filter (\<lambda>t. now < ra_timeout_ts t) ts,
     map (\<lambda>t. make_reply_on_timeout k p (ra_seqno t)) (filter (\<lambda>t. \<not> now < ra_timeout_ts t) ts))"
  by (induction ts) simp_all

lemma expire_requests_ok:
  assumes "list_all entry_ok rs" and "sorted_wrt (<) (map fst rs)"
  shows "\<exists>rs' raised. expire_requests now rs = Some (rs', raised) \<and> list_all entry_ok rs' \<and> sorted_wrt (<) (map fst rs') \<and>
    set (map fst rs') \<subseteq> set (map fst rs) \<and>
    mset (concat (map pending_of rs)) = mset (map (\<lambda>r. (rp_id r, rp_seqno r)) raised) + mset (concat (map pending_of rs')) \<and>
    list_all (\<lambda>(_, i). \<forall>t \<in> set (ri_tries (the i)). now < ra_timeout_ts t) rs'"
  using assms
proof (induction rs)
  case (Cons r rs)
  then obtain k info where r: "r = (k, Some info)" "distinct (map ra_seqno (ri_tries info))"
    by (cases r) (auto simp: entry_ok_def split: option.splits)
  let ?kept = "filter (\<lambda>t. now < ra_timeout_ts t) (ri_tries info)"
  let ?late = "filter (\<lambda>t. \<not> now < ra_timeout_ts t) (ri_tries info)"
  let ?e = "(k, Some (info\<lparr>ri_tries := ?kept\<rparr>))"
  from Cons obtain rs' raised where ih: "expire_requests now rs = Some (rs', raised)" "list_all entry_ok rs'"
    "sorted_wrt (<) (map fst rs')" "set (map fst rs') \<subseteq> set (map fst rs)"
    "mset (concat (map pending_of rs)) = mset (map (\<lambda>r. (rp_id r, rp_seqno r)) raised) + mset (concat (map pending_of rs'))"
    "list_all (\<lambda>(_, i). \<forall>t \<in> set (ri_tries (the i)). now < ra_timeout_ts t) rs'"
    by auto
  have d: "distinct (map ra_seqno ?kept)" using r(2) by (rule distinct_map_filter)
  have "mset (ri_tries info) = mset ?kept + mset ?late" unfolding mset_filter by (rule multiset_partition)
  then have "image_mset (\<lambda>t. (k, ra_seqno t)) (mset (ri_tries info)) =
      image_mset (\<lambda>t. (k, ra_seqno t)) (mset ?kept) + image_mset (\<lambda>t. (k, ra_seqno t)) (mset ?late)"
    by (metis image_mset_union)
  then have p: "mset (pending_of r) = mset (map (\<lambda>t. (k, ra_seqno t)) ?late) + mset (map (\<lambda>t. (k, ra_seqno t)) ?kept)"
    by (simp add: pending_of_def r add.commute)
  have l: "map (\<lambda>r. (rp_id r, rp_seqno r)) (map (\<lambda>t. make_reply_on_timeout k q (ra_seqno t)) ts) = map (\<lambda>t. (k, ra_seqno t)) ts" for q ts
    by (simp add: make_reply_on_timeout_def)
  define es where "es = (if ?kept = [] then [] else [?e])"
  let ?raised = "map (\<lambda>t. make_reply_on_timeout k (ri_original_peer info) (ra_seqno t)) ?late"
  have e: "expire_requests now (r # rs) = Some (es @ rs', ?raised @ raised)"
    using ih(1) by (simp add: r(1) expire_tries_eq es_def)
  have es: "list_all entry_ok es" "list_all (\<lambda>(_, i). \<forall>t \<in> set (ri_tries (the i)). now < ra_timeout_ts t) es"
    "set (map fst es) \<subseteq> {k}" "length es \<le> 1" "concat (map pending_of es) = map (\<lambda>t. (k, ra_seqno t)) ?kept"
    using d by (simp_all add: es_def entry_ok_def pending_of_def)
  have "\<forall>x \<in> set (map fst rs). k < x" using Cons.prems(2) by (simp add: r(1))
  with ih(4) have "\<forall>x \<in> set (map fst rs'). k < x" by blast
  with es(3,4) ih(3) have "sorted_wrt (<) (map fst (es @ rs'))" by (cases es) auto
  moreover have "set (map fst (es @ rs')) \<subseteq> set (map fst (r # rs))" using es(3) ih(4) by (auto simp: r(1))
  moreover have "mset (concat (map pending_of (r # rs))) =
      mset (map (\<lambda>r. (rp_id r, rp_seqno r)) (?raised @ raised)) + mset (concat (map pending_of (es @ rs')))"
    unfolding list.map(2) concat.simps map_append concat_append mset_append ih(5) p es(5) l by (simp only: ac_simps)
  moreover have "list_all entry_ok (es @ rs')" using es(1) ih(2) by simp
  moreover have "list_all (\<lambda>(_, i). \<forall>t \<in> set (ri_tries (the i)). now < ra_timeout_ts t) (es @ rs')"
    using es(2) ih(6) by simp
  ultimately show ?case using e by blast
qed simp

lemma manager_timer_inv:
  assumes "manager_inv m"
  shows "manager_inv (manager_timer_callback now m)"
    and "list_all (\<lambda>(_, i). \<forall>t \<in> set (ri_tries (the i)). now < ra_timeout_ts t) (mg_requests (manager_timer_callback now m))"
proof -
  from expire_requests_ok [of "mg_requests m" now] assms obtain rs raised
    where e: "expire_requests now (mg_requests m) = Some (rs, raised)" "list_all entry_ok rs" "sorted_wrt (<) (map fst rs)"
      "set (map fst rs) \<subseteq> set (map fst (mg_requests m))"
      "mset (concat (map pending_of (mg_requests m))) = mset (map (\<lambda>r. (rp_id r, rp_seqno r)) raised) + mset (concat (map pending_of rs))"
      "list_all (\<lambda>(_, i). \<forall>t \<in> set (ri_tries (the i)). now < ra_timeout_ts t) rs"
    by (auto simp: manager_inv_def)
  have "rs \<noteq> [] \<Longrightarrow> mg_requests m \<noteq> []" using e(4) by auto
  with e assms show "manager_inv (manager_timer_callback now m)"
    by (auto simp: manager_timer_callback_def manager_inv_def pending_def)
  show "list_all (\<lambda>(_, i). \<forall>t \<in> set (ri_tries (the i)). now < ra_timeout_ts t) (mg_requests (manager_timer_callback now m))"
    using e by (simp add: manager_timer_callback_def)
qed

lemma manager_step_inv: "manager_inv m \<Longrightarrow> manager_inv (manager_step e m)"
  by (cases e) (simp_all add: register_request_inv register_reply_inv manager_timer_inv)

definition manager_after :: "int option \<Rightarrow> manager_event list \<Rightarrow> icmp_manager" where
  "manager_after timeout events = fold manager_step events (manager_init timeout)"

lemma manager_reachable_inv: "manager_inv (manager_after t es)"
proof -
  have "manager_inv m \<Longrightarrow> manager_inv (fold manager_step es m)" for m
    by (induction es arbitrary: m) (simp_all add: manager_step_inv)
  then show ?thesis by (simp add: manager_after_def manager_inv_def manager_init_def pending_def)
qed

lemma distinct_pending: "list_all entry_ok rs \<Longrightarrow> sorted_wrt (<) (map fst rs) \<Longrightarrow> distinct (concat (map pending_of rs))"
proof (induction rs)
  case (Cons r rs)
  have "fst p = fst x" if "p \<in> set (pending_of x)" for p x
    using that by (auto simp: pending_of_def split: option.splits)
  moreover from Cons.prems have "\<forall>x \<in> set rs. fst r < fst x" by simp
  ultimately have "p \<notin> set (pending_of x)" if "p \<in> set (pending_of r)" "x \<in> set rs" for p x
    using that by (metis less_irrefl)
  then have "set (pending_of r) \<inter> set (concat (map pending_of rs)) = {}" by auto
  moreover from Cons.prems have "distinct (pending_of r)"
    by (auto simp: entry_ok_def pending_of_def distinct_map inj_on_def split: option.splits)
  ultimately show ?case using Cons by simp
qed simp

text \<open>
  (C14) Every echo request is answered exactly once: whatever requests, replies and timer events the manager
  sees, the requests it passed on are those that got a reply and those still waiting, counted with
  multiplicity; no identifier and sequence number waits twice, the timer is set while a request waits, and
  after the timer's callback no request waits past its deadline. No null pointer is met.
\<close>

theorem icmp_requests_answered_once:
  "mset (mg_accepted (manager_after timeout events)) =
     mset (mg_answered (manager_after timeout events)) + mset (pending (manager_after timeout events)) \<and>
   distinct (pending (manager_after timeout events)) \<and>
   (pending (manager_after timeout events) \<noteq> [] \<longrightarrow> mg_timer (manager_after timeout events)) \<and>
   \<not> mg_asserted (manager_after timeout events) \<and>
   list_all (\<lambda>(_, i). \<forall>t \<in> set (ri_tries (the i)). now < ra_timeout_ts t)
     (mg_requests (manager_timer_callback now (manager_after timeout events)))"
proof -
  have inv: "manager_inv (manager_after timeout events)" by (rule manager_reachable_inv)
  then have "distinct (pending (manager_after timeout events))" using distinct_pending by (simp add: pending_def manager_inv_def)
  with inv manager_timer_inv(2) [OF inv] show ?thesis by (auto simp: manager_inv_def pending_def)
qed

definition sample_ping :: "u16 \<Rightarrow> icmp_echo_request" where
  "sample_ping n = \<lparr>rq_peer = SocketAddress [8, 8, 8, 8] 0, rq_id = 7, rq_seqno = n, rq_ttl = 64, rq_data_size = 32\<rparr>"

definition sample_pong :: "u16 \<Rightarrow> icmp_echo_reply" where
  "sample_pong n = \<lparr>rp_peer = SocketAddress [8, 8, 8, 8] 0, rp_id = 7, rp_seqno = n, rp_type = 0, rp_code = 0\<rparr>"

theorem icmp_requests_answered_once_witness:
  "let m = manager_after (Some 10) [RequestEvent 0 (sample_ping 1), RequestEvent 5 (sample_ping 2), ReplyEvent (sample_pong 1)]
   in pending m = [(7, 2)] \<and> mg_timer m \<and> mg_answered m = [(7, 1)] \<and>
     list_all (\<lambda>(_, i). \<forall>t \<in> set (ri_tries (the i)). 15 < ra_timeout_ts t) (mg_requests (manager_timer_callback 15 m))"
proof -
  let ?es = "[RequestEvent 0 (sample_ping 1), RequestEvent 5 (sample_ping 2), ReplyEvent (sample_pong 1)]"
  have m: "mg_requests (manager_after (Some 10) ?es) = [(7, Some \<lparr>ri_original_peer = SocketAddress [8, 8, 8, 8] 0,
      ri_tries = [\<lparr>ra_seqno = 2, ra_timeout_ts = 15\<rparr>]\<rparr>)]" "mg_answered (manager_after (Some 10) ?es) = [(7, 1)]"
    by (simp_all add: manager_after_def manager_init_def register_request_def register_reply_def find_attempt_def sample_ping_def
        sample_pong_def ICMP_MT_ECHO_REPLY_def is_ipv4_def is_ipv6_def Let_def)
  then have "pending (manager_after (Some 10) ?es) = [(7, 2)]" by (simp add: pending_def pending_of_def)
  with m icmp_requests_answered_once [of "Some 10" ?es 15] show ?thesis by (simp add: Let_def)
qed

end
