(* ===== verification/Data_Buffer.thy ===== *)
theory Data_Buffer
  imports Net_Types
begin

section \<open>Buffers for unread data (\<^verbatim>\<open>core/src/memory_buffer.cpp\<close>, \<^verbatim>\<open>core/src/memfile_buffer.cpp\<close>)\<close>

text \<open>
  The two implementations of the interface \<^verbatim>\<open>DataBuffer\<close> in which an upstream keeps what the client
  side cannot take yet: a queue of chunks in memory, and such a queue of bounded size that continues in a
  file. A \<^verbatim>\<open>size_t\<close> is a natural number: all sizes are bounded by the memory and the file system, and
  the invariants below show that no subtraction goes below zero. A failed assertion sets a ghost flag.

  The buffer owns its file and the temporary copy beside it; they are fields of its state, \<open>None\<close> when
  the file does not exist. The outcomes of the file operations to come are the field \<open>mf_io\<close>, one for each
  operation that can fail or be incomplete; when the list is used up, operations succeed. The numbers and
  texts of system errors are left out.
\<close>

subsection \<open>Memory buffer\<close>

record memory_buffer =
  mb_total_size :: nat
  mb_chunks :: "bytes list"
  mb_asserted :: bool

definition new_memory_buffer :: memory_buffer where
  "new_memory_buffer = \<lparr>mb_total_size = 0, mb_chunks = [], mb_asserted = False\<rparr>"

definition memory_size :: "memory_buffer \<Rightarrow> nat" where
  "memory_size b = mb_total_size b"

definition memory_push :: "bytes \<Rightarrow> memory_buffer \<Rightarrow> memory_buffer" where
  "memory_push data b =
     (if data \<noteq> [] then b\<lparr>mb_total_size := mb_total_size b + length data, mb_chunks := mb_chunks b @ [data]\<rparr> else b)"

definition memory_peek :: "memory_buffer \<Rightarrow> bytes" where
  "memory_peek b = (if mb_chunks b \<noteq> [] then hd (mb_chunks b) else [])"

text \<open>The loop of \<^verbatim>\<open>drain\<close>; \<open>None\<close> is the failed assertion that there is a chunk.\<close>

function drain_chunks :: "nat \<Rightarrow> bytes list \<Rightarrow> bytes list option" where
  "drain_chunks n chunks =
     (if n > 0 then
        case chunks of
          [] \<Rightarrow> None
        | front # rest \<Rightarrow>
            let to_remove = min (length front) n;
                front = drop to_remove front
            in drain_chunks (n - to_remove) (if front = [] then rest else front # rest)
      else Some chunks)"
  by pat_completeness auto

termination
  by (relation "measure (\<lambda>(n, chunks). n + length chunks)") (auto simp: min_def)

declare drain_chunks.simps [simp del]

definition memory_drain :: "nat \<Rightarrow> memory_buffer \<Rightarrow> memory_buffer" where
  "memory_drain n b =
     (if n \<le> mb_total_size b then
        case drain_chunks n (mb_chunks b) of
          None \<Rightarrow> b\<lparr>mb_asserted := True\<rparr>
        | Some chunks \<Rightarrow> b\<lparr>mb_total_size := mb_total_size b - n, mb_chunks := chunks\<rparr>
      else b\<lparr>mb_asserted := True\<rparr>)"

subsection \<open>Files\<close>

datatype io_outcome = IoOk | IoPart nat | IoFail

datatype buffer_error =
    GetSizeFailed
  | SetOffsetFailed
  | UnexpectedEof
  | ReadFailed
  | SizeBelowOffset
  | RenameFailed
  | OpenFailed
  | OpenTempFailed
  | TransferFailed buffer_error
  | WriteFailed
  | StripFailed buffer_error
  | CapacityReached

record memfile_buffer =
  mf_mem_buffer :: memory_buffer
  mf_threshold :: nat
  mf_max_file_size :: nat
  mf_fd :: bool
  mf_read_offset :: nat
  mf_file :: "bytes option"
  mf_tmp_file :: "bytes option"
  mf_io :: "io_outcome list"
  mf_asserted :: bool

definition new_memfile_buffer :: "nat \<Rightarrow> nat \<Rightarrow> io_outcome list \<Rightarrow> memfile_buffer" where
  "new_memfile_buffer mem_threshold max_file_size io =
     \<lparr>mf_mem_buffer = new_memory_buffer, mf_threshold = mem_threshold, mf_max_file_size = max_file_size,
      mf_fd = False, mf_read_offset = 0, mf_file = None, mf_tmp_file = None, mf_io = io, mf_asserted = False\<rparr>"

definition next_io :: "memfile_buffer \<Rightarrow> io_outcome \<times> memfile_buffer" where
  "next_io m = (case mf_io m of [] \<Rightarrow> (IoOk, m) | o1 # os \<Rightarrow> (o1, m\<lparr>mf_io := os\<rparr>))"

definition file_content :: "bytes option \<Rightarrow> bytes" where
  "file_content f = (case f of None \<Rightarrow> [] | Some d \<Rightarrow> d)"

text \<open>What one read of at most \<open>n\<close> bytes gives (\<open>None\<close> for an error) and what one write takes.\<close>

definition transferred :: "io_outcome \<Rightarrow> bytes \<Rightarrow> bytes option" where
  "transferred r d =
     (case r of IoOk \<Rightarrow> Some d | IoPart k \<Rightarrow> Some (take (max 1 k) d) | IoFail \<Rightarrow> None)"

text \<open>\<^verbatim>\<open>file::get_size\<close> of the open file; \<open>None\<close> is a negative result.\<close>

definition get_file_size :: "memfile_buffer \<Rightarrow> nat option \<times> memfile_buffer" where
  "get_file_size m =
     (let (r, m) = next_io m
      in (if r = IoFail then None else Some (length (file_content (mf_file m))), m))"

subsection \<open>Memory and file buffer\<close>

definition memfile_size :: "memfile_buffer \<Rightarrow> nat \<times> memfile_buffer" where
  "memfile_size m =
     (let (fsize, m) = (if mf_fd m then get_file_size m else (Some 0, m));
          m = (if (case fsize of None \<Rightarrow> False | Some s \<Rightarrow> s \<ge> mf_read_offset m) then m else m\<lparr>mf_asserted := True\<rparr>);
          stored_in_file = (case fsize of None \<Rightarrow> 0 | Some s \<Rightarrow> s) - mf_read_offset m
      in (memory_size (mf_mem_buffer m) + stored_in_file, m))"

definition get_free_mem_space :: "memfile_buffer \<Rightarrow> nat" where
  "get_free_mem_space m = mf_threshold m - memory_size (mf_mem_buffer m)"

definition mem_push :: "bytes \<Rightarrow> memfile_buffer \<Rightarrow> memfile_buffer" where
  "mem_push data m = m\<lparr>mf_mem_buffer := memory_push data (mf_mem_buffer m)\<rparr>"

text \<open>Reading \<open>n\<close> more bytes behind the offset; the offset moves on with every successful read.\<close>

function read_file :: "nat \<Rightarrow> bytes \<Rightarrow> memfile_buffer \<Rightarrow> (buffer_error + bytes) \<times> memfile_buffer" where
  "read_file n buf m =
     (if n > 0 then
        let (r, m) = next_io m
        in case transferred r (take n (drop (mf_read_offset m) (file_content (mf_file m)))) of
             None \<Rightarrow> (Inl ReadFailed, m)
           | Some d \<Rightarrow>
               if d = [] then (Inl UnexpectedEof, m)
               else read_file (n - length d) (buf @ d) (m\<lparr>mf_read_offset := mf_read_offset m + length d\<rparr>)
      else (Inr buf, m))"
  by pat_completeness auto

termination
  by (relation "measure (\<lambda>(n, _, _). n)") auto

declare read_file.simps [simp del]

definition transfer_file2mem :: "memfile_buffer \<Rightarrow> buffer_error option \<times> memfile_buffer" where
  "transfer_file2mem m =
     (if \<not> mf_fd m then (None, m)
      else
        let free_space = get_free_mem_space m
        in if free_space = 0 then (None, m)
           else
             let (fsize, m) = get_file_size m
             in case fsize of
                  None \<Rightarrow> (Some GetSizeFailed, m)
                | Some fsize \<Rightarrow>
                    if fsize = 0 then (None, m)
                    else
                      let m = (if fsize \<ge> mf_read_offset m then m else m\<lparr>mf_asserted := True\<rparr>);
                          to_read = min free_space (fsize - mf_read_offset m)
                      in if fsize = mf_read_offset m then (None, m)
                         else
                           let (r, m) = next_io m
                           in if r = IoFail then (Some SetOffsetFailed, m)
                              else
                                let (buf, m) = read_file to_read [] m
                                in case buf of
                                     Inl e \<Rightarrow> (Some e, m)
                                   | Inr d \<Rightarrow> (None, mem_push d m))"

definition transfer_mem2mem :: "bytes \<Rightarrow> memfile_buffer \<Rightarrow> bytes \<times> memfile_buffer" where
  "transfer_mem2mem data m =
     (let free_space = get_free_mem_space m
      in if free_space = 0 then (data, m)
         else
           let chunk = (if free_space \<ge> length data then data else take free_space data)
           in (drop (length chunk) data, mem_push chunk m))"

text \<open>
  The overload for vectors: a vector that fits is moved into the chunk, and then as many elements are erased
  from the vector, which is empty; \<open>None\<close> is the undefined behaviour of erasing past the end.
\<close>

definition transfer_vector :: "bytes \<Rightarrow> memfile_buffer \<Rightarrow> (bytes \<times> memfile_buffer) option" where
  "transfer_vector data m =
     (let free_space = get_free_mem_space m
      in if free_space = 0 then Some (data, m)
         else
           let (chunk, data) = (if free_space \<ge> length data then (data, []) else (take free_space data, data))
           in if length chunk > length data then None
              else Some (drop (length chunk) data, mem_push chunk m))"

text \<open>
  Copying \<open>len\<close> bytes of the temporary file behind position \<open>pos\<close> to the end of the file. Every read stores to
  the beginning of the buffer, and every write takes the beginning of the buffer.
\<close>

function copy_read :: "nat \<Rightarrow> nat \<Rightarrow> nat \<Rightarrow> bytes \<Rightarrow> memfile_buffer \<Rightarrow> (buffer_error + bytes) \<times> memfile_buffer" where
  "copy_read len buf_pos pos buf m =
     (if buf_pos < len then
        let (r, m) = next_io m
        in case transferred r (take (len - buf_pos) (drop pos (file_content (mf_tmp_file m)))) of
             None \<Rightarrow> (Inl ReadFailed, m)
           | Some d \<Rightarrow>
               if d = [] then (Inl UnexpectedEof, m)
               else copy_read len (buf_pos + length d) (pos + length d) (d @ drop (length d) buf) m
      else (Inr buf, m))"
  by pat_completeness auto

termination
  by (relation "measure (\<lambda>(len, buf_pos, _). len - buf_pos)") (auto intro: diff_less_mono2)

declare copy_read.simps [simp del]

function copy_write :: "nat \<Rightarrow> nat \<Rightarrow> bytes \<Rightarrow> memfile_buffer \<Rightarrow> buffer_error option \<times> memfile_buffer" where
  "copy_write len buf_pos buf m =
     (if buf_pos < len then
        let (r, m) = next_io m
        in case transferred r (take (len - buf_pos) buf) of
             None \<Rightarrow> (Some WriteFailed, m)
           | Some d \<Rightarrow>
               if d = [] then (Some WriteFailed, m)
               else copy_write len (buf_pos + length d) buf (m\<lparr>mf_file := Some (file_content (mf_file m) @ d)\<rparr>)
      else (None, m))"
  by pat_completeness auto

termination
  by (relation "measure (\<lambda>(len, buf_pos, _). len - buf_pos)") (auto intro: diff_less_mono2)

declare copy_write.simps [simp del]

definition transfer_file2file :: "nat \<Rightarrow> nat \<Rightarrow> memfile_buffer \<Rightarrow> buffer_error option \<times> memfile_buffer" where
  "transfer_file2file pos len m =
     (if len = 0 then (None, m)
      else
        let (buf, m) = copy_read len 0 pos (replicate len 0) m
        in case buf of
             Inl e \<Rightarrow> (Some e, m)
           | Inr buf \<Rightarrow> copy_write len 0 buf m)"

definition need_to_strip_file :: "nat \<Rightarrow> nat \<Rightarrow> memfile_buffer \<Rightarrow> bool" where
  "need_to_strip_file fsize data_size m \<longleftrightarrow>
     fsize + data_size > mf_max_file_size m \<or>
     (mf_read_offset m > 0 \<and>
       (mf_read_offset m > mf_max_file_size m * 3 div 10 \<or> mf_read_offset m > fsize * 3 div 10 \<or>
        fsize > mf_max_file_size m * 8 div 10))"

text \<open>From the opening of the new file to the label \<^verbatim>\<open>exit\<close>, with the old content in the temporary file.\<close>

definition strip_copy :: "nat \<Rightarrow> memfile_buffer \<Rightarrow> buffer_error option \<times> memfile_buffer" where
  "strip_copy fsize m =
     (let (r, m) = next_io m
      in if r = IoFail then (Some OpenFailed, m)
         else
           let m = m\<lparr>mf_fd := True, mf_file := Some (file_content (mf_file m))\<rparr>;
               (r, m) = next_io m
           in if r = IoFail then (Some OpenTempFailed, m)
              else
                let (r, m) = next_io m
                in if r = IoFail then (Some SetOffsetFailed, m)
                   else
                     let (err, m) = transfer_file2file (mf_read_offset m) (fsize - mf_read_offset m) m
                     in case err of
                          Some e \<Rightarrow> (Some (TransferFailed e), m)
                        | None \<Rightarrow> (None, m\<lparr>mf_read_offset := 0\<rparr>))"

text \<open>The clean-up after \<^verbatim>\<open>exit\<close>: in case of an error the temporary file is moved back.\<close>

definition strip_exit :: "buffer_error option \<Rightarrow> memfile_buffer \<Rightarrow> memfile_buffer" where
  "strip_exit err m =
     (let m = (if err \<noteq> None then
                 let m = m\<lparr>mf_fd := False\<rparr>;
                     (r, m) = next_io m;
                     m = (if r = IoFail then m else m\<lparr>mf_file := None\<rparr>);
                     (r, m) = next_io m
                 in if r = IoFail then m
                    else
                      let m = m\<lparr>mf_file := mf_tmp_file m, mf_tmp_file := None\<rparr>;
                          (r, m) = next_io m
                      in if r = IoFail then m else m\<lparr>mf_fd := True\<rparr>
               else m);
          (r, m) = next_io m
      in if r = IoFail then m else m\<lparr>mf_tmp_file := None\<rparr>)"

definition strip_file :: "memfile_buffer \<Rightarrow> buffer_error option \<times> memfile_buffer" where
  "strip_file m =
     (let (fsize, m) = get_file_size m
      in case fsize of
           None \<Rightarrow> (Some GetSizeFailed, m)
         | Some fsize \<Rightarrow>
             if fsize < mf_read_offset m then (Some SizeBelowOffset, m)
             else
               let m = m\<lparr>mf_fd := False\<rparr>;
                   (r, m) = next_io m
               in if r = IoFail then (Some RenameFailed, m)
                  else
                    let m = m\<lparr>mf_tmp_file := mf_file m, mf_file := None\<rparr>;
                        (err, m) = strip_copy fsize m
                    in (err, strip_exit err m))"

definition append_to_file :: "bytes \<Rightarrow> memfile_buffer \<Rightarrow> buffer_error option \<times> memfile_buffer" where
  "append_to_file data m =
     (let (fsize, m) = get_file_size m
      in case fsize of
           None \<Rightarrow> (Some GetSizeFailed, m)
         | Some fsize \<Rightarrow>
             if fsize \<ge> mf_max_file_size m then (Some CapacityReached, m)
             else
               let data = take (min (length data) (mf_max_file_size m - fsize)) data
               in if data = [] then (None, m)
                  else
                    let (r, m) = next_io m
                    in case transferred r data of
                         None \<Rightarrow> (Some WriteFailed, m)
                       | Some d \<Rightarrow> (None, m\<lparr>mf_file := Some (file_content (mf_file m) @ d)\<rparr>))"

definition write_open_file :: "bytes \<Rightarrow> memfile_buffer \<Rightarrow> buffer_error option \<times> memfile_buffer" where
  "write_open_file data m =
     (let (fsize, m) = get_file_size m
      in case fsize of
           None \<Rightarrow> (Some GetSizeFailed, m)
         | Some fsize \<Rightarrow>
             let (err, m) = (if need_to_strip_file fsize (length data) m then strip_file m else (None, m))
             in case err of
                  Some e \<Rightarrow> (Some (StripFailed e), m)
                | None \<Rightarrow> append_to_file data m)"

definition write_in_file :: "bytes \<Rightarrow> memfile_buffer \<Rightarrow> buffer_error option \<times> memfile_buffer" where
  "write_in_file data m =
     (if data = [] then (None, m)
      else if mf_fd m then write_open_file data m
      else
        let (r, m) = next_io m
        in if r = IoFail then (Some OpenFailed, m)
           else write_open_file data (m\<lparr>mf_fd := True, mf_file := Some (file_content (mf_file m))\<rparr>))"

definition memfile_push :: "bytes \<Rightarrow> memfile_buffer \<Rightarrow> buffer_error option \<times> memfile_buffer" where
  "memfile_push data m =
     (let (data, m) = transfer_mem2mem data m
      in write_in_file data m)"

definition memfile_push_vector :: "bytes \<Rightarrow> memfile_buffer \<Rightarrow> (buffer_error option \<times> memfile_buffer) option" where
  "memfile_push_vector data m =
     map_option (\<lambda>(data, m). write_in_file data m) (transfer_vector data m)"

definition memfile_peek :: "memfile_buffer \<Rightarrow> (buffer_error + bytes) \<times> memfile_buffer" where
  "memfile_peek m =
     (let (err, m) = transfer_file2mem m
      in case err of
           Some e \<Rightarrow> (Inl e, m)
         | None \<Rightarrow> (Inr (memory_peek (mf_mem_buffer m)), m))"

definition memfile_drain :: "nat \<Rightarrow> memfile_buffer \<Rightarrow> memfile_buffer" where
  "memfile_drain n m =
     snd (transfer_file2mem (m\<lparr>mf_mem_buffer := memory_drain n (mf_mem_buffer m)\<rparr>))"

subsection \<open>Dispatch\<close>

text \<open>
  The virtual functions of \<^verbatim>\<open>DataBuffer\<close>, and \<^verbatim>\<open>VpnClient::make_buffer\<close>: a buffer with a file when
  the client has a directory for temporary files.
\<close>

datatype data_buffer = MemoryBuffer memory_buffer | MemfileBuffer memfile_buffer

definition make_buffer :: "(nat \<times> nat \<times> io_outcome list) option \<Rightarrow> data_buffer" where
  "make_buffer config =
     (case config of
        Some (threshold, max_file_size, io) \<Rightarrow> MemfileBuffer (new_memfile_buffer threshold max_file_size io)
      | None \<Rightarrow> MemoryBuffer new_memory_buffer)"

definition buffer_size :: "data_buffer \<Rightarrow> nat \<times> data_buffer" where
  "buffer_size b =
     (case b of
        MemoryBuffer m \<Rightarrow> (memory_size m, MemoryBuffer m)
      | MemfileBuffer m \<Rightarrow> map_prod id MemfileBuffer (memfile_size m))"

definition buffer_push :: "bytes \<Rightarrow> data_buffer \<Rightarrow> buffer_error option \<times> data_buffer" where
  "buffer_push data b =
     (case b of
        MemoryBuffer m \<Rightarrow> (None, MemoryBuffer (memory_push data m))
      | MemfileBuffer m \<Rightarrow> map_prod id MemfileBuffer (memfile_push data m))"

definition buffer_peek :: "data_buffer \<Rightarrow> (buffer_error + bytes) \<times> data_buffer" where
  "buffer_peek b =
     (case b of
        MemoryBuffer m \<Rightarrow> (Inr (memory_peek m), MemoryBuffer m)
      | MemfileBuffer m \<Rightarrow> map_prod id MemfileBuffer (memfile_peek m))"

definition buffer_drain :: "nat \<Rightarrow> data_buffer \<Rightarrow> data_buffer" where
  "buffer_drain n b =
     (case b of MemoryBuffer m \<Rightarrow> MemoryBuffer (memory_drain n m) | MemfileBuffer m \<Rightarrow> MemfileBuffer (memfile_drain n m))"

end
