(* ===== verification/Data_Buffer_Correct.thy ===== *)
theory Data_Buffer_Correct
  imports Data_Buffer "HOL-Library.Sublist" "HOL-Library.Extended_Nat"
begin

section \<open>Correctness of the data buffers\<close>

text \<open>
  The contract of \<^verbatim>\<open>DataBuffer\<close> as a locale, its interpretations on the buffer in memory, the buffer with a file
  and the dispatch between them, and what happens at the limits: a full file, a short read, the overload for vectors.
\<close>

subsection \<open>The contract of a buffer\<close>

text \<open>
  What \<^verbatim>\<open>DataBuffer\<close> promises, for a state in which it works (\<open>ok\<close>): the contents are a queue of bytes; \<^verbatim>\<open>push\<close>
  appends to it while the result is within the capacity; \<^verbatim>\<open>peek\<close> shows a beginning of it, which is empty only
  if the queue is; \<^verbatim>\<open>drain\<close> removes some of what was shown.
\<close>

locale fifo_buffer =
  fixes contents :: "'b \<Rightarrow> bytes" and ok :: "'b \<Rightarrow> bool" and capacity :: "'b \<Rightarrow> enat"
    and size_op :: "'b \<Rightarrow> nat \<times> 'b" and push :: "bytes \<Rightarrow> 'b \<Rightarrow> 'e option \<times> 'b"
    and peek :: "'b \<Rightarrow> ('e + bytes) \<times> 'b" and drain :: "nat \<Rightarrow> 'b \<Rightarrow> 'b"
  assumes size_contents: "ok b \<Longrightarrow> size_op b = (length (contents b), b)"
    and push_contents: "ok b \<Longrightarrow> enat (length (contents b @ d)) \<le> capacity b \<Longrightarrow>
      \<exists>b'. push d b = (None, b') \<and> ok b' \<and> contents b' = contents b @ d \<and> capacity b' = capacity b"
    and peek_contents: "ok b \<Longrightarrow> \<exists>d. peek b = (Inr d, b) \<and> prefix d (contents b) \<and> (contents b \<noteq> [] \<longrightarrow> d \<noteq> [])"
    and drain_contents: "ok b \<Longrightarrow> peek b = (Inr d, b) \<Longrightarrow> n \<le> length d \<Longrightarrow>
      ok (drain n b) \<and> contents (drain n b) = drop n (contents b) \<and> capacity (drain n b) = capacity b"
begin

text \<open>A use of a buffer: data is pushed, or up to \<open>n\<close> of the bytes shown are taken. \<open>None\<close> is an error of an operation.\<close>

primrec use :: "(bytes + nat) list \<Rightarrow> 'b \<Rightarrow> (bytes \<times> 'b) option" where
  "use [] b = Some ([], b)"
| "use (x # xs) b =
     (case x of
        Inl d \<Rightarrow> (case push d b of (None, b) \<Rightarrow> use xs b | _ \<Rightarrow> None)
      | Inr n \<Rightarrow>
          (case peek b of
             (Inr d, b) \<Rightarrow> map_option (\<lambda>(out, b). (take n d @ out, b)) (use xs (drain (min n (length d)) b))
           | _ \<Rightarrow> None))"

primrec pushed :: "(bytes + nat) list \<Rightarrow> bytes" where
  "pushed [] = []"
| "pushed (x # xs) = (case x of Inl d \<Rightarrow> d @ pushed xs | Inr _ \<Rightarrow> pushed xs)"

lemma use_fifo:
  assumes "ok b" and "enat (length (contents b @ pushed xs)) \<le> capacity b"
  shows "\<exists>out b'. use xs b = Some (out, b') \<and> ok b' \<and> capacity b' = capacity b \<and> out @ contents b' = contents b @ pushed xs"
  using assms
proof (induction xs arbitrary: b)
  case (Cons x xs)
  show ?case
  proof (cases x)
    case (Inl d)
    have "enat (length (contents b @ d)) \<le> enat (length (contents b @ pushed (x # xs)))" by (simp add: Inl)
    then have "enat (length (contents b @ d)) \<le> capacity b" using Cons.prems(2) by (rule order_trans)
    from push_contents [OF Cons.prems(1) this] obtain b'
      where b': "push d b = (None, b')" "ok b'" "contents b' = contents b @ d" "capacity b' = capacity b" by blast
    with Cons.prems(2) have "enat (length (contents b' @ pushed xs)) \<le> capacity b'" by (simp add: Inl)
    from Cons.IH [OF b'(2) this] b' show ?thesis by (auto simp: Inl)
  next
    case (Inr n)
    from peek_contents [OF Cons.prems(1)] obtain d where p: "peek b = (Inr d, b)" "prefix d (contents b)" by blast
    let ?b = "drain (min n (length d)) b"
    from drain_contents [OF Cons.prems(1) p(1), of "min n (length d)"]
    have b': "ok ?b" "contents ?b = drop (min n (length d)) (contents b)" "capacity ?b = capacity b" by simp_all
    have "enat (length (contents ?b @ pushed xs)) \<le> enat (length (contents b @ pushed (x # xs)))" by (simp add: Inr b')
    then have "enat (length (contents ?b @ pushed xs)) \<le> capacity ?b"
      unfolding b'(3) using Cons.prems(2) by (rule order_trans)
    from Cons.IH [OF b'(1) this] obtain out b'' where u: "use xs ?b = Some (out, b'')" "ok b''" "capacity b'' = capacity b"
      "out @ contents b'' = contents ?b @ pushed xs" using b'(3) by auto
    have "take n d @ drop (min n (length d)) (contents b) = contents b"
      using p(2) by (auto simp: prefix_def min_def)
    with u b' p(1) show ?thesis by (simp add: Inr)
  qed
qed simp

end

subsection \<open>Memory buffer\<close>

definition memory_contents :: "memory_buffer \<Rightarrow> bytes" where
  "memory_contents b = concat (mb_chunks b)"

definition memory_ok :: "memory_buffer \<Rightarrow> bool" where
  "memory_ok b \<longleftrightarrow> mb_total_size b = length (concat (mb_chunks b)) \<and> [] \<notin> set (mb_chunks b) \<and> \<not> mb_asserted b"

lemma drain_chunks_ok:
  "n \<le> length (concat cs) \<Longrightarrow> [] \<notin> set cs \<Longrightarrow>
     \<exists>cs'. drain_chunks n cs = Some cs' \<and> concat cs' = drop n (concat cs) \<and> [] \<notin> set cs'"
proof (induction n cs rule: drain_chunks.induct)
  case (1 n cs)
  show ?case
  proof (cases "n = 0")
    case True
    with 1 show ?thesis by (simp add: drain_chunks.simps)
  next
    case False
    with 1(2) obtain c rest where cs: "cs = c # rest" by (cases cs) auto
    let ?k = "min (length c) n"
    let ?cs = "if drop ?k c = [] then rest else drop ?k c # rest"
    have "n - ?k \<le> length (concat ?cs)" "[] \<notin> set ?cs" using 1(2,3) cs by (auto simp: min_def)
    from 1(1) [OF _ cs refl refl this] False obtain cs'
      where cs': "drain_chunks (n - ?k) ?cs = Some cs'" "concat cs' = drop (n - ?k) (concat ?cs)" "[] \<notin> set cs'"
      by auto
    have "drop (n - ?k) (concat ?cs) = drop n (concat cs)" using cs by (auto simp: min_def)
    moreover have "drain_chunks n cs = drain_chunks (n - ?k) ?cs"
      using False cs by (subst drain_chunks.simps) (simp add: Let_def)
    ultimately show ?thesis using cs' by auto
  qed
qed

lemma memory_push_ok: "memory_ok b \<Longrightarrow> memory_ok (memory_push d b) \<and> memory_contents (memory_push d b) = memory_contents b @ d"
  by (auto simp: memory_ok_def memory_push_def memory_contents_def)

lemma memory_drain_ok:
  assumes "memory_ok b" and "n \<le> mb_total_size b"
  shows "memory_ok (memory_drain n b)" and "memory_contents (memory_drain n b) = drop n (memory_contents b)"
    and "mb_total_size (memory_drain n b) = mb_total_size b - n"
proof -
  from drain_chunks_ok [of n "mb_chunks b"] assms obtain cs
    where cs: "drain_chunks n (mb_chunks b) = Some cs" "concat cs = drop n (concat (mb_chunks b))" "[] \<notin> set cs"
    by (auto simp: memory_ok_def)
  then have d: "memory_drain n b = b\<lparr>mb_total_size := mb_total_size b - n, mb_chunks := cs\<rparr>"
    using assms by (simp add: memory_drain_def)
  show "memory_ok (memory_drain n b)" "memory_contents (memory_drain n b) = drop n (memory_contents b)"
    "mb_total_size (memory_drain n b) = mb_total_size b - n"
    using assms(1) cs unfolding d by (simp_all add: memory_ok_def memory_contents_def)
qed

lemma memory_peek_prefix:
  "memory_ok b \<Longrightarrow> prefix (memory_peek b) (memory_contents b) \<and> (memory_contents b \<noteq> [] \<longrightarrow> memory_peek b \<noteq> [])"
  by (cases "mb_chunks b") (auto simp: memory_ok_def memory_peek_def memory_contents_def)

lemma memory_peek_length: "memory_ok b \<Longrightarrow> length (memory_peek b) \<le> mb_total_size b"
  by (cases "mb_chunks b") (auto simp: memory_ok_def memory_peek_def)

interpretation memory_fifo: fifo_buffer memory_contents memory_ok "\<lambda>_. \<infinity>" "\<lambda>b. (memory_size b, b)"
  "\<lambda>d b. (None :: buffer_error option, memory_push d b)" "\<lambda>b. (Inr (memory_peek b) :: buffer_error + bytes, b)" memory_drain
proof unfold_locales
  fix b n d
  assume "memory_ok b" "(Inr (memory_peek b) :: buffer_error + bytes, b) = (Inr d, b)" "n \<le> length d"
  then have "n \<le> mb_total_size b" using memory_peek_length [of b] by auto
  with memory_drain_ok [OF \<open>memory_ok b\<close>]
  show "memory_ok (memory_drain n b) \<and> memory_contents (memory_drain n b) = drop n (memory_contents b) \<and> \<infinity> = (\<infinity> :: enat)"
    by simp
qed (auto simp: memory_size_def memory_push_ok memory_peek_prefix, simp add: memory_ok_def memory_contents_def)

subsection \<open>Memory and file buffer\<close>

definition unread :: "memfile_buffer \<Rightarrow> bytes" where
  "unread m = drop (mf_read_offset m) (file_content (mf_file m))"

definition memfile_contents :: "memfile_buffer \<Rightarrow> bytes" where
  "memfile_contents m = memory_contents (mf_mem_buffer m) @ unread m"

definition memfile_inv :: "memfile_buffer \<Rightarrow> bool" where
  "memfile_inv m \<longleftrightarrow>
     memory_ok (mf_mem_buffer m) \<and> mb_total_size (mf_mem_buffer m) \<le> mf_threshold m \<and> 0 < mf_threshold m \<and>
     \<not> mf_asserted m \<and> mf_io m = [] \<and> mf_read_offset m \<le> length (file_content (mf_file m)) \<and>
     length (file_content (mf_file m)) \<le> mf_max_file_size m \<and>
     (if mf_fd m then mf_file m \<noteq> None else file_content (mf_file m) = [])"

text \<open>Between operations, data is in the file only while the memory is full.\<close>

definition memfile_ok :: "memfile_buffer \<Rightarrow> bool" where
  "memfile_ok m \<longleftrightarrow> memfile_inv m \<and> (unread m \<noteq> [] \<longrightarrow> mb_total_size (mf_mem_buffer m) = mf_threshold m)"

lemma io_ok [simp]:
  "mf_io m = [] \<Longrightarrow> next_io m = (IoOk, m)"
  "mf_io m = [] \<Longrightarrow> get_file_size m = (Some (length (file_content (mf_file m))), m)"
  "transferred IoOk d = Some d"
  "file_content (Some d) = d"
  by (simp_all add: next_io_def get_file_size_def transferred_def file_content_def)

lemma read_file_all:
  assumes "mf_io m = []" and "mf_read_offset m + n \<le> length (file_content (mf_file m))"
  shows "read_file n buf m =
    (Inr (buf @ take n (unread m)), m\<lparr>mf_read_offset := mf_read_offset m + n\<rparr>)"
proof (cases "n = 0")
  case False
  have l: "length (take n (unread m)) = n" using assms(2) by (simp add: unread_def)
  with False have "take n (unread m) \<noteq> []" by force
  with False assms(1) l show ?thesis
    by (subst read_file.simps) (simp add: read_file.simps [of 0] flip: unread_def)
qed (simp add: read_file.simps)

lemma transfer_file2mem_ok:
  assumes "memfile_inv m"
  shows "\<exists>m'. transfer_file2mem m = (None, m') \<and> memfile_ok m' \<and> memfile_contents m' = memfile_contents m \<and>
    mf_threshold m' = mf_threshold m \<and> mf_max_file_size m' = mf_max_file_size m \<and> (memfile_ok m \<longrightarrow> m' = m)"
proof -
  let ?f = "file_content (mf_file m)" and ?b = "mf_mem_buffer m"
  have io: "mf_io m = []" and off: "mf_read_offset m \<le> length ?f" and mem: "memory_ok ?b"
    using assms by (simp_all add: memfile_inv_def)
  show ?thesis
  proof (cases "mf_fd m \<and> get_free_mem_space m \<noteq> 0 \<and> unread m \<noteq> []")
    case False
    have "transfer_file2mem m = (None, m)" using False io off by (auto simp: transfer_file2mem_def unread_def Let_def)
    moreover have "memfile_ok m"
      using False assms by (auto simp: memfile_ok_def memfile_inv_def unread_def get_free_mem_space_def memory_size_def)
    ultimately show ?thesis by simp
  next
    case True
    define k where "k = min (get_free_mem_space m) (length (unread m))"
    define m1 where "m1 = m\<lparr>mf_read_offset := mf_read_offset m + k\<rparr>"
    have k: "mf_read_offset m + k \<le> length ?f" "k = min (get_free_mem_space m) (length ?f - mf_read_offset m)"
      using True by (auto simp: k_def unread_def)
    have nz: "length ?f \<noteq> 0" "length ?f \<noteq> mf_read_offset m" using True by (auto simp: unread_def)
    have r: "read_file (min (get_free_mem_space m) (length ?f - mf_read_offset m)) [] m = (Inr (take k (unread m)), m1)"
      using read_file_all [OF io k(1), of "[]"] by (simp add: m1_def flip: k(2))
    have t: "transfer_file2mem m = (None, mem_push (take k (unread m)) m1)"
      using True io off nz by (simp add: transfer_file2mem_def Let_def r)
    have u: "unread m1 = drop k (unread m)" by (simp add: m1_def unread_def add.commute)
    let ?b' = "memory_push (take k (unread m)) ?b"
    have b': "memory_ok ?b'" "memory_contents ?b' = memory_contents ?b @ take k (unread m)"
      using memory_push_ok [OF mem] by simp_all
    have size: "mb_total_size ?b' = mb_total_size ?b + k"
      using k True by (auto simp: memory_push_def k_def unread_def)
    let ?m2 = "mem_push (take k (unread m)) m1"
    have m2: "unread ?m2 = drop k (unread m)" "mf_mem_buffer ?m2 = ?b'"
      using u by (simp_all add: mem_push_def unread_def m1_def)
    have "memfile_contents ?m2 = memfile_contents m" using b' by (simp add: memfile_contents_def m2)
    moreover have "memfile_ok ?m2"
    proof -
      have full: "mb_total_size ?b + k \<le> mf_threshold m" "drop k (unread m) \<noteq> [] \<Longrightarrow> mb_total_size ?b + k = mf_threshold m"
        using assms by (auto simp: k_def get_free_mem_space_def memory_size_def memfile_inv_def min_def split: if_splits)
      then have "memfile_inv ?m2" using assms k(1) b'(1) size by (simp add: memfile_inv_def mem_push_def m1_def)
      with full(2) size show ?thesis by (simp only: memfile_ok_def m2) (simp add: mem_push_def m1_def)
    qed
    moreover have "\<not> memfile_ok m" using True by (auto simp: memfile_ok_def get_free_mem_space_def memory_size_def)
    moreover have "mf_threshold ?m2 = mf_threshold m" "mf_max_file_size ?m2 = mf_max_file_size m"
      by (simp_all add: mem_push_def m1_def)
    ultimately show ?thesis using t by simp
  qed
qed

lemma copy_read_all:
  assumes "mf_io m = []" and "pos + n \<le> length (file_content (mf_tmp_file m))" and "length buf = n"
  shows "copy_read n 0 pos buf m = (Inr (take n (drop pos (file_content (mf_tmp_file m)))), m)"
proof (cases "n = 0")
  case False
  let ?d = "take n (drop pos (file_content (mf_tmp_file m)))"
  have l: "length ?d = n" using assms(2) by simp
  with False have d: "?d \<noteq> []" by force
  have "?d @ drop (length ?d) buf = ?d" using l assms(3) by simp
  then have "copy_read n 0 pos buf m = copy_read n (0 + length ?d) (pos + length ?d) ?d m"
    using False d assms(1) by (subst copy_read.simps) simp
  also have "\<dots> = (Inr ?d, m)" unfolding l by (subst copy_read.simps) simp
  finally show ?thesis .
qed (use assms in \<open>simp add: copy_read.simps\<close>)

lemma copy_write_all:
  assumes "mf_io m = []" and "length buf = n" and "n \<noteq> 0"
  shows "copy_write n 0 buf m = (None, m\<lparr>mf_file := Some (file_content (mf_file m) @ buf)\<rparr>)"
proof -
  let ?m = "m\<lparr>mf_file := Some (file_content (mf_file m) @ buf)\<rparr>"
  have "copy_write n 0 buf m = copy_write n (0 + length buf) buf ?m"
    using assms by (subst copy_write.simps) auto
  also have "\<dots> = (None, ?m)" unfolding assms(2) by (subst copy_write.simps) simp
  finally show ?thesis .
qed

lemma strip_file_ok:
  assumes "mf_io m = []" and "mf_file m = Some f" and "mf_read_offset m \<le> length f"
  shows "strip_file m = (None, m\<lparr>mf_fd := True, mf_read_offset := 0, mf_file := Some (unread m), mf_tmp_file := None\<rparr>)"
proof -
  define m1 where "m1 = m\<lparr>mf_tmp_file := Some f, mf_fd := True, mf_file := Some []\<rparr>"
  have io: "mf_io m1 = []" using assms by (simp add: m1_def)
  have "transfer_file2file (mf_read_offset m) (length f - mf_read_offset m) m1 = (None, m1\<lparr>mf_file := Some (unread m)\<rparr>)"
  proof (cases "length f = mf_read_offset m")
    case True
    then show ?thesis using assms by (simp add: transfer_file2file_def m1_def unread_def)
  next
    case False
    have "copy_read (length f - mf_read_offset m) 0 (mf_read_offset m) (replicate (length f - mf_read_offset m) 0) m1 = (Inr (unread m), m1)"
      using assms copy_read_all [OF io, of "mf_read_offset m" "length f - mf_read_offset m"] by (simp add: m1_def unread_def)
    moreover have "copy_write (length f - mf_read_offset m) 0 (unread m) m1 = (None, m1\<lparr>mf_file := Some (unread m)\<rparr>)"
      using assms False copy_write_all [OF io, of "unread m" "length f - mf_read_offset m"] by (simp add: m1_def unread_def)
    ultimately show ?thesis using False assms by (simp add: transfer_file2file_def)
  qed
  then show ?thesis
    using assms by (simp add: strip_file_def strip_copy_def strip_exit_def file_content_def [of None] Let_def m1_def)
qed

text \<open>Writing to the file: it keeps the unread bytes and takes what fits below its maximum size.\<close>

lemma write_in_file_ok:
  assumes "memfile_inv m" and "d \<noteq> []"
  shows "\<exists>e m'. write_in_file d m = (e, m') \<and> memfile_inv m' \<and> mf_mem_buffer m' = mf_mem_buffer m \<and>
    mf_threshold m' = mf_threshold m \<and> mf_max_file_size m' = mf_max_file_size m \<and>
    unread m' = unread m @ take (mf_max_file_size m - length (unread m)) d \<and>
    (e = None \<longleftrightarrow> length (unread m) < mf_max_file_size m)"
proof -
  define m0 where "m0 = m\<lparr>mf_fd := True, mf_file := Some (file_content (mf_file m))\<rparr>"
  define m1 where "m1 = (if need_to_strip_file (length (file_content (mf_file m))) (length d) m0
    then m0\<lparr>mf_read_offset := 0, mf_file := Some (unread m), mf_tmp_file := None\<rparr> else m0)"
  have inv: "memfile_inv m0" "mf_fd m0" "unread m0 = unread m" using assms(1) by (auto simp: memfile_inv_def m0_def unread_def)
  have eq: "m\<lparr>mf_fd := True, mf_file := mf_file m\<rparr> = m" if "mf_fd m" using that by simp
  have m0: "write_in_file d m = write_open_file d m0"
  proof (cases "mf_fd m")
    case True
    then have "m0 = m" using assms(1) by (cases m) (auto simp: memfile_inv_def m0_def)
    with True assms(2) show ?thesis by (simp add: write_in_file_def)
  next
    case False
    with assms show ?thesis by (simp add: write_in_file_def m0_def memfile_inv_def)
  qed
  have w: "write_open_file d m0 = append_to_file d m1"
    using inv strip_file_ok [of m0 "file_content (mf_file m)"]
    by (auto simp: write_open_file_def m1_def memfile_inv_def m0_def unread_def)
  have "length (unread m) \<le> mf_max_file_size m0" using assms(1) by (auto simp: memfile_inv_def unread_def m0_def)
  then have inv1: "memfile_inv m1" using inv by (auto simp: memfile_inv_def m1_def)
  have u1: "unread m1 = unread m" using inv by (auto simp: m1_def unread_def [of "m0\<lparr>mf_read_offset := 0, mf_file := _, mf_tmp_file := _\<rparr>"])
  have same: "mf_mem_buffer m1 = mf_mem_buffer m" "mf_threshold m1 = mf_threshold m" "mf_max_file_size m1 = mf_max_file_size m"
    by (simp_all add: m1_def m0_def)
  let ?f = "file_content (mf_file m1)" and ?max = "mf_max_file_size m"
  have "length (unread m1) \<le> length ?f" by (simp add: unread_def)
  then have len: "length (unread m) \<le> length ?f" "length ?f \<le> ?max" using u1 inv1 same by (simp_all add: memfile_inv_def)
  have room: "length ?f = length (unread m) \<or> length ?f + length d \<le> ?max"
    by (auto simp: m1_def need_to_strip_file_def m0_def)
  show ?thesis
  proof (cases "length ?f < ?max")
    case True
    define t where "t = take (min (length d) (?max - length ?f)) d"
    have t: "t \<noteq> []" "t = take (?max - length (unread m)) d" using True room assms(2) len by (auto simp: t_def min_def)
    have a: "append_to_file d m1 = (None, m1\<lparr>mf_file := Some (?f @ t)\<rparr>)"
      using True inv1 t(1) by (simp add: append_to_file_def memfile_inv_def same min_def t_def)
    have fd1: "mf_fd m1" by (simp add: m1_def m0_def)
    have "memfile_inv (m1\<lparr>mf_file := Some (?f @ t)\<rparr>)"
      using inv1 True fd1 same by (auto simp: memfile_inv_def t_def)
    moreover have "unread (m1\<lparr>mf_file := Some (?f @ t)\<rparr>) = unread m @ t"
      using u1 inv1 by (simp add: unread_def memfile_inv_def)
    ultimately show ?thesis using a m0 w same t(2) True len by simp
  next
    case False
    then have "length ?f = ?max" using len by simp
    with room assms(2) have full: "length (unread m) = ?max" by auto
    have "append_to_file d m1 = (Some CapacityReached, m1)"
      using False inv1 by (simp add: append_to_file_def memfile_inv_def same)
    with m0 w inv1 u1 same full show ?thesis by simp
  qed
qed

lemma memfile_push_ok:
  assumes "memfile_ok m"
  shows "\<exists>e m'. memfile_push d m = (e, m') \<and> memfile_ok m' \<and>
    mf_threshold m' = mf_threshold m \<and> mf_max_file_size m' = mf_max_file_size m \<and>
    memfile_contents m' = memfile_contents m @ take (mf_threshold m + mf_max_file_size m - length (memfile_contents m)) d \<and>
    (e = None \<longleftrightarrow> length d \<le> mf_threshold m - length (memory_contents (mf_mem_buffer m)) \<or> length (unread m) < mf_max_file_size m)"
proof -
  let ?b = "mf_mem_buffer m" and ?free = "get_free_mem_space m"
  have inv: "memfile_inv m" using assms by (simp add: memfile_ok_def)
  have size: "mb_total_size ?b = length (memory_contents ?b)" "?free = mf_threshold m - length (memory_contents ?b)"
    "length (memory_contents ?b) \<le> mf_threshold m" "length (unread m) \<le> mf_max_file_size m"
    using inv by (auto simp: memfile_inv_def memory_ok_def memory_contents_def get_free_mem_space_def memory_size_def unread_def)
  define m1 where "m1 = mem_push (take ?free d) m"
  have t: "transfer_mem2mem d m = (drop ?free d, m1)"
    by (auto simp: transfer_mem2mem_def m1_def mem_push_def memory_push_def Let_def)
  have b1: "memory_ok (mf_mem_buffer m1)" "memory_contents (mf_mem_buffer m1) = memory_contents ?b @ take ?free d"
    using memory_push_ok [of ?b] inv by (simp_all add: m1_def mem_push_def memfile_inv_def)
  then have size1: "mb_total_size (mf_mem_buffer m1) = length (memory_contents ?b) + min (length d) ?free"
    by (simp add: memory_ok_def memory_contents_def min.commute)
  have u1: "unread m1 = unread m" "mf_threshold m1 = mf_threshold m" "mf_max_file_size m1 = mf_max_file_size m"
    by (simp_all add: m1_def mem_push_def unread_def)
  have inv1: "memfile_inv m1" using inv b1(1) size1 size by (auto simp: memfile_inv_def m1_def mem_push_def)
  have excl: "unread m \<noteq> [] \<longrightarrow> ?free = 0"
    using assms by (auto simp: memfile_ok_def get_free_mem_space_def memory_size_def)
  show ?thesis
  proof (cases "drop ?free d = []")
    case True
    have "memfile_push d m = (None, m1)" using t True by (simp add: memfile_push_def write_in_file_def)
    moreover have "memfile_ok m1" using inv1 assms True size1 u1 excl by (auto simp: memfile_ok_def size)
    moreover have "length d \<le> mf_threshold m + mf_max_file_size m - length (memfile_contents m)"
      using True size by (simp add: memfile_contents_def)
    ultimately show ?thesis using True b1(2) u1 size(2) excl by (auto simp: memfile_contents_def)
  next
    case False
    from write_in_file_ok [OF inv1 False] obtain e m'
      where w: "write_in_file (drop ?free d) m1 = (e, m')" "memfile_inv m'" "mf_mem_buffer m' = mf_mem_buffer m1"
        "mf_threshold m' = mf_threshold m1" "mf_max_file_size m' = mf_max_file_size m1"
        "unread m' = unread m @ take (mf_max_file_size m - length (unread m)) (drop ?free d)"
        "e = None \<longleftrightarrow> length (unread m) < mf_max_file_size m"
      unfolding u1 by blast
    have "memfile_ok m'" using w(2,3,4) size1 False size u1 by (simp add: memfile_ok_def)
    moreover have "take ?free d @ unread m @ take (mf_max_file_size m - length (unread m)) (drop ?free d) =
      unread m @ take (mf_threshold m + mf_max_file_size m - length (memfile_contents m)) d"
    proof (cases "unread m = []")
      case True
      have "take (?free + mf_max_file_size m) d = take ?free d @ take (mf_max_file_size m) (drop ?free d)" by (rule take_add)
      moreover have "mf_threshold m + mf_max_file_size m - length (memory_contents ?b) = ?free + mf_max_file_size m" using size by simp
      ultimately show ?thesis using True by (simp add: memfile_contents_def)
    qed (use excl size in \<open>simp add: memfile_contents_def\<close>)
    ultimately show ?thesis using t w b1(2) u1 size False by (simp add: memfile_push_def memfile_contents_def)
  qed
qed

definition memfile_capacity :: "memfile_buffer \<Rightarrow> enat" where
  "memfile_capacity m = enat (mf_threshold m + mf_max_file_size m)"

lemma memfile_size_ok:
  "memfile_ok m \<Longrightarrow> memfile_size m = (length (memfile_contents m), m)"
  by (auto simp: memfile_ok_def memfile_inv_def memfile_size_def memfile_contents_def memory_ok_def memory_contents_def
      memory_size_def unread_def Let_def)

lemma memfile_peek_ok:
  assumes "memfile_ok m"
  shows "memfile_peek m = (Inr (memory_peek (mf_mem_buffer m)), m)"
    and "prefix (memory_peek (mf_mem_buffer m)) (memfile_contents m)"
    and "memfile_contents m \<noteq> [] \<longrightarrow> memory_peek (mf_mem_buffer m) \<noteq> []"
proof -
  have b: "memory_ok (mf_mem_buffer m)" using assms by (simp add: memfile_ok_def memfile_inv_def)
  show "memfile_peek m = (Inr (memory_peek (mf_mem_buffer m)), m)"
    using transfer_file2mem_ok [of m] assms by (auto simp: memfile_peek_def memfile_ok_def)
  show "prefix (memory_peek (mf_mem_buffer m)) (memfile_contents m)"
    using memory_peek_prefix [OF b] by (auto simp: memfile_contents_def prefix_def)
  have "unread m \<noteq> [] \<longrightarrow> memory_contents (mf_mem_buffer m) \<noteq> []"
    using assms b by (auto simp: memfile_ok_def memfile_inv_def memory_ok_def memory_contents_def)
  then show "memfile_contents m \<noteq> [] \<longrightarrow> memory_peek (mf_mem_buffer m) \<noteq> []"
    using memory_peek_prefix [OF b] by (auto simp: memfile_contents_def)
qed

lemma memfile_drain_ok:
  assumes "memfile_ok m" and "n \<le> mb_total_size (mf_mem_buffer m)"
  shows "memfile_ok (memfile_drain n m) \<and> memfile_contents (memfile_drain n m) = drop n (memfile_contents m) \<and>
    memfile_capacity (memfile_drain n m) = memfile_capacity m"
proof -
  let ?b = "memory_drain n (mf_mem_buffer m)" and ?m = "m\<lparr>mf_mem_buffer := memory_drain n (mf_mem_buffer m)\<rparr>"
  have b: "memory_ok (mf_mem_buffer m)" using assms by (simp add: memfile_ok_def memfile_inv_def)
  note d = memory_drain_ok [OF b assms(2)]
  have "memfile_inv ?m" using assms d by (auto simp: memfile_ok_def memfile_inv_def)
  from transfer_file2mem_ok [OF this] obtain m'
    where m': "transfer_file2mem ?m = (None, m')" "memfile_ok m'" "memfile_contents m' = memfile_contents ?m"
      "mf_threshold m' = mf_threshold ?m" "mf_max_file_size m' = mf_max_file_size ?m" by blast
  have "length (memory_contents (mf_mem_buffer m)) = mb_total_size (mf_mem_buffer m)"
    using b by (simp add: memory_ok_def memory_contents_def)
  then have "memfile_contents ?m = drop n (memfile_contents m)"
    using d(2) assms(2) by (simp add: memfile_contents_def unread_def)
  with m' show ?thesis by (simp add: memfile_drain_def memfile_capacity_def)
qed

interpretation memfile_fifo: fifo_buffer memfile_contents memfile_ok memfile_capacity memfile_size memfile_push memfile_peek memfile_drain
proof unfold_locales
  fix m d
  assume m: "memfile_ok m" "enat (length (memfile_contents m @ d)) \<le> memfile_capacity m"
  then have fit: "take (mf_threshold m + mf_max_file_size m - length (memfile_contents m)) d = d"
    by (simp add: memfile_capacity_def)
  have "length d \<le> mf_threshold m - length (memory_contents (mf_mem_buffer m)) \<or> length (unread m) < mf_max_file_size m"
    using m(2) by (auto simp: memfile_capacity_def memfile_contents_def)
  with memfile_push_ok [OF m(1), of d] fit
  show "\<exists>m'. memfile_push d m = (None, m') \<and> memfile_ok m' \<and> memfile_contents m' = memfile_contents m @ d \<and>
      memfile_capacity m' = memfile_capacity m" by (auto simp: memfile_capacity_def)
next
  fix m d n
  assume m: "memfile_ok m" "memfile_peek m = (Inr d, m)" "n \<le> length d"
  with memfile_peek_ok [OF m(1)] have d: "d = memory_peek (mf_mem_buffer m)" by simp
  with m memory_peek_length [of "mf_mem_buffer m"] have "n \<le> mb_total_size (mf_mem_buffer m)"
    by (simp add: memfile_ok_def memfile_inv_def)
  with memfile_drain_ok [OF m(1)]
  show "memfile_ok (memfile_drain n m) \<and> memfile_contents (memfile_drain n m) = drop n (memfile_contents m) \<and>
      memfile_capacity (memfile_drain n m) = memfile_capacity m"
    by simp
qed (auto simp: memfile_size_ok memfile_peek_ok)

subsection \<open>The buffers behind the interface\<close>

definition buffer_contents :: "data_buffer \<Rightarrow> bytes" where
  "buffer_contents b = (case b of MemoryBuffer m \<Rightarrow> memory_contents m | MemfileBuffer m \<Rightarrow> memfile_contents m)"

definition buffer_ok :: "data_buffer \<Rightarrow> bool" where
  "buffer_ok b \<longleftrightarrow> (case b of MemoryBuffer m \<Rightarrow> memory_ok m | MemfileBuffer m \<Rightarrow> memfile_ok m)"

definition buffer_capacity :: "data_buffer \<Rightarrow> enat" where
  "buffer_capacity b = (case b of MemoryBuffer m \<Rightarrow> \<infinity> | MemfileBuffer m \<Rightarrow> memfile_capacity m)"

lemmas buffer_defs = buffer_contents_def buffer_ok_def buffer_capacity_def buffer_size_def buffer_push_def
  buffer_peek_def buffer_drain_def

interpretation buffer_fifo: fifo_buffer buffer_contents buffer_ok buffer_capacity buffer_size buffer_push buffer_peek buffer_drain
proof unfold_locales
  fix b d n
  show "buffer_ok b \<Longrightarrow> buffer_size b = (length (buffer_contents b), b)"
    using memory_fifo.size_contents memfile_fifo.size_contents by (cases b) (auto simp: buffer_defs)
  show "buffer_ok b \<Longrightarrow> enat (length (buffer_contents b @ d)) \<le> buffer_capacity b \<Longrightarrow>
      \<exists>b'. buffer_push d b = (None, b') \<and> buffer_ok b' \<and> buffer_contents b' = buffer_contents b @ d \<and>
        buffer_capacity b' = buffer_capacity b"
    using memory_push_ok memfile_fifo.push_contents by (cases b) (fastforce simp: buffer_defs)+
  show "buffer_ok b \<Longrightarrow> \<exists>d. buffer_peek b = (Inr d, b) \<and> prefix d (buffer_contents b) \<and> (buffer_contents b \<noteq> [] \<longrightarrow> d \<noteq> [])"
    using memory_peek_prefix memfile_peek_ok by (cases b) (auto simp: buffer_defs)
  show "buffer_ok b \<Longrightarrow> buffer_peek b = (Inr d, b) \<Longrightarrow> n \<le> length d \<Longrightarrow> buffer_ok (buffer_drain n b) \<and>
      buffer_contents (buffer_drain n b) = drop n (buffer_contents b) \<and> buffer_capacity (buffer_drain n b) = buffer_capacity b"
  proof (cases b)
    case (MemoryBuffer m)
    then show "buffer_ok b \<Longrightarrow> buffer_peek b = (Inr d, b) \<Longrightarrow> n \<le> length d \<Longrightarrow> ?thesis"
      using memory_fifo.drain_contents [of m d n] by (simp add: buffer_defs)
  next
    case (MemfileBuffer m)
    then show "buffer_ok b \<Longrightarrow> buffer_peek b = (Inr d, b) \<Longrightarrow> n \<le> length d \<Longrightarrow> ?thesis"
      using memfile_fifo.drain_contents [of m d n] memfile_peek_ok(1) [of m] by (simp add: buffer_defs)
  qed
qed

subsection \<open>Properties\<close>

text \<open>A client's use of a buffer: push data, or take up to \<open>n\<close> of the bytes that \<^verbatim>\<open>peek\<close> shows.\<close>

datatype buffer_call = PushCall bytes | TakeCall nat

fun use_buffer :: "buffer_call list \<Rightarrow> data_buffer \<Rightarrow> (bytes \<times> data_buffer) option" where
  "use_buffer [] b = Some ([], b)"
| "use_buffer (PushCall d # xs) b = (case buffer_push d b of (None, b) \<Rightarrow> use_buffer xs b | _ \<Rightarrow> None)"
| "use_buffer (TakeCall n # xs) b =
     (case buffer_peek b of
        (Inr d, b) \<Rightarrow> map_option (\<lambda>(out, b). (take n d @ out, b)) (use_buffer xs (buffer_drain (min n (length d)) b))
      | _ \<Rightarrow> None)"

fun pushed_data :: "buffer_call list \<Rightarrow> bytes" where
  "pushed_data [] = []"
| "pushed_data (PushCall d # xs) = d @ pushed_data xs"
| "pushed_data (TakeCall n # xs) = pushed_data xs"

fun call_sum :: "buffer_call \<Rightarrow> bytes + nat" where
  "call_sum (PushCall d) = Inl d"
| "call_sum (TakeCall n) = Inr n"

lemma use_buffer_eq:
  "use_buffer xs b = buffer_fifo.use (map call_sum xs) b" "pushed_data xs = buffer_fifo.pushed (map call_sum xs)"
proof -
  show "use_buffer xs b = buffer_fifo.use (map call_sum xs) b"
    by (induction xs b rule: use_buffer.induct) (auto split: prod.splits option.splits sum.splits)
  show "pushed_data xs = buffer_fifo.pushed (map call_sum xs)"
    by (induction xs rule: pushed_data.induct) simp_all
qed

lemma new_buffer_ok:
  "buffer_ok (make_buffer None)" "0 < threshold \<Longrightarrow> buffer_ok (make_buffer (Some (threshold, max_size, [])))"
  "buffer_contents (make_buffer c) = []"
  by (auto simp: make_buffer_def buffer_ok_def buffer_contents_def new_memory_buffer_def new_memfile_buffer_def memory_ok_def
      memory_contents_def memfile_contents_def memfile_ok_def memfile_inv_def unread_def file_content_def split: option.splits)

text \<open>
  (C12) A buffer of the client is a queue of bytes: as long as the data pushed is within its capacity
  (unbounded in memory; memory threshold plus maximum file size with a file, when the file operations
  succeed), every use of it succeeds, the bytes taken followed by the contents are the bytes pushed in their
  order, the size is the number of bytes not yet taken, and while there are any, some of them are shown.
\<close>

theorem buffer_is_queue:
  assumes "case config of None \<Rightarrow> True
    | Some (threshold, max_size, io) \<Rightarrow> 0 < threshold \<and> io = [] \<and> length (pushed_data calls) \<le> threshold + max_size"
  shows "\<exists>out b. use_buffer calls (make_buffer config) = Some (out, b) \<and> out @ buffer_contents b = pushed_data calls \<and>
    buffer_size b = (length (pushed_data calls) - length out, b) \<and>
    (\<exists>d. buffer_peek b = (Inr d, b) \<and> prefix (out @ d) (pushed_data calls) \<and> (d = [] \<longrightarrow> out = pushed_data calls))"
proof -
  have ok: "buffer_ok (make_buffer config)" using assms new_buffer_ok by (auto split: option.splits)
  have "enat (length (buffer_contents (make_buffer config) @ pushed_data calls)) \<le> buffer_capacity (make_buffer config)"
    unfolding new_buffer_ok using assms
    by (auto simp: make_buffer_def buffer_capacity_def memfile_capacity_def new_memfile_buffer_def split: option.splits)
  from buffer_fifo.use_fifo [OF ok, of "map call_sum calls"] this obtain out b
    where u: "use_buffer calls (make_buffer config) = Some (out, b)" "buffer_ok b" "out @ buffer_contents b = pushed_data calls"
    unfolding use_buffer_eq by (auto simp: new_buffer_ok)
  from buffer_fifo.peek_contents [OF u(2)] obtain d
    where d: "buffer_peek b = (Inr d, b)" "prefix d (buffer_contents b)" "buffer_contents b \<noteq> [] \<longrightarrow> d \<noteq> []" by blast
  have "prefix (out @ d) (pushed_data calls)" using d(2) by (auto simp: prefix_def simp flip: u(3))
  moreover have "d = [] \<longrightarrow> out = pushed_data calls" using d(3) u(3) by auto
  moreover have "buffer_size b = (length (pushed_data calls) - length out, b)"
    using buffer_fifo.size_contents [OF u(2)] by (simp flip: u(3))
  ultimately show ?thesis using u d by auto
qed

theorem buffer_is_queue_witness:
  "\<exists>out b. use_buffer [PushCall [1, 2, 3], TakeCall 1, PushCall [4, 5]] (make_buffer (Some (2, 10, []))) = Some (out, b) \<and>
    out @ buffer_contents b = [1, 2, 3, 4, 5]"
  using buffer_is_queue [where config = "Some (2, 10, [])" and calls = "[PushCall [1, 2, 3], TakeCall 1, PushCall [4, 5]]"] by auto

text \<open>
  (C37) A buffer with a file whose operations succeed takes of every chunk exactly the part for which it has
  room: the memory threshold plus the maximum file size is never exceeded, the rest of the chunk is dropped,
  and this is reported only if the file was already full; otherwise the truncated push reports success.
\<close>

theorem memfile_push_takes_prefix:
  assumes "memfile_ok m" and "memfile_push data m = (err, m')"
  shows "memfile_contents m' = memfile_contents m @ take (mf_threshold m + mf_max_file_size m - length (memfile_contents m)) data \<and>
    length (memfile_contents m') \<le> mf_threshold m + mf_max_file_size m \<and>
    memory_size (mf_mem_buffer m') \<le> mf_threshold m \<and> length (file_content (mf_file m')) \<le> mf_max_file_size m \<and>
    (err = None \<longleftrightarrow> length data \<le> get_free_mem_space m \<or> length (unread m) < mf_max_file_size m) \<and> \<not> mf_asserted m'"
proof -
  have l: "length (memory_contents (mf_mem_buffer m)) = mb_total_size (mf_mem_buffer m)"
    using assms(1) by (simp add: memfile_ok_def memfile_inv_def memory_ok_def memory_contents_def)
  have "length (unread m) \<le> mf_max_file_size m" "length (memory_contents (mf_mem_buffer m)) \<le> mf_threshold m"
    using assms(1) l by (auto simp: memfile_ok_def memfile_inv_def unread_def)
  then have "length (memfile_contents m) \<le> mf_threshold m + mf_max_file_size m" by (simp add: memfile_contents_def)
  with memfile_push_ok [OF assms(1), of data] assms(2) l show ?thesis
    by (auto simp: memfile_ok_def memfile_inv_def memory_size_def get_free_mem_space_def)
qed

definition full_memfile :: memfile_buffer where
  "full_memfile = snd (memfile_push [1, 2, 3] (new_memfile_buffer 2 2 []))"

theorem memfile_push_takes_prefix_witness:
  "memfile_ok full_memfile \<and> memfile_contents (snd (memfile_push [4, 5] full_memfile)) = [1, 2, 3, 4] \<and>
   fst (memfile_push [4, 5] full_memfile) = None"
proof -
  have "memfile_ok (new_memfile_buffer 2 2 [])"
    using new_buffer_ok(2) [of 2 2] by (simp add: make_buffer_def buffer_ok_def)
  moreover have "memfile_contents (new_memfile_buffer 2 2 []) = []"
    using new_buffer_ok(3) [of "Some (2, 2, [])"] by (simp add: make_buffer_def buffer_contents_def)
  ultimately have f: "memfile_ok full_memfile" "memfile_contents full_memfile = [1, 2, 3]"
    "mf_threshold full_memfile = 2" "mf_max_file_size full_memfile = 2"
    using memfile_push_ok [of "new_memfile_buffer 2 2 []" "[1, 2, 3]"] by (auto simp: full_memfile_def new_memfile_buffer_def)
  have "memory_contents (mf_mem_buffer full_memfile) = [1, 2]"
    by code_simp
  with f have "length (unread full_memfile) < 2" by (simp add: memfile_contents_def)
  with memfile_push_takes_prefix [OF f(1) surjective_pairing, of "[4, 5]"] f show ?thesis by simp
qed

text \<open>
  (C40) Compacting the file after a short read corrupts the data: when the first read of the copy gives only \<open>k\<close> of
  the \<open>n\<close> unread bytes, the next read overwrites the beginning of the copy's buffer, so that what is written back
  with success lacks the first \<open>k\<close> bytes and has other bytes at its end.
\<close>

theorem short_read_corrupts:
  assumes "mf_io m = [IoPart k]" and "0 < k" and "k < n" and "length unread_part = n"
    and "drop pos (file_content (mf_tmp_file m)) = unread_part"
  shows "transfer_file2file pos n m =
    (None, m\<lparr>mf_io := [], mf_file := Some (file_content (mf_file m) @ drop k unread_part @
       drop (n - k) (take k unread_part @ replicate (n - k) 0))\<rparr>)"
proof -
  let ?d = "take n (drop pos (file_content (mf_tmp_file m)))" and ?m = "m\<lparr>mf_io := []\<rparr>"
  have d: "?d = unread_part" "take k ?d = take k unread_part" using assms by simp_all
  let ?buf = "take k unread_part @ replicate (n - k) 0"
  have pos: "take (n - k) (drop (pos + k) (file_content (mf_tmp_file m))) = drop k unread_part"
    using assms(4) by (simp add: add.commute flip: assms(5) drop_drop)
  have 1: "copy_read n 0 pos (replicate n 0) m = copy_read n k (pos + k) ?buf ?m"
    using assms by (subst copy_read.simps) (auto simp: next_io_def transferred_def)
  have ne: "drop k unread_part \<noteq> []" using assms by simp
  have 2: "copy_read n k (pos + k) ?buf ?m = copy_read n n (pos + n) (drop k unread_part @ drop (n - k) ?buf) ?m"
    using assms(3,4) ne pos by (subst copy_read.simps) (auto simp: next_io_def transferred_def)
  have 3: "copy_read n n (pos + n) buf ?m = (Inr buf, ?m)" for buf by (subst copy_read.simps) simp
  have "copy_write n 0 (drop k unread_part @ drop (n - k) ?buf) ?m =
      (None, ?m\<lparr>mf_file := Some (file_content (mf_file m) @ drop k unread_part @ drop (n - k) ?buf)\<rparr>)"
    using assms by (subst copy_write_all) auto
  then show ?thesis using assms(2,3) by (simp add: transfer_file2file_def 1 2 3)
qed

theorem short_read_corrupts_witness:
  "transfer_file2file 0 3 ((new_memfile_buffer 2 9 [IoPart 1])\<lparr>mf_tmp_file := Some [1, 2, 3], mf_file := Some []\<rparr>) =
    (None, (new_memfile_buffer 2 9 [])\<lparr>mf_tmp_file := Some [1, 2, 3], mf_file := Some [2, 3, 0]\<rparr>)"
  using short_read_corrupts [of "(new_memfile_buffer 2 9 [IoPart 1])\<lparr>mf_tmp_file := Some [1, 2, 3], mf_file := Some []\<rparr>" 1 3 "[1, 2, 3]" 0]
  by (simp add: new_memfile_buffer_def file_content_def numeral_2_eq_2)

lemma memfile_push_vector_undefined:
  "memfile_push_vector data m = None \<longleftrightarrow> data \<noteq> [] \<and> length data \<le> get_free_mem_space m"
  by (auto simp: memfile_push_vector_def transfer_vector_def Let_def)

lemma memfile_push_vector_eq:
  "memfile_push_vector data m = Some r \<Longrightarrow> r = memfile_push data m"
  by (auto simp: memfile_push_vector_def transfer_vector_def memfile_push_def transfer_mem2mem_def mem_push_def memory_push_def
      Let_def split: if_splits)

end
