(* ===== verification/Ring_Buffer.thy ===== *)
theory Ring_Buffer
  imports Wire_Bytes
begin

section \<open>Persistent ring buffer (\<^verbatim>\<open>trusttunnel/src/persistent_ring_buffer.cpp\<close>)\<close>

text \<open>
  A file with a header of 32 bytes and slots of a fixed size, in which the client keeps the last records of
  its log of queries. What is at the path is a value of \<open>path_entry\<close>; a directory or a symbolic link is
  \<open>OtherEntry\<close>. The structures are stored in the byte order of the machine, which is little endian on every
  platform of the client. The outcomes of the system calls to come are the list \<open>ps_io\<close>, as many as are
  not successful; records are byte strings. The POSIX branches of the source are modelled.
\<close>

subsection \<open>Files\<close>

datatype call_outcome = CallOk | CallPart nat | CallFail

datatype path_entry = NoEntry | RegularFile bytes | OtherEntry

record path_state =
  ps_entry :: path_entry
  ps_io :: "call_outcome list"

definition next_call :: "path_state \<Rightarrow> call_outcome \<times> path_state" where
  "next_call s = (case ps_io s of [] \<Rightarrow> (CallOk, s) | r # rs \<Rightarrow> (r, s\<lparr>ps_io := rs\<rparr>))"

definition ps_content :: "path_state \<Rightarrow> bytes" where
  "ps_content s = (case ps_entry s of RegularFile c \<Rightarrow> c | _ \<Rightarrow> [])"

definition moved :: "call_outcome \<Rightarrow> bytes \<Rightarrow> bytes option" where
  "moved r d = (case r of CallOk \<Rightarrow> Some d | CallPart k \<Rightarrow> Some (take k d) | CallFail \<Rightarrow> None)"

text \<open>A write at a position beyond the end leaves a gap of zeros.\<close>

definition splice :: "bytes \<Rightarrow> nat \<Rightarrow> bytes \<Rightarrow> bytes" where
  "splice c pos d = take pos c @ replicate (pos - length c) 0 @ d @ drop (pos + length d) c"

text \<open>What \<^verbatim>\<open>open\<close> found; \<open>Missing\<close> is the error \<^verbatim>\<open>ENOENT\<close>.\<close>

datatype open_result = Opened | Missing | OpenError

definition open_regular_file :: "path_state \<Rightarrow> open_result \<times> path_state" where
  "open_regular_file s =
     (let (r, s) = next_call s
      in (if r = CallFail then OpenError
          else case ps_entry s of RegularFile _ \<Rightarrow> Opened | NoEntry \<Rightarrow> Missing | OtherEntry \<Rightarrow> OpenError, s))"

text \<open>The second component is the flag \<^verbatim>\<open>created\<close>.\<close>

definition open_regular_file_for_append :: "path_state \<Rightarrow> bool \<times> bool \<times> path_state" where
  "open_regular_file_for_append s =
     (let (r, s) = next_call s
      in if r = CallFail then (False, False, s)
         else if ps_entry s = NoEntry then (True, True, s\<lparr>ps_entry := RegularFile []\<rparr>)
         else let (r, s) = open_regular_file s in (r = Opened, False, s))"

function write_loop :: "nat \<Rightarrow> bytes \<Rightarrow> path_state \<Rightarrow> bool \<times> path_state" where
  "write_loop pos d s =
     (if d = [] then (True, s)
      else
        let (r, s) = next_call s
        in case moved r d of
             None \<Rightarrow> (False, s)
           | Some w \<Rightarrow>
               if w = [] then (False, s)
               else write_loop (pos + length w) (drop (length w) d)
                      (s\<lparr>ps_entry := RegularFile (splice (ps_content s) pos w)\<rparr>))"
  by pat_completeness auto

termination
  by (relation "measure (\<lambda>(_, d, _). length d)") (auto simp: moved_def split: call_outcome.splits)

declare write_loop.simps [simp del]

definition write_at :: "nat \<Rightarrow> bytes \<Rightarrow> path_state \<Rightarrow> bool \<times> path_state" where
  "write_at pos d s = (let (r, s) = next_call s in if r = CallFail then (False, s) else write_loop pos d s)"

function read_loop :: "nat \<Rightarrow> nat \<Rightarrow> bytes \<Rightarrow> path_state \<Rightarrow> bytes option \<times> path_state" where
  "read_loop pos n buf s =
     (if n = 0 then (Some buf, s)
      else
        let (r, s) = next_call s
        in case moved r (take n (drop pos (ps_content s))) of
             None \<Rightarrow> (None, s)
           | Some d \<Rightarrow>
               if d = [] then (None, s) else read_loop (pos + length d) (n - length d) (buf @ d) s)"
  by pat_completeness auto

termination
  by (relation "measure (\<lambda>(_, n, _, _). n)") auto

declare read_loop.simps [simp del]

definition read_at :: "nat \<Rightarrow> nat \<Rightarrow> path_state \<Rightarrow> bytes option \<times> path_state" where
  "read_at n pos s = read_loop pos n [] s"

subsection \<open>Layout\<close>

definition FILE_MAGIC :: u32 where "FILE_MAGIC = 0x514c5242"
definition FILE_VERSION :: u32 where "FILE_VERSION = 1"
definition SLOT_MARKER :: u8 where "SLOT_MARKER = 82"
definition SLOT_MARKER_SIZE :: nat where "SLOT_MARKER_SIZE = 1"
definition SLOT_LENGTH_SIZE :: nat where "SLOT_LENGTH_SIZE = 4"
definition HEADER_SIZE :: nat where "HEADER_SIZE = 32"

record ring_header =
  rh_magic :: u32
  rh_version :: u32
  rh_capacity :: u32
  rh_max_record_bytes :: u32
  rh_write_slot :: u32
  rh_count :: u32
  rh_next_sequence :: u64

definition u32_le :: "u32 \<Rightarrow> bytes" where "u32_le w = rev (u32_be w)"
definition u64_le :: "u64 \<Rightarrow> bytes" where "u64_le w = rev (u64_be w)"
definition le_u32 :: "bytes \<Rightarrow> u32" where "le_u32 b = word_of_nat (be_nat (rev b))"
definition le_u64 :: "bytes \<Rightarrow> u64" where "le_u64 b = word_of_nat (be_nat (rev b))"

definition header_bytes :: "ring_header \<Rightarrow> bytes" where
  "header_bytes h = u32_le (rh_magic h) @ u32_le (rh_version h) @ u32_le (rh_capacity h) @
     u32_le (rh_max_record_bytes h) @ u32_le (rh_write_slot h) @ u32_le (rh_count h) @ u64_le (rh_next_sequence h)"

definition header_of_bytes :: "bytes \<Rightarrow> ring_header" where
  "header_of_bytes b =
     \<lparr>rh_magic = le_u32 (take 4 b), rh_version = le_u32 (take 4 (drop 4 b)), rh_capacity = le_u32 (take 4 (drop 8 b)),
      rh_max_record_bytes = le_u32 (take 4 (drop 12 b)), rh_write_slot = le_u32 (take 4 (drop 16 b)),
      rh_count = le_u32 (take 4 (drop 20 b)), rh_next_sequence = le_u64 (take 8 (drop 24 b))\<rparr>"

text \<open>\<^verbatim>\<open>m_max_records\<close> and \<^verbatim>\<open>m_max_record_bytes\<close>.\<close>

record ring_buffer =
  rb_max_records :: u32
  rb_max_record_bytes :: u32

definition slot_size :: "ring_buffer \<Rightarrow> nat" where
  "slot_size rb = SLOT_MARKER_SIZE + SLOT_LENGTH_SIZE + unat (rb_max_record_bytes rb)"

definition slot_offset :: "ring_buffer \<Rightarrow> u32 \<Rightarrow> nat" where
  "slot_offset rb index = HEADER_SIZE + unat index * slot_size rb"

definition read_header :: "ring_buffer \<Rightarrow> path_state \<Rightarrow> ring_header option \<times> path_state" where
  "read_header rb s =
     (let (b, s) = read_at HEADER_SIZE 0 s
      in case b of
           None \<Rightarrow> (None, s)
         | Some b \<Rightarrow>
             let h = header_of_bytes b
             in (if rh_magic h = FILE_MAGIC \<and> rh_version h = FILE_VERSION \<and> rh_capacity h = rb_max_records rb \<and>
                   rh_max_record_bytes h = rb_max_record_bytes rb \<and> rh_write_slot h < rh_capacity h \<and>
                   rh_count h \<le> rh_capacity h \<and> rh_next_sequence h \<ge> ucast (rh_count h)
                 then Some h else None, s))"

definition write_header :: "ring_header \<Rightarrow> path_state \<Rightarrow> bool \<times> path_state" where
  "write_header h s = write_at 0 (header_bytes h) s"

definition slot_bytes :: "ring_buffer \<Rightarrow> bytes \<Rightarrow> bytes" where
  "slot_bytes rb r = [SLOT_MARKER] @ u32_le (word_of_nat (length r)) @ r @
     replicate (slot_size rb - SLOT_MARKER_SIZE - SLOT_LENGTH_SIZE - length r) 0"

definition write_slot :: "ring_buffer \<Rightarrow> u32 \<Rightarrow> bytes \<Rightarrow> path_state \<Rightarrow> bool \<times> path_state" where
  "write_slot rb index r s = write_at (slot_offset rb index) (slot_bytes rb r) s"

definition record_of_slot :: "ring_buffer \<Rightarrow> bytes \<Rightarrow> bytes option" where
  "record_of_slot rb slot =
     (if hd slot \<noteq> SLOT_MARKER then None
      else
        let n = le_u32 (take 4 (drop SLOT_MARKER_SIZE slot))
        in if n > rb_max_record_bytes rb then None
           else Some (take (unat n) (drop (SLOT_MARKER_SIZE + SLOT_LENGTH_SIZE) slot)))"

definition read_slot :: "ring_buffer \<Rightarrow> u32 \<Rightarrow> path_state \<Rightarrow> bytes option \<times> path_state" where
  "read_slot rb index s =
     (let (b, s) = read_at (slot_size rb) (slot_offset rb index) s
      in case b of None \<Rightarrow> (None, s) | Some slot \<Rightarrow> (record_of_slot rb slot, s))"

subsection \<open>Operations\<close>

definition initial_header :: "ring_buffer \<Rightarrow> ring_header" where
  "initial_header rb =
     \<lparr>rh_magic = FILE_MAGIC, rh_version = FILE_VERSION, rh_capacity = rb_max_records rb,
      rh_max_record_bytes = rb_max_record_bytes rb, rh_write_slot = 0, rh_count = 0, rh_next_sequence = 0\<rparr>"

definition advance_header :: "ring_header \<Rightarrow> ring_header" where
  "advance_header h =
     h\<lparr>rh_write_slot := (rh_write_slot h + 1) mod rh_capacity h, rh_count := min (rh_count h + 1) (rh_capacity h),
       rh_next_sequence := rh_next_sequence h + 1\<rparr>"

definition append_record :: "ring_buffer \<Rightarrow> bytes \<Rightarrow> path_state \<Rightarrow> bool \<times> path_state" where
  "append_record rb r s =
     (let (h, s) = read_header rb s
      in case h of
           None \<Rightarrow> (False, s)
         | Some h \<Rightarrow>
             let (ok, s) = write_slot rb (rh_write_slot h) r s
             in if ok then write_header (advance_header h) s else (False, s))"

definition ring_append :: "ring_buffer \<Rightarrow> bytes \<Rightarrow> path_state \<Rightarrow> bool \<times> path_state" where
  "ring_append rb r s =
     (if length r > unat (rb_max_record_bytes rb) then (False, s)
      else
        let (opened, created, s) = open_regular_file_for_append s
        in if \<not> opened then (False, s)
           else
             let (chmod, s) = next_call s
             in if chmod = CallFail then (False, s)
                else if created then
                  let (ok, s) = write_header (initial_header rb) s
                  in if ok then append_record rb r s else (False, s)
                else append_record rb r s)"

text \<open>The loop of \<^verbatim>\<open>read_since\<close> over \<open>k\<close> sequence numbers from \<open>seq\<close> on.\<close>

primrec read_records :: "ring_buffer \<Rightarrow> u32 \<Rightarrow> nat \<Rightarrow> u64 \<Rightarrow> path_state \<Rightarrow> bytes list option \<times> path_state" where
  "read_records rb capacity 0 seq s = (Some [], s)"
| "read_records rb capacity (Suc k) seq s =
     (let (r, s) = read_slot rb (ucast (seq mod ucast capacity)) s
      in case r of
           None \<Rightarrow> (None, s)
         | Some r \<Rightarrow>
             let (rs, s) = read_records rb capacity k (seq + 1) s
             in (map_option ((#) r) rs, s))"

record ring_result =
  rr_records :: "bytes list"
  rr_next_sequence :: u64

definition start_sequence :: "ring_header \<Rightarrow> u64 option \<Rightarrow> u64" where
  "start_sequence h next_sequence =
     (let earliest_retained = rh_next_sequence h - ucast (rh_count h);
          wanted = (case next_sequence of None \<Rightarrow> earliest_retained | Some q \<Rightarrow> q)
      in if wanted < earliest_retained then earliest_retained
         else if rh_next_sequence h < wanted then rh_next_sequence h else wanted)"

definition ring_read_since :: "ring_buffer \<Rightarrow> u64 option \<Rightarrow> path_state \<Rightarrow> ring_result option \<times> path_state" where
  "ring_read_since rb next_sequence s =
     (let (opened, s) = open_regular_file s
      in if opened = Missing then (Some \<lparr>rr_records = [], rr_next_sequence = 0\<rparr>, s)
         else if opened = OpenError then (None, s)
         else
           let (h, s) = read_header rb s
           in case h of
                None \<Rightarrow> (None, s)
              | Some h \<Rightarrow>
                  let start = start_sequence h next_sequence;
                      (rs, s) = read_records rb (rh_capacity h) (unat (rh_next_sequence h - start)) start s
                  in (map_option (\<lambda>rs. \<lparr>rr_records = rs, rr_next_sequence = rh_next_sequence h\<rparr>) rs, s))"

definition ring_read_all :: "ring_buffer \<Rightarrow> path_state \<Rightarrow> ring_result option \<times> path_state" where
  "ring_read_all rb s = ring_read_since rb None s"

definition ring_clear :: "path_state \<Rightarrow> bool \<times> path_state" where
  "ring_clear s =
     (let (r, s) = next_call s
      in if r = CallFail then (False, s)
         else if ps_entry s = NoEntry then (True, s)
         else if ps_entry s = OtherEntry then (False, s)
         else
           let (r, s) = next_call s
           in if r = CallFail then (False, s) else (True, s\<lparr>ps_entry := NoEntry\<rparr>))"

end
