(* ===== verification/Ring_Buffer_Correct.thy ===== *)
theory Ring_Buffer_Correct
  imports Ring_Buffer
begin

section \<open>Correctness of the persistent ring buffer\<close>

text \<open>
  The file represents the last records appended, each in the slot of its number: appending and reading keep
  and return them when the system calls succeed. An append that is cut short between its two writes is shown
  to leave the records in a wrong order.
\<close>

subsection \<open>Bytes\<close>

definition region :: "bytes \<Rightarrow> nat \<Rightarrow> nat \<Rightarrow> bytes" where
  "region c p k = take k (drop p c)"

lemma length_splice: "length (splice c q d) = max (length c) (q + length d)"
  by (auto simp: splice_def max_def)

lemma region_splice_same: "region (splice c q d) q (length d) = d"
proof -
  have "length (take q c @ replicate (q - length c) 0) = q" by simp
  then have "drop q ((take q c @ replicate (q - length c) 0) @ d @ drop (q + length d) c) = d @ drop (q + length d) c"
    by (rule drop_append_exact)
  then show ?thesis by (simp add: region_def splice_def)
qed

lemma region_splice_other:
  assumes "p + k \<le> q \<or> q + length d \<le> p" and "p + k \<le> length c"
  shows "region (splice c q d) p k = region c p k"
proof (rule nth_equalityI)
  show "length (region (splice c q d) p k) = length (region c p k)"
    using assms(2) by (simp add: region_def length_splice)
  fix i
  assume "i < length (region (splice c q d) p k)"
  then have i: "i < k" "p + i < length c" using assms(2) by (simp_all add: region_def length_splice)
  have "splice c q d ! (p + i) = c ! (p + i)"
  proof (cases "p + i < q")
    case True
    with i show ?thesis by (simp add: splice_def nth_append)
  next
    case False
    with assms(1) i have "q + length d \<le> p + i" "\<not> p + i - q < length d" by auto
    with i show ?thesis by (simp add: splice_def nth_append)
  qed
  with i show "region (splice c q d) p k ! i = region c p k ! i"
    by (simp add: region_def length_splice)
qed

lemma le_roundtrip [simp]: "le_u32 (u32_le w) = w" "le_u64 (u64_le v) = v"
  by (simp_all add: le_u32_def le_u64_def u32_le_def u64_le_def)

lemma length_le [simp]: "length (u32_le w) = 4" "length (u64_le v) = 8"
  by (simp_all add: u32_le_def u64_le_def)

lemma length_header_bytes [simp]: "length (header_bytes h) = 32"
  by (simp add: header_bytes_def)

lemma header_bytes_nonempty [simp]: "header_bytes h \<noteq> []"
  by (metis length_header_bytes list.size(3) zero_neq_numeral)

lemma header_roundtrip [simp]: "header_of_bytes (header_bytes h) = h"
  by (cases h) (simp add: header_of_bytes_def header_bytes_def)

lemma length_slot_bytes: "length r \<le> unat (rb_max_record_bytes rb) \<Longrightarrow> length (slot_bytes rb r) = slot_size rb"
  by (simp add: slot_bytes_def slot_size_def SLOT_MARKER_SIZE_def SLOT_LENGTH_SIZE_def)

lemma record_of_slot_bytes:
  assumes "length r \<le> unat (rb_max_record_bytes rb)"
  shows "record_of_slot rb (slot_bytes rb r) = Some r"
proof -
  have n: "unat (word_of_nat (length r) :: u32) = length r"
    using assms unsigned_less [of "rb_max_record_bytes rb", where ?'a = nat] by (intro unat_u32) simp
  then have "\<not> (word_of_nat (length r) :: u32) > rb_max_record_bytes rb"
    using assms by (simp add: word_less_nat_alt)
  with n show ?thesis
    by (simp add: record_of_slot_def slot_bytes_def SLOT_MARKER_SIZE_def SLOT_LENGTH_SIZE_def)
qed

subsection \<open>Successful calls\<close>

lemma calls_ok [simp]:
  "ps_io s = [] \<Longrightarrow> next_call s = (CallOk, s)" "moved CallOk d = Some d"
  by (simp_all add: next_call_def moved_def)

lemma write_at_ok:
  assumes "ps_io s = []" and "d \<noteq> []"
  shows "write_at pos d s = (True, s\<lparr>ps_entry := RegularFile (splice (ps_content s) pos d)\<rparr>)"
proof -
  have "write_loop pos d s = write_loop (pos + length d) [] (s\<lparr>ps_entry := RegularFile (splice (ps_content s) pos d)\<rparr>)"
    using assms by (subst write_loop.simps) simp
  with assms show ?thesis by (simp add: write_at_def write_loop.simps [of _ "[]"])
qed

lemma read_at_ok:
  assumes "ps_io s = []" and "pos + n \<le> length (ps_content s)"
  shows "read_at n pos s = (Some (region (ps_content s) pos n), s)"
proof (cases "n = 0")
  case False
  let ?d = "take n (drop pos (ps_content s))"
  have l: "length ?d = n" using assms(2) by simp
  with False have "?d \<noteq> []" by force
  with assms(1) False l have "read_loop pos n [] s = read_loop (pos + n) 0 ?d s"
    by (subst read_loop.simps) simp
  then show ?thesis by (simp add: read_at_def region_def read_loop.simps [of _ 0])
qed (simp add: read_at_def region_def read_loop.simps)

subsection \<open>The records a file holds\<close>

text \<open>The file after \<open>rs\<close> were appended: the header counts them, and the slots hold the last ones.\<close>

definition ring_capacity :: "ring_buffer \<Rightarrow> nat" where
  "ring_capacity rb = unat (rb_max_records rb)"

definition header_after :: "ring_buffer \<Rightarrow> nat \<Rightarrow> ring_header" where
  "header_after rb n =
     \<lparr>rh_magic = FILE_MAGIC, rh_version = FILE_VERSION, rh_capacity = rb_max_records rb,
      rh_max_record_bytes = rb_max_record_bytes rb, rh_write_slot = word_of_nat (n mod ring_capacity rb),
      rh_count = word_of_nat (min n (ring_capacity rb)), rh_next_sequence = word_of_nat n\<rparr>"

definition slot_at :: "ring_buffer \<Rightarrow> bytes \<Rightarrow> nat \<Rightarrow> bytes" where
  "slot_at rb c j = region c (HEADER_SIZE + j * slot_size rb) (slot_size rb)"

definition file_holds :: "ring_buffer \<Rightarrow> bytes list \<Rightarrow> bytes \<Rightarrow> bool" where
  "file_holds rb rs c \<longleftrightarrow> region c 0 HEADER_SIZE = header_bytes (header_after rb (length rs)) \<and>
     HEADER_SIZE + min (length rs) (ring_capacity rb) * slot_size rb \<le> length c \<and>
     list_all (\<lambda>r. length r \<le> unat (rb_max_record_bytes rb)) rs \<and>
     (\<forall>i < length rs. length rs \<le> i + ring_capacity rb \<longrightarrow>
        slot_at rb c (i mod ring_capacity rb) = slot_bytes rb (rs ! i))"

definition ring_holds :: "ring_buffer \<Rightarrow> bytes list \<Rightarrow> path_state \<Rightarrow> bool" where
  "ring_holds rb rs s \<longleftrightarrow> ps_io s = [] \<and>
     (if rs = [] then ps_entry s = NoEntry
      else \<exists>c. ps_entry s = RegularFile c \<and> file_holds rb rs c)"

definition ring_sound :: "ring_buffer \<Rightarrow> bool" where
  "ring_sound rb \<longleftrightarrow> 0 < ring_capacity rb \<and> ring_capacity rb < 2 ^ 32 - 1"

lemma capacity_word [simp]: "word_of_nat (ring_capacity rb) = rb_max_records rb"
  by (simp add: ring_capacity_def)

lemma header_after_fields:
  assumes "ring_sound rb" and "n < 2 ^ 64"
  shows "unat (rh_write_slot (header_after rb n)) = n mod ring_capacity rb"
    and "unat (rh_count (header_after rb n)) = min n (ring_capacity rb)"
    and "unat (rh_next_sequence (header_after rb n)) = n"
    and "unat (ucast (rh_count (header_after rb n)) :: u64) = min n (ring_capacity rb)"
proof -
  have "n mod ring_capacity rb < ring_capacity rb" using assms(1) by (simp add: ring_sound_def)
  then have m: "n mod ring_capacity rb < 2 ^ 32" "min n (ring_capacity rb) < 2 ^ 32"
    using assms(1) by (auto simp: ring_sound_def min_def)
  then show "unat (rh_write_slot (header_after rb n)) = n mod ring_capacity rb"
    "unat (rh_count (header_after rb n)) = min n (ring_capacity rb)"
    by (simp_all only: header_after_def ring_header.simps unat_u32)
  then show "unat (ucast (rh_count (header_after rb n)) :: u64) = min n (ring_capacity rb)"
    using m(2) by (simp only: unsigned_ucast_eq take_bit_eq_mod) simp
  show "unat (rh_next_sequence (header_after rb n)) = n"
    using assms(2) by (simp add: header_after_def unat_of_nat)
qed

lemma unat_next: "unat (w :: u32) + 1 < 2 ^ 32 \<Longrightarrow> unat (w + 1) = unat w + 1"
  by (simp add: unat_word_ariths)

lemma advance_header_after:
  assumes "ring_sound rb" and "n + 1 < 2 ^ 64"
  shows "advance_header (header_after rb n) = header_after rb (n + 1)"
proof -
  let ?c = "ring_capacity rb" and ?h = "header_after rb n"
  have c: "0 < ?c" "?c < 2 ^ 32 - 1" "unat (rb_max_records rb) = ?c" using assms(1) by (simp_all add: ring_sound_def ring_capacity_def)
  note f = header_after_fields [OF assms(1), of n]
  have "n mod ?c < ?c" using c by simp
  with c have l: "n mod ?c + 1 < 2 ^ 32" by linarith
  have "unat (rh_write_slot ?h + 1) = n mod ?c + 1"
    using f(1) assms(2) l c by (subst unat_next) simp_all
  moreover have "(n mod ?c + 1) mod ?c < ?c" using c by simp
  with c have "(n mod ?c + 1) mod ?c < 2 ^ 32" by linarith
  ultimately have "(rh_write_slot ?h + 1) mod rb_max_records rb = word_of_nat ((n mod ?c + 1) mod ?c)"
    using c by (simp add: word_unat_eq_iff unat_mod unat_of_nat)
  also have "(n mod ?c + 1) mod ?c = (n + 1) mod ?c" by (simp add: mod_simps)
  finally have 1: "(rh_write_slot ?h + 1) mod rb_max_records rb = word_of_nat ((n + 1) mod ?c)" .
  have "unat (rh_count ?h + 1) = min n ?c + 1"
    using f(2) assms(2) c by (subst unat_next) simp_all
  then have 2: "min (rh_count ?h + 1) (rb_max_records rb) = word_of_nat (min (n + 1) ?c)"
    using c by (auto simp: min_def word_le_nat_alt word_unat_eq_iff unat_of_nat)
  have 3: "rh_next_sequence ?h + 1 = word_of_nat (n + 1)" by (simp add: header_after_def)
  show ?thesis
    unfolding advance_header_def using 1 2 3 by (simp add: header_after_def)
qed

lemma read_header_ok:
  assumes "ring_sound rb" and "length rs < 2 ^ 64" and "ps_io s = []" and "ps_entry s = RegularFile c" and "file_holds rb rs c"
  shows "read_header rb s = (Some (header_after rb (length rs)), s)"
proof -
  let ?n = "length rs"
  have "read_at HEADER_SIZE 0 s = (Some (header_bytes (header_after rb ?n)), s)"
    using assms(3-5) read_at_ok [of s 0 HEADER_SIZE] by (simp add: file_holds_def ps_content_def)
  moreover have "unat (rb_max_records rb) = ring_capacity rb" by (simp add: ring_capacity_def)
  ultimately show ?thesis
    using header_after_fields [OF assms(1,2)] assms(1)
    by (simp add: read_header_def word_less_nat_alt word_le_nat_alt)
      (simp add: header_after_def ring_sound_def)
qed

lemma mod_distinct: "i < n \<Longrightarrow> n < i + c \<Longrightarrow> i mod c \<noteq> n mod (c :: nat)"
proof
  assume a: "i < n" "n < i + c" "i mod c = n mod c"
  then have "c dvd n - i" by (metis less_imp_le mod_eq_dvd_iff_nat)
  with a show False using nat_dvd_not_less [of "n - i" c] by simp
qed

lemma slots_disjoint: "i \<noteq> j \<Longrightarrow> i * k + k \<le> j * k \<or> j * k + k \<le> i * (k :: nat)"
  using mult_le_mono1 [of "i + 1" j k] mult_le_mono1 [of "j + 1" i k] by (cases "i < j") auto

text \<open>Writing the next slot and then the header.\<close>

lemma file_holds_append:
  assumes "ring_sound rb" and "file_holds rb rs c" and "length r \<le> unat (rb_max_record_bytes rb)"
  shows "file_holds rb (rs @ [r])
    (splice (splice c (HEADER_SIZE + length rs mod ring_capacity rb * slot_size rb) (slot_bytes rb r))
       0 (header_bytes (header_after rb (length rs + 1))))"
proof -
  let ?n = "length rs" and ?k = "ring_capacity rb" and ?z = "slot_size rb"
  define j where "j = ?n mod ?k"
  define c1 where "c1 = splice c (HEADER_SIZE + j * ?z) (slot_bytes rb r)"
  define c2 where "c2 = splice c1 0 (header_bytes (header_after rb (?n + 1)))"
  have k: "0 < ?k" "j < ?k" using assms(1) by (simp_all add: ring_sound_def j_def)
  have len: "HEADER_SIZE + min ?n ?k * ?z \<le> length c" using assms(2) by (simp add: file_holds_def)
  have len1: "length c1 = max (length c) (HEADER_SIZE + (j + 1) * ?z)"
    by (simp add: c1_def length_splice length_slot_bytes [OF assms(3)] add.commute)
  have len2: "length c2 = length c1"
    using len1 len by (simp add: c2_def length_splice HEADER_SIZE_def)
  have after: "slot_at rb c2 i = slot_at rb c1 i" if "HEADER_SIZE + i * ?z + ?z \<le> length c1" for i
    unfolding slot_at_def c2_def using that by (intro region_splice_other) (simp_all add: HEADER_SIZE_def)
  have new: "slot_at rb c2 j = slot_bytes rb r"
    using after [of j] region_splice_same [of c "HEADER_SIZE + j * ?z" "slot_bytes rb r"] len1
    by (simp add: slot_at_def c1_def length_slot_bytes [OF assms(3)])
  have old: "slot_at rb c2 (i mod ?k) = slot_at rb c (i mod ?k)" if i: "i < ?n" "?n < i + ?k" for i
  proof -
    have "i mod ?k \<noteq> j" using mod_distinct [OF i] by (simp add: j_def)
    then have d: "HEADER_SIZE + i mod ?k * ?z + ?z \<le> HEADER_SIZE + j * ?z \<or> HEADER_SIZE + j * ?z + ?z \<le> HEADER_SIZE + i mod ?k * ?z"
      using slots_disjoint [of "i mod ?k" j ?z] by auto
    have "i mod ?k < min ?n ?k" using i k by (metis min_less_iff_conj mod_less_divisor mod_less_eq_dividend order_le_less_trans)
    then have "(i mod ?k + 1) * ?z \<le> min ?n ?k * ?z" by (intro mult_le_mono1) simp
    then have e: "HEADER_SIZE + i mod ?k * ?z + ?z \<le> length c" using len by simp
    have "slot_at rb c1 (i mod ?k) = slot_at rb c (i mod ?k)"
      unfolding slot_at_def c1_def using d e by (intro region_splice_other) (simp_all add: length_slot_bytes [OF assms(3)])
    with after [of "i mod ?k"] e len1 show ?thesis by simp
  qed
  have "region c2 0 HEADER_SIZE = header_bytes (header_after rb (?n + 1))"
    using region_splice_same [of c1 0 "header_bytes (header_after rb (?n + 1))"] by (simp add: c2_def HEADER_SIZE_def)
  moreover have "HEADER_SIZE + min (?n + 1) ?k * ?z \<le> length c2"
  proof (cases "?n < ?k")
    case True
    then have "j = ?n" by (simp add: j_def)
    with True len1 len2 show ?thesis by simp
  next
    case False
    then have "min ?n ?k = ?k" "min (?n + 1) ?k = ?k" by simp_all
    with len len1 len2 show ?thesis by simp
  qed
  moreover have "slot_at rb c2 (i mod ?k) = slot_bytes rb ((rs @ [r]) ! i)" if "i < ?n + 1" "?n + 1 \<le> i + ?k" for i
    using that new old [of i] assms(2) by (cases "i = ?n") (auto simp: file_holds_def nth_append j_def)
  ultimately show ?thesis
    using assms(2,3) by (simp add: file_holds_def flip: j_def c1_def) (simp add: c2_def flip: c1_def)
qed

lemma append_record_ok:
  assumes "ring_sound rb" and "length rs + 1 < 2 ^ 64" and "length r \<le> unat (rb_max_record_bytes rb)"
    and "ps_io s = []" and "ps_entry s = RegularFile c" and "file_holds rb rs c"
  shows "\<exists>s'. append_record rb r s = (True, s') \<and> ring_holds rb (rs @ [r]) s'"
proof -
  let ?n = "length rs"
  let ?c1 = "splice c (HEADER_SIZE + ?n mod ring_capacity rb * slot_size rb) (slot_bytes rb r)"
  let ?s1 = "s\<lparr>ps_entry := RegularFile ?c1\<rparr>"
  have n: "?n < 2 ^ 64" using assms(2) by simp
  have off: "slot_offset rb (rh_write_slot (header_after rb ?n)) = HEADER_SIZE + ?n mod ring_capacity rb * slot_size rb"
    by (simp add: slot_offset_def header_after_fields(1) [OF assms(1) n])
  have "slot_bytes rb r \<noteq> []" "header_bytes h \<noteq> []" for h
    by (simp_all add: slot_bytes_def)
  then have w: "write_slot rb (rh_write_slot (header_after rb ?n)) r s = (True, ?s1)"
    "write_header h ?s1 = (True, ?s1\<lparr>ps_entry := RegularFile (splice ?c1 0 (header_bytes h))\<rparr>)" for h
    using assms(4,5) by (simp_all add: write_slot_def write_header_def off write_at_ok ps_content_def)
  have "append_record rb r s = (True, s\<lparr>ps_entry := RegularFile (splice ?c1 0 (header_bytes (header_after rb (?n + 1))))\<rparr>)"
    using read_header_ok [OF assms(1) n assms(4-6)] w advance_header_after [OF assms(1,2)]
    by (simp add: append_record_def)
  with file_holds_append [OF assms(1,6,3)] assms(4) show ?thesis by (simp add: ring_holds_def)
qed

lemma ring_append_ok:
  assumes "ring_sound rb" and "length rs + 1 < 2 ^ 64" and "length r \<le> unat (rb_max_record_bytes rb)" and "ring_holds rb rs s"
  shows "\<exists>s'. ring_append rb r s = (True, s') \<and> ring_holds rb (rs @ [r]) s'"
proof (cases "rs = []")
  case False
  with assms(4) obtain c where c: "ps_io s = []" "ps_entry s = RegularFile c" "file_holds rb rs c" by (auto simp: ring_holds_def)
  with append_record_ok [OF assms(1-3)] assms(3) show ?thesis
    by (simp add: ring_append_def open_regular_file_for_append_def open_regular_file_def)
next
  case True
  with assms(4) have s: "ps_io s = []" "ps_entry s = NoEntry" by (simp_all add: ring_holds_def)
  let ?c = "header_bytes (initial_header rb)"
  have "initial_header rb = header_after rb 0" by (simp add: initial_header_def header_after_def)
  then have f: "file_holds rb [] ?c" by (simp add: file_holds_def region_def HEADER_SIZE_def)
  have w: "write_header (initial_header rb) (s\<lparr>ps_entry := RegularFile []\<rparr>) = (True, s\<lparr>ps_entry := RegularFile ?c\<rparr>)"
    using s write_at_ok [of "s\<lparr>ps_entry := RegularFile []\<rparr>" ?c 0]
    by (simp add: write_header_def ps_content_def splice_def)
  from append_record_ok [OF assms(1) _ assms(3) _ _ f, of "s\<lparr>ps_entry := RegularFile ?c\<rparr>"] s w assms(3) True show ?thesis
    by (simp add: ring_append_def open_regular_file_for_append_def)
qed

lemma read_slot_ok:
  assumes "ring_sound rb" and "i < 2 ^ 64" and "ps_io s = []" and "ps_entry s = RegularFile c"
    and "HEADER_SIZE + (i mod ring_capacity rb + 1) * slot_size rb \<le> length c"
    and "slot_at rb c (i mod ring_capacity rb) = slot_bytes rb r" and "length r \<le> unat (rb_max_record_bytes rb)"
  shows "read_slot rb (ucast ((word_of_nat i :: u64) mod ucast (rb_max_records rb))) s = (Some r, s)"
proof -
  let ?k = "ring_capacity rb" and ?w = "(word_of_nat i :: u64) mod ucast (rb_max_records rb)"
  have k: "0 < ?k" "?k < 2 ^ 32" "unat (rb_max_records rb) = ?k" using assms(1) by (simp_all add: ring_sound_def ring_capacity_def)
  have "unat (ucast (rb_max_records rb) :: u64) = ?k"
    using k by (simp only: unsigned_ucast_eq take_bit_eq_mod) simp
  then have w: "unat ?w = i mod ?k" using assms(2) by (simp add: unat_mod unat_of_nat)
  have "i mod ?k < ?k" using k by simp
  with k have "i mod ?k < 2 ^ 32" by linarith
  then have "unat (ucast ?w :: u32) = i mod ?k" using w by (simp only: unsigned_ucast_eq take_bit_eq_mod) simp
  then have off: "slot_offset rb (ucast ?w) = HEADER_SIZE + i mod ?k * slot_size rb" by (simp add: slot_offset_def)
  have "read_at (slot_size rb) (slot_offset rb (ucast ?w)) s = (Some (slot_bytes rb r), s)"
    using read_at_ok [OF assms(3), of "slot_offset rb (ucast ?w)" "slot_size rb"] assms(4-6)
    unfolding off by (simp add: ps_content_def slot_at_def)
  then show ?thesis by (simp add: read_slot_def record_of_slot_bytes [OF assms(7)])
qed

text \<open>What the slots say about the records \<open>rs\<close> from sequence number \<open>i\<close> on.\<close>

definition slots_hold :: "ring_buffer \<Rightarrow> bytes list \<Rightarrow> nat \<Rightarrow> bytes \<Rightarrow> bool" where
  "slots_hold rb rs i c \<longleftrightarrow>
     (\<forall>j < length rs. HEADER_SIZE + ((i + j) mod ring_capacity rb + 1) * slot_size rb \<le> length c \<and>
        slot_at rb c ((i + j) mod ring_capacity rb) = slot_bytes rb (rs ! j) \<and> length (rs ! j) \<le> unat (rb_max_record_bytes rb))"

lemma slots_hold_Cons:
  "slots_hold rb (r # rs) i c \<longleftrightarrow>
     HEADER_SIZE + (i mod ring_capacity rb + 1) * slot_size rb \<le> length c \<and>
     slot_at rb c (i mod ring_capacity rb) = slot_bytes rb r \<and> length r \<le> unat (rb_max_record_bytes rb) \<and>
     slots_hold rb rs (i + 1) c"
  by (auto simp: slots_hold_def less_Suc_eq_0_disj)

lemma read_records_ok:
  assumes "ring_sound rb" and "ps_io s = []" and "ps_entry s = RegularFile c"
  shows "i + length rs < 2 ^ 64 \<Longrightarrow> slots_hold rb rs i c \<Longrightarrow>
    read_records rb (rb_max_records rb) (length rs) (word_of_nat i) s = (Some rs, s)"
proof (induction rs arbitrary: i)
  case (Cons r rs)
  then have "read_slot rb (ucast ((word_of_nat i :: u64) mod ucast (rb_max_records rb))) s = (Some r, s)"
    by (intro read_slot_ok [OF assms(1) _ assms(2,3)]) (auto simp: slots_hold_Cons)
  moreover have "read_records rb (rb_max_records rb) (length rs) (word_of_nat (i + 1)) s = (Some rs, s)"
    using Cons by (intro Cons.IH) (simp_all add: slots_hold_Cons)
  ultimately show ?case by (simp add: add.commute)
qed simp

lemma file_holds_slots:
  assumes "ring_sound rb" and "file_holds rb rs c" and "length rs \<le> i + ring_capacity rb"
  shows "slots_hold rb (drop i rs) i c"
  unfolding slots_hold_def
proof (intro allI impI conjI)
  let ?k = "ring_capacity rb" and ?z = "slot_size rb"
  have k: "0 < ?k" using assms(1) by (simp add: ring_sound_def)
  fix j
  assume j: "j < length (drop i rs)"
  then have n: "i + j < length rs" by simp
  have "(i + j) mod ?k < min (length rs) ?k"
    using n k by (metis min_less_iff_conj mod_less_divisor mod_less_eq_dividend order_le_less_trans)
  then have "((i + j) mod ?k + 1) * ?z \<le> min (length rs) ?k * ?z" by (intro mult_le_mono1) simp
  then show "HEADER_SIZE + ((i + j) mod ?k + 1) * ?z \<le> length c" using assms(2) by (simp add: file_holds_def)
  show "slot_at rb c ((i + j) mod ?k) = slot_bytes rb (drop i rs ! j)"
    using n assms(2,3) by (simp add: file_holds_def)
  show "length (drop i rs ! j) \<le> unat (rb_max_record_bytes rb)"
    using n assms(2) by (simp add: file_holds_def list_all_length)
qed

text \<open>The first sequence number that is read.\<close>

definition ring_start :: "ring_buffer \<Rightarrow> u64 option \<Rightarrow> nat \<Rightarrow> nat" where
  "ring_start rb q n =
     (let earliest = n - min n (ring_capacity rb)
      in max earliest (min n (case q of None \<Rightarrow> earliest | Some x \<Rightarrow> unat x)))"

lemma ring_read_since_eq:
  assumes "ring_sound rb" and "n < 2 ^ 64" and "ps_io s = []" and "ps_entry s = RegularFile c"
    and "read_header rb s = (Some (header_after rb n), s)" and "slots_hold rb rs (ring_start rb q n) c"
    and "n = ring_start rb q n + length rs"
  shows "ring_read_since rb q s = (Some \<lparr>rr_records = rs, rr_next_sequence = word_of_nat n\<rparr>, s)"
proof -
  let ?h = "header_after rb n" and ?e = "n - min n (ring_capacity rb)"
  note f = header_after_fields [OF assms(1,2)]
  define st where "st = start_sequence ?h q"
  have "unat (rh_next_sequence ?h - ucast (rh_count ?h)) = ?e" using f by (simp add: unat_sub_if')
  then have ust: "unat st = ring_start rb q n"
    using f(3) by (cases q) (auto simp: st_def start_sequence_def ring_start_def word_less_nat_alt Let_def)
  then have st: "st = word_of_nat (ring_start rb q n)" by (simp flip: ust)
  have le: "ring_start rb q n \<le> n" using assms(7) by simp
  have h: "rh_next_sequence ?h = word_of_nat n" "rh_capacity ?h = rb_max_records rb" by (simp_all add: header_after_def)
  have "unat (rh_next_sequence ?h - st) = length rs"
    using f(3) ust le assms(7) by (simp add: unat_sub_if')
  moreover have "read_records rb (rb_max_records rb) (length rs) st s = (Some rs, s)"
    unfolding st using assms(2,6,7) by (intro read_records_ok [OF assms(1,3,4)]) simp_all
  moreover have "open_regular_file s = (Opened, s)" using assms(3,4) by (simp add: open_regular_file_def)
  ultimately show ?thesis
    using assms(5) h unfolding ring_read_since_def
    by (simp add: Let_def flip: st_def)
qed

lemma ring_read_since_ok:
  assumes "ring_sound rb" and "length rs < 2 ^ 64" and "ring_holds rb rs s"
  shows "ring_read_since rb q s =
    (Some \<lparr>rr_records = drop (ring_start rb q (length rs)) rs, rr_next_sequence = word_of_nat (length rs)\<rparr>, s)"
proof (cases "rs = []")
  case True
  with assms(3) show ?thesis by (simp add: ring_holds_def ring_read_since_def open_regular_file_def)
next
  case False
  with assms(3) obtain c where c: "ps_io s = []" "ps_entry s = RegularFile c" "file_holds rb rs c" by (auto simp: ring_holds_def)
  have st: "ring_start rb q (length rs) \<le> length rs" "length rs \<le> ring_start rb q (length rs) + ring_capacity rb"
    by (auto simp: ring_start_def Let_def split: option.splits)
  show ?thesis
    using read_header_ok [OF assms(1,2) c] file_holds_slots [OF assms(1) c(3) st(2)] st(1)
    by (intro ring_read_since_eq [OF assms(1,2) c(1,2)]) simp_all
qed

primrec ring_append_all :: "ring_buffer \<Rightarrow> bytes list \<Rightarrow> path_state \<Rightarrow> bool \<times> path_state" where
  "ring_append_all rb [] s = (True, s)"
| "ring_append_all rb (r # rs) s =
     (case ring_append rb r s of (ok, s) \<Rightarrow> map_prod ((\<and>) ok) id (ring_append_all rb rs s))"

lemma ring_append_all_ok:
  "ring_sound rb \<Longrightarrow> length ps + length rs < 2 ^ 64 \<Longrightarrow> list_all (\<lambda>r. length r \<le> unat (rb_max_record_bytes rb)) rs \<Longrightarrow>
     ring_holds rb ps s \<Longrightarrow> \<exists>s'. ring_append_all rb rs s = (True, s') \<and> ring_holds rb (ps @ rs) s'"
proof (induction rs arbitrary: ps s)
  case (Cons r rs)
  then obtain s1 where 1: "ring_append rb r s = (True, s1)" "ring_holds rb (ps @ [r]) s1"
    using ring_append_ok [of rb ps r s] by auto
  from Cons.IH [OF Cons.prems(1) _ _ 1(2)] Cons.prems obtain s2
    where "ring_append_all rb rs s1 = (True, s2)" "ring_holds rb (ps @ r # rs) s2" by auto
  with 1(1) show ?case by simp
qed simp

text \<open>
  (C13) The ring buffer keeps the latest records: when records within the size limit are appended to a path
  without a file, every append succeeds, and reading from any sequence number on returns, in order, exactly
  the appended records that are not older than it and among the last ones that the capacity allows, together
  with the number of records ever appended. Reading changes nothing. The capacity must be positive and below
  2 to the 32 minus 1.
\<close>

theorem ring_buffer_keeps_latest:
  assumes "ring_sound rb" and "length rs < 2 ^ 64"
    and "list_all (\<lambda>r. length r \<le> unat (rb_max_record_bytes rb)) rs"
  shows "\<exists>s. ring_append_all rb rs \<lparr>ps_entry = NoEntry, ps_io = []\<rparr> = (True, s) \<and>
    ring_read_since rb q s =
      (Some \<lparr>rr_records = drop (ring_start rb q (length rs)) rs, rr_next_sequence = word_of_nat (length rs)\<rparr>, s)"
proof -
  have "ring_holds rb [] \<lparr>ps_entry = NoEntry, ps_io = []\<rparr>" by (simp add: ring_holds_def)
  from ring_append_all_ok [OF assms(1) _ assms(3) this] assms(2) obtain s
    where "ring_append_all rb rs \<lparr>ps_entry = NoEntry, ps_io = []\<rparr> = (True, s)" "ring_holds rb rs s" by auto
  with ring_read_since_ok [OF assms(1,2)] show ?thesis by blast
qed

theorem ring_buffer_keeps_latest_witness:
  "\<exists>s. ring_append_all \<lparr>rb_max_records = 2, rb_max_record_bytes = 4\<rparr> [[1], [2, 2], [3]] \<lparr>ps_entry = NoEntry, ps_io = []\<rparr> = (True, s) \<and>
    ring_read_since \<lparr>rb_max_records = 2, rb_max_record_bytes = 4\<rparr> (Some 0) s =
      (Some \<lparr>rr_records = [[2, 2], [3]], rr_next_sequence = 3\<rparr>, s)"
  using ring_buffer_keeps_latest [of "\<lparr>rb_max_records = 2, rb_max_record_bytes = 4\<rparr>" "[[1], [2, 2], [3]]" "Some 0"]
  by (simp add: ring_sound_def ring_capacity_def ring_start_def)

subsection \<open>An append that is cut short\<close>

lemma next_call_Cons: "ps_io s = r # rs \<Longrightarrow> next_call s = (r, s\<lparr>ps_io := rs\<rparr>)"
  by (simp add: next_call_def)

lemma write_at_calls:
  assumes "ps_io s = [CallOk, CallOk] @ io" and "d \<noteq> []"
  shows "write_at pos d s = (True, s\<lparr>ps_io := io, ps_entry := RegularFile (splice (ps_content s) pos d)\<rparr>)"
proof -
  let ?s = "s\<lparr>ps_io := CallOk # io\<rparr>"
  have "write_loop pos d ?s =
      write_loop (pos + length d) [] (s\<lparr>ps_io := io, ps_entry := RegularFile (splice (ps_content s) pos d)\<rparr>)"
    using assms(2) by (subst write_loop.simps) (simp add: next_call_Cons [of _ CallOk io] ps_content_def)
  with assms(1) show ?thesis by (simp add: write_at_def next_call_Cons [of s CallOk "CallOk # io"] write_loop.simps [of _ "[]"])
qed

lemma read_at_calls:
  assumes "ps_io s = CallOk # io" and "n \<noteq> 0" and "pos + n \<le> length (ps_content s)"
  shows "read_at n pos s = (Some (region (ps_content s) pos n), s\<lparr>ps_io := io\<rparr>)"
proof -
  let ?d = "take n (drop pos (ps_content s))"
  have l: "length ?d = n" using assms(3) by simp
  with assms(2) have "?d \<noteq> []" by force
  with assms(1,2) l have "read_loop pos n [] s = read_loop (pos + n) 0 ?d (s\<lparr>ps_io := io\<rparr>)"
    by (subst read_loop.simps) (simp add: next_call_Cons ps_content_def)
  then show ?thesis by (simp add: read_at_def region_def read_loop.simps [of _ 0])
qed

lemma read_header_calls:
  assumes "read_header rb (s\<lparr>ps_io := []\<rparr>) = (Some h, s\<lparr>ps_io := []\<rparr>)" and "ps_io s = CallOk # io"
    and "HEADER_SIZE \<le> length (ps_content s)"
  shows "read_header rb s = (Some h, s\<lparr>ps_io := io\<rparr>)"
proof -
  have "ps_content (s\<lparr>ps_io := []\<rparr>) = ps_content s" by (simp add: ps_content_def)
  then show ?thesis
    using assms(1,3) read_at_ok [of "s\<lparr>ps_io := []\<rparr>" 0 HEADER_SIZE] read_at_calls [OF assms(2), of HEADER_SIZE 0]
    by (simp add: read_header_def HEADER_SIZE_def Let_def split: if_splits)
qed

text \<open>The open, the open for reading and writing, the change of permissions, the read of the header and the two
  calls that write the slot succeed; the call that would position for the header fails.\<close>

definition fails_at_header :: "call_outcome list" where
  "fails_at_header = [CallOk, CallOk, CallOk, CallOk, CallOk, CallOk, CallFail]"

lemma torn_append_state:
  assumes "ring_sound rb" and "length rs < 2 ^ 64" and "length r \<le> unat (rb_max_record_bytes rb)"
    and "rs \<noteq> []" and "ps_io s = []" and "ps_entry s = RegularFile c" and "file_holds rb rs c"
  shows "ring_append rb r (s\<lparr>ps_io := fails_at_header\<rparr>) = (False, s\<lparr>ps_entry := RegularFile
    (splice c (HEADER_SIZE + length rs mod ring_capacity rb * slot_size rb) (slot_bytes rb r))\<rparr>)"
proof -
  let ?n = "length rs" and ?h = "header_after rb (length rs)"
  let ?s4 = "s\<lparr>ps_io := [CallOk, CallOk, CallOk, CallFail]\<rparr>"
  have off: "slot_offset rb (rh_write_slot ?h) = HEADER_SIZE + ?n mod ring_capacity rb * slot_size rb"
    by (simp add: slot_offset_def header_after_fields(1) [OF assms(1,2)])
  have len: "HEADER_SIZE \<le> length c" using assms(7) by (simp add: file_holds_def)
  have same: "s\<lparr>ps_io := []\<rparr> = s" using assms(5) by (cases s) simp
  have rh: "read_header rb ?s4 = (Some ?h, s\<lparr>ps_io := [CallOk, CallOk, CallFail]\<rparr>)"
    using read_header_calls [of rb ?s4 ?h "[CallOk, CallOk, CallFail]"] read_header_ok [OF assms(1,2,5,6,7)] len assms(6) same
    by (simp add: ps_content_def)
  have sb: "slot_bytes rb r \<noteq> []" by (simp add: slot_bytes_def)
  have ws: "write_slot rb (rh_write_slot ?h) r (s\<lparr>ps_io := [CallOk, CallOk, CallFail]\<rparr>) = (True, s\<lparr>ps_io := [CallFail],
      ps_entry := RegularFile (splice c (HEADER_SIZE + ?n mod ring_capacity rb * slot_size rb) (slot_bytes rb r))\<rparr>)"
    using write_at_calls [of "s\<lparr>ps_io := [CallOk, CallOk, CallFail]\<rparr>" "[CallFail]", OF _ sb] assms(6)
    by (simp add: write_slot_def off ps_content_def)
  have "ring_append rb r (s\<lparr>ps_io := fails_at_header\<rparr>) = append_record rb r ?s4"
    using assms(3,6) by (simp add: ring_append_def fails_at_header_def open_regular_file_for_append_def open_regular_file_def
        next_call_def)
  then show ?thesis
    using rh ws same by (simp add: append_record_def write_header_def write_at_def next_call_def) (cases s, simp add: assms(5))
qed

text \<open>
  (C39) An append is not atomic: when the buffer is full and the process fails between writing the slot and
  writing the header, the new record replaces the oldest one in place. A later read of all records returns the
  new record first, before the older records that are kept, and the sequence number does not advance.
\<close>

theorem torn_append_misorders:
  assumes "ring_sound rb" and "length rs < 2 ^ 64" and "length r \<le> unat (rb_max_record_bytes rb)"
    and "ring_holds rb rs s" and "ring_capacity rb \<le> length rs"
  shows "\<exists>s'. ring_append rb r (s\<lparr>ps_io := fails_at_header\<rparr>) = (False, s') \<and>
    ring_read_all rb s' = (Some \<lparr>rr_records = r # drop (length rs - ring_capacity rb + 1) rs,
      rr_next_sequence = word_of_nat (length rs)\<rparr>, s')"
proof -
  let ?n = "length rs" and ?k = "ring_capacity rb" and ?z = "slot_size rb"
  define i where "i = ?n - ?k"
  have k: "0 < ?k" using assms(1) by (simp add: ring_sound_def)
  with assms(5) have ne: "rs \<noteq> []" by auto
  with assms(4) obtain c where c: "ps_io s = []" "ps_entry s = RegularFile c" "file_holds rb rs c" by (auto simp: ring_holds_def)
  define c1 where "c1 = splice c (HEADER_SIZE + ?n mod ?k * ?z) (slot_bytes rb r)"
  define s1 where "s1 = s\<lparr>ps_entry := RegularFile c1\<rparr>"
  have s1: "ps_io s1 = []" "ps_entry s1 = RegularFile c1" using c by (simp_all add: s1_def)
  have len: "HEADER_SIZE + ?k * ?z \<le> length c" using c(3) assms(5) by (simp add: file_holds_def)
  have len1: "length c \<le> length c1" by (simp add: c1_def length_splice)
  have start: "ring_start rb None ?n = i" using assms(5) by (simp add: ring_start_def i_def min_def)
  have im: "i mod ?k = ?n mod ?k" using assms(5) by (simp add: i_def mod_if [of ?n] le_mod_geq)
  have old: "slots_hold rb (drop i rs) i c" using assms(1,5) c(3) by (intro file_holds_slots) (simp_all add: i_def)
  have d: "drop i rs = rs ! i # drop (i + 1) rs" using k assms(5) ne by (simp add: i_def Cons_nth_drop_Suc)
  have "region c1 0 HEADER_SIZE = region c 0 HEADER_SIZE"
    unfolding c1_def using len by (intro region_splice_other) simp_all
  then have rh: "read_header rb s1 = (Some (header_after rb ?n), s1)"
    using read_header_ok [OF assms(1,2) c] read_at_ok [OF c(1), of 0 HEADER_SIZE] read_at_ok [OF s1(1), of 0 HEADER_SIZE] len len1 c(2) s1(2)
    by (simp add: read_header_def ps_content_def Let_def split: if_splits)
  have sh: "slots_hold rb (r # drop (i + 1) rs) i c1"
    unfolding slots_hold_Cons
  proof (intro conjI)
    have "(i mod ?k + 1) * ?z \<le> ?k * ?z" using k by (intro mult_le_mono1) (simp add: Suc_le_eq)
    then show "HEADER_SIZE + (i mod ?k + 1) * ?z \<le> length c1" using len len1 by linarith
    show "slot_at rb c1 (i mod ?k) = slot_bytes rb r"
      using region_splice_same [of c "HEADER_SIZE + ?n mod ?k * ?z" "slot_bytes rb r"]
      by (simp add: slot_at_def c1_def im length_slot_bytes [OF assms(3)])
    show "slots_hold rb (drop (i + 1) rs) (i + 1) c1"
      unfolding slots_hold_def
    proof (intro allI impI)
      fix j
      assume j: "j < length (drop (i + 1) rs)"
      let ?m = "(i + 1 + j) mod ?k"
      have h: "HEADER_SIZE + (?m + 1) * ?z \<le> length c \<and> slot_at rb c ?m = slot_bytes rb (drop (i + 1) rs ! j) \<and>
          length (drop (i + 1) rs ! j) \<le> unat (rb_max_record_bytes rb)"
        using old [unfolded d slots_hold_Cons] j by (simp add: slots_hold_def)
      have "i + 1 + j < i + ?k" using j assms(5) by (simp add: i_def)
      then have "?m \<noteq> ?n mod ?k" using mod_distinct [of i "i + 1 + j" ?k] im by simp
      then have "HEADER_SIZE + ?m * ?z + ?z \<le> HEADER_SIZE + ?n mod ?k * ?z \<or> HEADER_SIZE + ?n mod ?k * ?z + ?z \<le> HEADER_SIZE + ?m * ?z"
        using slots_disjoint [of ?m "?n mod ?k" ?z] by auto
      then have "slot_at rb c1 ?m = slot_at rb c ?m"
        unfolding slot_at_def c1_def using h by (intro region_splice_other) (simp_all add: length_slot_bytes [OF assms(3)] add.commute)
      with h len1 show "HEADER_SIZE + (?m + 1) * ?z \<le> length c1 \<and> slot_at rb c1 ?m = slot_bytes rb (drop (i + 1) rs ! j) \<and>
          length (drop (i + 1) rs ! j) \<le> unat (rb_max_record_bytes rb)"
        by (auto elim: order_trans)
    qed
  qed (fact assms(3))
  have n: "?n = i + length (r # drop (i + 1) rs)" using d k assms(5) ne by (simp add: i_def)
  have "ring_read_all rb s1 = (Some \<lparr>rr_records = r # drop (i + 1) rs, rr_next_sequence = word_of_nat ?n\<rparr>, s1)"
    unfolding ring_read_all_def
    by (rule ring_read_since_eq [OF assms(1,2) s1 rh, where q = None, unfolded start, OF sh n])
  moreover have "ring_append rb r (s\<lparr>ps_io := fails_at_header\<rparr>) = (False, s1)"
    unfolding s1_def c1_def by (rule torn_append_state [OF assms(1,2,3) ne c])
  ultimately show ?thesis unfolding i_def by blast
qed

theorem torn_append_misorders_witness:
  "\<exists>s s'. ring_append_all \<lparr>rb_max_records = 2, rb_max_record_bytes = 4\<rparr> [[1], [2]] \<lparr>ps_entry = NoEntry, ps_io = []\<rparr> = (True, s) \<and>
    ring_append \<lparr>rb_max_records = 2, rb_max_record_bytes = 4\<rparr> [3] (s\<lparr>ps_io := fails_at_header\<rparr>) = (False, s') \<and>
    ring_read_all \<lparr>rb_max_records = 2, rb_max_record_bytes = 4\<rparr> s' = (Some \<lparr>rr_records = [[3], [2]], rr_next_sequence = 2\<rparr>, s')"
proof -
  let ?rb = "\<lparr>rb_max_records = 2, rb_max_record_bytes = 4\<rparr>"
  have rb: "ring_sound ?rb" "ring_capacity ?rb = 2" by (simp_all add: ring_sound_def ring_capacity_def)
  have "ring_holds ?rb [] \<lparr>ps_entry = NoEntry, ps_io = []\<rparr>" by (simp add: ring_holds_def)
  from ring_append_all_ok [OF rb(1) _ _ this, of "[[1], [2]]"] obtain s
    where s: "ring_append_all ?rb [[1], [2]] \<lparr>ps_entry = NoEntry, ps_io = []\<rparr> = (True, s)" "ring_holds ?rb [[1], [2]] s" by auto
  from torn_append_misorders [OF rb(1) _ _ s(2), of "[3]"] rb(2) s(1) show ?thesis by auto
qed

end
