(* ===== verification/Spec2Isabelle.thy ===== *)
theory Spec2Isabelle
  imports Vpn_Outcomes Udp_Tunnel Deep_Link_Correct Deep_Link_Cert Icmp_Tunnel Icmp_Correct Icmp_Manager_Correct Data_Buffer_Correct Ring_Buffer_Correct
begin

text \<open>TrustTunnel client engine.\<close>

end
